(* ===== verification/Prelude.thy ===== *)
theory Prelude
  imports Main "HOL-Library.Word"
begin

text \<open>
  Shared by every component of the development: the collections of facts the proofs use, the
  names of the C++ types the models share, and generic lemmas on lists and maps.

  \<^item> \<open>inv_intros\<close>: introduction rules for the invariants of the components;
  \<^item> \<open>op_simps\<close>: unfolding of the operations of a component;
  \<^item> \<open>frame_simps\<close>: what an operation leaves unchanged.
\<close>

named_theorems inv_intros "introduction rules for component invariants"
named_theorems op_simps "definitions of the operations of the components"
named_theorems frame_simps "parts of the state an operation leaves unchanged"

subsection \<open>Names of types\<close>

text \<open>Bytes, and the fixed-width unsigned integers the code stores them in.\<close>

type_synonym u8 = "8 word"
type_synonym u16 = "16 word"
type_synonym u32 = "32 word"
type_synonym u64 = "64 word"
type_synonym bytes = "u8 list"

text \<open>Milliseconds on a clock (\<open>std::int64_t\<close> or \<open>std::chrono::milliseconds\<close>).\<close>

type_synonym ms = int

subsection \<open>Lists updated in place\<close>

lemma length_filter_update:
  assumes "i < length xs"
  shows "length (filter P (xs[i := y])) + (if P (xs ! i) then 1 else 0)
       = length (filter P xs) + (if P y then 1 else 0)"
  using assms
proof (induction xs arbitrary: i)
  case Nil
  then show ?case by simp
next
  case (Cons x xs)
  then show ?case by (cases i) auto
qed

lemma length_filter_remove1:
  assumes "x \<in> set xs"
  shows "length (filter P (remove1 x xs)) + (if P x then 1 else 0) = length (filter P xs)"
  using assms by (induction xs) auto

lemma length_filter_pos: "x \<in> set xs \<Longrightarrow> P x \<Longrightarrow> 0 < length (filter P xs)"
  by (induction xs) auto

subsection \<open>Folds that stop at nothing\<close>

lemma foldl_invariant:
  assumes "P s" and "\<And>s x. x \<in> set xs \<Longrightarrow> P s \<Longrightarrow> P (f s x)"
  shows "P (foldl f s xs)"
  using assms by (induction xs arbitrary: s) auto

end
