(* ===== verification/Throttle.thy ===== *)
theory Throttle
  imports Prelude
begin

text \<open>
  \<open>src/kernel/ProviderThrottle.cpp\<close>: the concurrency limiter per LLM provider. A pool counts
  the slots in use and queues the promises of the callers that wait for one; \<open>SlotGuard\<close> is the
  RAII handle that gives a slot back once. The blocking call \<open>Acquire\<close> is two atomic sections:
  \<open>Acquire\<close> up to \<open>lock.unlock()\<close> and, for a caller that had to wait, \<open>Acquire_resume\<close> after
  its promise was fulfilled by a \<open>Release\<close>. \<open>throttle_step\<close> interleaves the sections of any
  number of callers.
\<close>

subsection \<open>State\<close>

text \<open>\<open>SlotPool\<close>: a promise in the queue is named by the number of the waiting call.\<close>

record slot_pool =
  active :: int
  waiting :: "nat list"

type_synonym pools = "string \<rightharpoonup> slot_pool"

text \<open>\<open>SlotGuard\<close>: \<open>sg_throttle\<close> says whether the pointer \<open>m_throttle\<close> is set.\<close>

record slot_guard =
  sg_throttle :: bool
  sg_provider :: string
  sg_released :: bool

definition empty_pool :: slot_pool where
  "empty_pool = \<lparr>active = 0, waiting = []\<rparr>"

text \<open>\<open>m_pools[providerId]\<close> of \<open>std::unordered_map\<close>: a missing pool is created.\<close>

definition pool_ref :: "pools \<Rightarrow> string \<Rightarrow> slot_pool" where
  "pool_ref m p = (case m p of None \<Rightarrow> empty_pool | Some q \<Rightarrow> q)"

definition new_guard :: "bool \<Rightarrow> string \<Rightarrow> slot_guard" where
  "new_guard t p = \<lparr>sg_throttle = t, sg_provider = p, sg_released = False\<rparr>"

subsection \<open>Operations\<close>

text \<open>
  \<open>Acquire\<close> up to the wait. The result is the guard, or \<open>None\<close> when the call has queued its
  promise \<open>w\<close> and blocks.
\<close>

definition concurrency_of :: "(string \<Rightarrow> int) option \<Rightarrow> string \<Rightarrow> int" where
  "concurrency_of lookup p = (case lookup of None \<Rightarrow> 1 | Some f \<Rightarrow> f p)"

definition Acquire :: "(string \<Rightarrow> int) option \<Rightarrow> string \<Rightarrow> nat \<Rightarrow> pools \<Rightarrow> pools \<times> slot_guard option" where
  "Acquire lookup p w m =
     (let c = concurrency_of lookup p in
      if c \<le> 0 then (m, Some (new_guard False ''''))
      else
        let q = pool_ref m p in
        if active q < c then (m(p \<mapsto> q\<lparr>active := active q + 1\<rparr>), Some (new_guard True p))
        else (m(p \<mapsto> q\<lparr>waiting := waiting q @ [w]\<rparr>), None))"

definition Acquire_resume :: "string \<Rightarrow> slot_guard" where
  "Acquire_resume p = new_guard True p"

text \<open>\<open>ProviderThrottle::Release\<close>; the second component is the waiter whose promise is set.\<close>

definition Release :: "string \<Rightarrow> pools \<Rightarrow> pools \<times> nat option" where
  "Release p m =
     (if p = '''' then (m, None)
      else case m p of
        None \<Rightarrow> (m, None)
      | Some q \<Rightarrow>
          (case waiting q of
             w # ws \<Rightarrow> (m(p \<mapsto> q\<lparr>waiting := ws\<rparr>), Some w)
           | [] \<Rightarrow>
               if active q - 1 = 0 then (m(p := None), None)
               else (m(p \<mapsto> q\<lparr>active := active q - 1\<rparr>), None)))"

text \<open>\<open>SlotGuard::Release\<close>, over any provider of \<open>Release\<close>.\<close>

definition SlotGuard_Release ::
  "(string \<Rightarrow> 's \<Rightarrow> 's \<times> nat option) \<Rightarrow> slot_guard \<Rightarrow> 's \<Rightarrow> slot_guard \<times> 's \<times> nat option" where
  "SlotGuard_Release rel g s =
     (if \<not> sg_released g \<and> sg_throttle g
      then let (s', w) = rel (sg_provider g) s in (g\<lparr>sg_released := True\<rparr>, s', w)
      else (g, s, None))"

text \<open>The moved-from guard: \<open>m_throttle = nullptr; m_released = true\<close>.\<close>

definition moved_from :: "slot_guard \<Rightarrow> slot_guard" where
  "moved_from g = g\<lparr>sg_throttle := False, sg_released := True\<rparr>"

text \<open>Move assignment \<open>guards[i] = std::move(guards[j])\<close>, self assignment included.\<close>

definition SlotGuard_move_assign ::
  "(string \<Rightarrow> 's \<Rightarrow> 's \<times> nat option) \<Rightarrow> nat \<Rightarrow> nat \<Rightarrow> slot_guard list \<Rightarrow> 's
    \<Rightarrow> slot_guard list \<times> 's \<times> nat option" where
  "SlotGuard_move_assign rel i j gs s =
     (if i = j then (gs, s, None)
      else let (_, s', w) = SlotGuard_Release rel (gs ! i) s
           in (gs[i := gs ! j, j := moved_from (gs ! j)], s', w))"

text \<open>A guard that will still give a slot of provider \<open>p\<close> back.\<close>

definition holds_slot :: "string \<Rightarrow> slot_guard \<Rightarrow> bool" where
  "holds_slot p g \<longleftrightarrow> sg_throttle g \<and> \<not> sg_released g \<and> sg_provider g = p"

text \<open>Slots in use, as the pool counts them.\<close>

definition slots_used :: "pools \<Rightarrow> string \<Rightarrow> int" where
  "slots_used m p = (case m p of None \<Rightarrow> 0 | Some q \<Rightarrow> active q)"

lemmas throttle_defs [op_simps] =
  Acquire_def Acquire_resume_def Release_def pool_ref_def empty_pool_def new_guard_def
  slots_used_def holds_slot_def moved_from_def

subsection \<open>What a guard relies on\<close>

text \<open>
  The contract between \<open>SlotGuard\<close> and the throttle it points to: a release hands the slot to
  one waiter, or gives it back; it never touches another provider's count.
\<close>

locale slot_provider =
  fixes rel :: "string \<Rightarrow> 's \<Rightarrow> 's \<times> nat option"
    and used :: "'s \<Rightarrow> string \<Rightarrow> int"
  assumes rel_back: "p \<noteq> '''' \<Longrightarrow> 1 \<le> used s p \<Longrightarrow> rel p s = (s', None)
      \<Longrightarrow> used s' = (used s)(p := used s p - 1)"
    and rel_pass: "rel p s = (s', Some w) \<Longrightarrow> used s' = used s"
begin

lemma guard_releaseD:
  assumes "SlotGuard_Release rel g s = (g', s', w)"
  shows "(sg_throttle g \<and> \<not> sg_released g \<and> rel (sg_provider g) s = (s', w)
            \<and> g' = g\<lparr>sg_released := True\<rparr>)
       \<or> ((sg_released g \<or> \<not> sg_throttle g) \<and> g' = g \<and> s' = s \<and> w = None)"
  using assms by (auto simp: SlotGuard_Release_def split: if_splits prod.splits)

lemma guard_release_twice:
  assumes "SlotGuard_Release rel g s = (g', s', w)"
  shows "SlotGuard_Release rel g' s' = (g', s', None)"
  using guard_releaseD [OF assms] by (auto simp: SlotGuard_Release_def)

lemma guard_release_count:
  assumes r: "SlotGuard_Release rel g s = (g', s', w)"
    and ne: "sg_provider g \<noteq> ''''"
    and pos: "sg_throttle g \<Longrightarrow> \<not> sg_released g \<Longrightarrow> 1 \<le> used s (sg_provider g)"
  shows "used s' p = used s p - (if holds_slot p g \<and> w = None then 1 else 0)"
proof (cases "sg_throttle g \<and> \<not> sg_released g")
  case True
  then have rp: "rel (sg_provider g) s = (s', w)" using guard_releaseD [OF r] by auto
  show ?thesis
  proof (cases w)
    case None
    then have "used s' = (used s)(sg_provider g := used s (sg_provider g) - 1)"
      using rp rel_back [OF ne] pos True by blast
    then show ?thesis using True None by (auto simp: holds_slot_def)
  next
    case (Some v)
    then show ?thesis using rp rel_pass by simp
  qed
next
  case False
  then show ?thesis using guard_releaseD [OF r] by (auto simp: holds_slot_def)
qed

lemma guard_release_spent:
  assumes "SlotGuard_Release rel g s = (g', s', w)"
  shows "\<not> holds_slot p g'"
  using guard_releaseD [OF assms] by (auto simp: holds_slot_def)

end

subsection \<open>The throttle keeps the contract\<close>

lemma slots_used_upd [simp]:
  "slots_used (m(p \<mapsto> q)) = (slots_used m)(p := active q)"
  "slots_used (m(p := None)) = (slots_used m)(p := 0)"
  by (rule ext, simp add: slots_used_def)+

lemma slots_used_Some: "m p = Some q \<Longrightarrow> slots_used m p = active q"
  by (simp add: slots_used_def)

lemma slots_used_None: "m p = None \<Longrightarrow> slots_used m p = 0"
  by (simp add: slots_used_def)

lemma Release_back:
  assumes "p \<noteq> ''''" and "1 \<le> slots_used m p" and "Release p m = (m', None)"
  shows "slots_used m' = (slots_used m)(p := slots_used m p - 1)"
  using assms
  by (auto simp: Release_def slots_used_Some slots_used_None
      split: option.splits list.splits if_splits)

lemma Release_pass:
  assumes "Release p m = (m', Some w)"
  shows "slots_used m' = slots_used m"
proof -
  from assms obtain q ws where q: "m p = Some q" and m': "m' = m(p \<mapsto> q\<lparr>waiting := ws\<rparr>)"
    by (auto simp: Release_def split: option.splits list.splits if_splits)
  have "slots_used m' = (slots_used m)(p := active q)" by (simp add: m')
  then show ?thesis
    using slots_used_Some [where m = m and p = p and q = q] q by (simp add: fun_upd_idem)
qed

interpretation thr: slot_provider Release slots_used
  by unfold_locales (rule Release_back, assumption+, rule Release_pass)

subsection \<open>Any number of callers\<close>

text \<open>
  The throttle, every guard ever handed out, and the calls whose promise was fulfilled but that
  have not returned their guard yet, each with the provider it waits for.
\<close>

record throttle_sys =
  ts_pools :: pools
  ts_guards :: "slot_guard list"
  ts_woken :: "(nat \<times> string) list"

definition init_throttle :: throttle_sys where
  "init_throttle = \<lparr>ts_pools = Map.empty, ts_guards = [], ts_woken = []\<rparr>"

definition note_woken :: "string \<Rightarrow> nat option \<Rightarrow> (nat \<times> string) list" where
  "note_woken p w = (case w of None \<Rightarrow> [] | Some v \<Rightarrow> [(v, p)])"

text \<open>
  One rule per atomic section. The concurrency \<open>lookup\<close> is read on each call, so the steps of one
  run may see different configurations: it is bounded by \<open>cap\<close> in the theorems below.
  Construction, move construction and move assignment of guards are the same object state
  whether the guard lives in a variable or in a container: guards are named by their index.
\<close>

inductive throttle_step :: "(string \<Rightarrow> int) \<Rightarrow> throttle_sys \<Rightarrow> throttle_sys \<Rightarrow> bool" for cap where
  granted: "p \<noteq> '''' \<Longrightarrow> concurrency_of lookup p \<le> cap p \<Longrightarrow> Acquire lookup p w (ts_pools s) = (m, Some g)
    \<Longrightarrow> throttle_step cap s (s\<lparr>ts_pools := m, ts_guards := ts_guards s @ [g]\<rparr>)"
| parked: "p \<noteq> '''' \<Longrightarrow> concurrency_of lookup p \<le> cap p \<Longrightarrow> Acquire lookup p w (ts_pools s) = (m, None)
    \<Longrightarrow> throttle_step cap s (s\<lparr>ts_pools := m\<rparr>)"
| resumed: "(w, p) \<in> set (ts_woken s)
    \<Longrightarrow> throttle_step cap s (s\<lparr>ts_woken := remove1 (w, p) (ts_woken s),
          ts_guards := ts_guards s @ [Acquire_resume p]\<rparr>)"
| released: "i < length (ts_guards s)
    \<Longrightarrow> SlotGuard_Release Release (ts_guards s ! i) (ts_pools s) = (g, m, w)
    \<Longrightarrow> throttle_step cap s (s\<lparr>ts_pools := m, ts_guards := (ts_guards s)[i := g],
          ts_woken := ts_woken s @ note_woken (sg_provider g) w\<rparr>)"
| move_constructed: "i < length (ts_guards s) \<Longrightarrow> g = ts_guards s ! i
    \<Longrightarrow> throttle_step cap s (s\<lparr>ts_guards := (ts_guards s)[i := moved_from g] @ [g]\<rparr>)"
| move_assigned: "i < length (ts_guards s) \<Longrightarrow> j < length (ts_guards s)
    \<Longrightarrow> SlotGuard_move_assign Release i j (ts_guards s) (ts_pools s) = (gs, m, w)
    \<Longrightarrow> throttle_step cap s (s\<lparr>ts_pools := m, ts_guards := gs,
          ts_woken := ts_woken s @ note_woken (sg_provider (ts_guards s ! i)) w\<rparr>)"

inductive throttle_reachable :: "(string \<Rightarrow> int) \<Rightarrow> throttle_sys \<Rightarrow> bool" for cap where
  start: "throttle_reachable cap init_throttle"
| step: "throttle_reachable cap s \<Longrightarrow> throttle_step cap s t \<Longrightarrow> throttle_reachable cap t"

text \<open>Who is inside: guards not yet released and calls about to return one.\<close>

definition holders :: "string \<Rightarrow> throttle_sys \<Rightarrow> nat" where
  "holders p s = length (filter (holds_slot p) (ts_guards s))
     + length (filter (\<lambda>x. snd x = p) (ts_woken s))"

text \<open>
  The invariant: the count of a pool is the number of its holders, a pool in the map is in use
  (so a queue never outlives the last holder), no guard of a pool has an empty provider, and
  the count is within the cap.
\<close>

definition throttle_inv :: "(string \<Rightarrow> int) \<Rightarrow> throttle_sys \<Rightarrow> bool" where
  "throttle_inv cap s \<longleftrightarrow>
     (\<forall>p. int (holders p s) = slots_used (ts_pools s) p \<and> holders '''' s = 0
        \<and> slots_used (ts_pools s) p \<le> max 0 (cap p))
   \<and> (\<forall>p q. ts_pools s p = Some q \<longrightarrow> 1 \<le> active q)"

lemma throttle_invD:
  assumes "throttle_inv cap s"
  shows "int (holders p s) = slots_used (ts_pools s) p"
    and "slots_used (ts_pools s) p \<le> max 0 (cap p)"
    and "ts_pools s p = Some q \<Longrightarrow> 1 \<le> active q"
    and "holders '''' s = 0"
  using assms by (auto simp: throttle_inv_def)

lemma throttle_invI:
  assumes "\<And>p. int (holders p s) = slots_used (ts_pools s) p"
    and "\<And>p. slots_used (ts_pools s) p \<le> max 0 (cap p)"
    and "\<And>p q. ts_pools s p = Some q \<Longrightarrow> 1 \<le> active q"
    and "holders '''' s = 0"
  shows "throttle_inv cap s"
  using assms by (auto simp: throttle_inv_def)

lemma throttle_inv_init: "throttle_inv cap init_throttle"
  by (rule throttle_invI) (simp_all add: init_throttle_def holders_def slots_used_def)

text \<open>What one \<open>Acquire\<close> does to the counts.\<close>

lemma Acquire_granted:
  assumes "Acquire lookup p w m = (m', Some g)"
  shows "(m' = m \<and> \<not> sg_throttle g)
       \<or> (g = new_guard True p \<and> slots_used m p < concurrency_of lookup p
          \<and> m' = m(p \<mapsto> (pool_ref m p)\<lparr>active := slots_used m p + 1\<rparr>))"
  using assms
  by (auto simp: Acquire_def op_simps Let_def split: if_splits option.splits)

lemma Acquire_blocks_only_full:
  assumes "Acquire lookup p w m = (m', None)"
  obtains q where "m p = Some q" and "m' = m(p \<mapsto> q\<lparr>waiting := waiting q @ [w]\<rparr>)"
    and "concurrency_of lookup p \<le> active q" and "0 < concurrency_of lookup p"
  using assms
  by (auto simp: Acquire_def op_simps Let_def split: if_splits option.splits)

subsection \<open>The invariant is kept\<close>

text \<open>How the number of holders moves with the lists it counts.\<close>

lemma holders_append_guard:
  "holders p (s\<lparr>ts_pools := m, ts_guards := ts_guards s @ [g]\<rparr>)
     = holders p s + (if holds_slot p g then 1 else 0)"
  by (simp add: holders_def)

lemma holders_release:
  assumes "i < length (ts_guards s)" and "\<not> holds_slot p g"
  shows "int (holders p (s\<lparr>ts_pools := m, ts_guards := (ts_guards s)[i := g],
            ts_woken := ts_woken s @ note_woken v w\<rparr>))
     = int (holders p s) - (if holds_slot p (ts_guards s ! i) then 1 else 0)
        + (if w \<noteq> None \<and> v = p then 1 else 0)"
  using assms length_filter_update [OF assms(1), of "holds_slot p" g]
  by (auto simp: holders_def note_woken_def split: option.splits if_splits)

lemma holds_slot_provider: "holds_slot p g \<Longrightarrow> sg_provider g = p"
  by (simp add: holds_slot_def)

lemma inv_holder_positive:
  assumes inv: "throttle_inv cap s" and i: "i < length (ts_guards s)"
    and h: "sg_throttle (ts_guards s ! i)" "\<not> sg_released (ts_guards s ! i)"
  shows "1 \<le> slots_used (ts_pools s) (sg_provider (ts_guards s ! i))"
    and "sg_provider (ts_guards s ! i) \<noteq> ''''"
proof -
  let ?p = "sg_provider (ts_guards s ! i)"
  have "ts_guards s ! i \<in> set (ts_guards s)" using i by simp
  moreover have "holds_slot ?p (ts_guards s ! i)" using h by (simp add: holds_slot_def)
  ultimately have "0 < length (filter (holds_slot ?p) (ts_guards s))" by (rule length_filter_pos)
  then have pos: "0 < holders ?p s" by (simp add: holders_def)
  then show "1 \<le> slots_used (ts_pools s) ?p" using throttle_invD(1) [OF inv, of ?p] by simp
  show "?p \<noteq> ''''" using pos throttle_invD(4) [OF inv] by auto
qed

lemma Release_keeps_in_use:
  assumes "Release p m = (m', w)" and "\<And>p q. m p = Some q \<Longrightarrow> 1 \<le> active q" and "m' r = Some q"
  shows "1 \<le> active q"
proof (cases "r = p")
  case True
  then show ?thesis using assms(1,3) assms(2) [of p]
    by (fastforce simp: Release_def split: if_splits option.splits list.splits)
next
  case False
  then show ?thesis using assms(1,3) assms(2) [of r]
    by (auto simp: Release_def split: if_splits option.splits list.splits)
qed

text \<open>The release of guard \<open>i\<close>, as \<open>SlotGuard::Release\<close>, its destructor and move assignment do it.\<close>

lemma guard_release_facts:
  assumes inv: "throttle_inv cap s" and i: "i < length (ts_guards s)"
    and r: "SlotGuard_Release Release (ts_guards s ! i) (ts_pools s) = (g, m, w)"
  shows "slots_used m p = slots_used (ts_pools s) p
           - (if holds_slot p (ts_guards s ! i) \<and> w = None then 1 else 0)"
    and "\<not> holds_slot p g"
    and "m p = Some q \<Longrightarrow> 1 \<le> active q"
    and "w \<noteq> None \<Longrightarrow> holds_slot (sg_provider (ts_guards s ! i)) (ts_guards s ! i)"
    and "sg_provider g = sg_provider (ts_guards s ! i)"
proof -
  let ?g = "ts_guards s ! i"
  show "\<not> holds_slot p g" by (rule thr.guard_release_spent [OF r])
  show "slots_used m p = slots_used (ts_pools s) p - (if holds_slot p ?g \<and> w = None then 1 else 0)"
  proof (cases "sg_throttle ?g \<and> \<not> sg_released ?g")
    case True
    then show ?thesis
      using thr.guard_release_count [OF r] inv_holder_positive [OF inv i] by auto
  next
    case False
    then show ?thesis using thr.guard_releaseD [OF r] by (auto simp: holds_slot_def)
  qed
  show "m p = Some q \<Longrightarrow> 1 \<le> active q"
    using thr.guard_releaseD [OF r] throttle_invD(3) [OF inv] Release_keeps_in_use by metis
  show "w \<noteq> None \<Longrightarrow> holds_slot (sg_provider ?g) ?g"
    using thr.guard_releaseD [OF r] by (auto simp: holds_slot_def)
  show "sg_provider g = sg_provider ?g" using thr.guard_releaseD [OF r] by auto
qed

lemma inv_released:
  assumes inv: "throttle_inv cap s" and i: "i < length (ts_guards s)"
    and r: "SlotGuard_Release Release (ts_guards s ! i) (ts_pools s) = (g, m, w)"
  shows "throttle_inv cap (s\<lparr>ts_pools := m, ts_guards := (ts_guards s)[i := g],
           ts_woken := ts_woken s @ note_woken (sg_provider g) w\<rparr>)" (is "throttle_inv cap ?t")
proof -
  note f = guard_release_facts [OF inv i r]
  have h: "int (holders p ?t) = slots_used m p" for p
    using holders_release [OF i f(2) [of p], where m = m and v = "sg_provider g" and w = w] f(1) [of p] f(4) f(5)
      throttle_invD(1) [OF inv, of p]
    by (auto simp: holds_slot_provider split: if_splits)
  show ?thesis
  proof (rule throttle_invI)
    show "int (holders p ?t) = slots_used (ts_pools ?t) p" for p using h by simp
    show "slots_used (ts_pools ?t) p \<le> max 0 (cap p)" for p
      using f(1) [of p] throttle_invD(2) [OF inv, of p] by (auto split: if_splits)
    show "ts_pools ?t p = Some q \<Longrightarrow> 1 \<le> active q" for p q using f(3) by simp
    have "slots_used (ts_pools s) '''' = 0"
      using throttle_invD(1) [OF inv, of "''''"] throttle_invD(4) [OF inv] by simp
    then have "slots_used m '''' \<le> 0" using f(1) [of "''''"] by (auto split: if_splits)
    then show "holders '''' ?t = 0" using h [of "''''"] by simp
  qed
qed

lemma inv_granted:
  assumes inv: "throttle_inv cap s" and p: "p \<noteq> ''''" and c: "concurrency_of lookup p \<le> cap p"
    and a: "Acquire lookup p w (ts_pools s) = (m, Some g)"
  shows "throttle_inv cap (s\<lparr>ts_pools := m, ts_guards := ts_guards s @ [g]\<rparr>)"
proof -
  note invD = throttle_invD [OF inv]
  show ?thesis
    using Acquire_granted [OF a]
  proof
    assume "m = ts_pools s \<and> \<not> sg_throttle g"
    then have "holders r (s\<lparr>ts_pools := m, ts_guards := ts_guards s @ [g]\<rparr>) = holders r s" for r
      by (simp add: holders_append_guard holders_def holds_slot_def)
    with \<open>m = ts_pools s \<and> \<not> sg_throttle g\<close> show ?thesis
      using invD by (intro throttle_invI) simp_all
  next
    assume g: "g = new_guard True p \<and> slots_used (ts_pools s) p < concurrency_of lookup p
      \<and> m = (ts_pools s)(p \<mapsto> (pool_ref (ts_pools s) p)\<lparr>active := slots_used (ts_pools s) p + 1\<rparr>)"
    then have hs: "holds_slot r g \<longleftrightarrow> r = p" for r by (auto simp: holds_slot_def new_guard_def)
    have nn: "0 \<le> slots_used (ts_pools s) p" using invD(1) [of p] by simp
    show ?thesis
      using g hs nn c p invD
      by (intro throttle_invI) (auto simp: holders_append_guard split: if_splits)
  qed
qed

lemma holders_pools_only: "holders p (s\<lparr>ts_pools := m\<rparr>) = holders p s"
  by (simp add: holders_def)

lemma inv_parked:
  assumes inv: "throttle_inv cap s" and a: "Acquire lookup p w (ts_pools s) = (m, None)"
  shows "throttle_inv cap (s\<lparr>ts_pools := m\<rparr>)"
proof -
  note invD = throttle_invD [OF inv]
  from Acquire_blocks_only_full [OF a] obtain q where q: "ts_pools s p = Some q"
    and m: "m = (ts_pools s)(p \<mapsto> q\<lparr>waiting := waiting q @ [w]\<rparr>)" by blast
  have "slots_used m = slots_used (ts_pools s)"
    using slots_used_Some [where m = "ts_pools s" and p = p and q = q] q
    by (simp add: m fun_upd_idem)
  then show ?thesis
    using invD q by (intro throttle_invI) (auto simp: holders_pools_only m split: if_splits)
qed

lemma inv_resumed:
  assumes inv: "throttle_inv cap s" and w: "(w, p) \<in> set (ts_woken s)"
  shows "throttle_inv cap (s\<lparr>ts_woken := remove1 (w, p) (ts_woken s),
           ts_guards := ts_guards s @ [Acquire_resume p]\<rparr>)" (is "throttle_inv cap ?t")
proof -
  note invD = throttle_invD [OF inv]
  have "holders r ?t = holders r s" for r
    using length_filter_remove1 [OF w, of "\<lambda>x. snd x = r"]
    by (auto simp: holders_def op_simps split: if_splits)
  then show ?thesis using invD by (intro throttle_invI) simp_all
qed

lemma inv_move_constructed:
  assumes inv: "throttle_inv cap s" and i: "i < length (ts_guards s)" and g: "g = ts_guards s ! i"
  shows "throttle_inv cap (s\<lparr>ts_guards := (ts_guards s)[i := moved_from g] @ [g]\<rparr>)"
    (is "throttle_inv cap ?t")
proof -
  note invD = throttle_invD [OF inv]
  have "holders r ?t = holders r s" for r
    using length_filter_update [OF i, of "holds_slot r" "moved_from g"] g
    by (auto simp: holders_def holds_slot_def moved_from_def split: if_splits)
  then show ?thesis using invD by (intro throttle_invI) simp_all
qed

text \<open>Move assignment is a release of the target and then a hand-over of the source's slot.\<close>

lemma inv_move_assigned:
  assumes inv: "throttle_inv cap s" and i: "i < length (ts_guards s)" and j: "j < length (ts_guards s)"
    and a: "SlotGuard_move_assign Release i j (ts_guards s) (ts_pools s) = (gs, m, w)"
  shows "throttle_inv cap (s\<lparr>ts_pools := m, ts_guards := gs,
           ts_woken := ts_woken s @ note_woken (sg_provider (ts_guards s ! i)) w\<rparr>)"
    (is "throttle_inv cap ?t")
proof (cases "i = j")
  case True
  then show ?thesis using a inv by (cases s) (auto simp: SlotGuard_move_assign_def note_woken_def)
next
  case False
  obtain g' where r: "SlotGuard_Release Release (ts_guards s ! i) (ts_pools s) = (g', m, w)"
    and gs: "gs = (ts_guards s)[i := ts_guards s ! j, j := moved_from (ts_guards s ! j)]"
    using a False by (auto simp: SlotGuard_move_assign_def split: prod.splits)
  let ?u = "s\<lparr>ts_pools := m, ts_guards := (ts_guards s)[i := g'],
              ts_woken := ts_woken s @ note_woken (sg_provider g') w\<rparr>"
  note f = guard_release_facts [OF inv i r]
  have u: "throttle_inv cap ?u" by (rule inv_released [OF inv i r])
  have "holders q ?t = holders q ?u" for q
  proof -
    let ?gj = "ts_guards s ! j"
    have "length (filter (holds_slot q) gs) + (if holds_slot q ?gj then 1 else 0)
        = length (filter (holds_slot q) ((ts_guards s)[i := ?gj]))"
      using length_filter_update [of j "(ts_guards s)[i := ?gj]" "holds_slot q" "moved_from ?gj"] j False
      by (simp add: gs holds_slot_def moved_from_def)
    moreover have "length (filter (holds_slot q) ((ts_guards s)[i := ?gj]))
        = length (filter (holds_slot q) ((ts_guards s)[i := g'])) + (if holds_slot q ?gj then 1 else 0)"
      using length_filter_update [OF i, of "holds_slot q" ?gj]
        length_filter_update [OF i, of "holds_slot q" g'] f(2) [of q] by (simp split: if_splits)
    ultimately show ?thesis by (simp add: holders_def f(5))
  qed
  then show ?thesis using throttle_invD [OF u] by (intro throttle_invI) simp_all
qed

lemma throttle_step_inv: "throttle_step cap s t \<Longrightarrow> throttle_inv cap s \<Longrightarrow> throttle_inv cap t"
  by (induction rule: throttle_step.induct)
    (auto intro: inv_granted inv_parked inv_resumed inv_released inv_move_constructed inv_move_assigned)

lemma throttle_reachable_inv: "throttle_reachable cap s \<Longrightarrow> throttle_inv cap s"
  by (induction rule: throttle_reachable.induct) (auto intro: throttle_inv_init throttle_step_inv)

subsection \<open>Properties\<close>


text \<open>A run with one call inside and one parked behind it, for the witnesses.\<close>

definition thr_one :: throttle_sys where
  "thr_one = \<lparr>ts_pools = [''openai'' \<mapsto> \<lparr>active = 1, waiting = []\<rparr>],
     ts_guards = [new_guard True ''openai''], ts_woken = []\<rparr>"

definition thr_two :: throttle_sys where
  "thr_two = thr_one\<lparr>ts_pools := [''openai'' \<mapsto> \<lparr>active = 1, waiting = [7]\<rparr>]\<rparr>"

lemma thr_one_reachable: "throttle_reachable (\<lambda>_. 1) thr_one"
proof -
  have "throttle_step (\<lambda>_. 1) init_throttle
     (init_throttle\<lparr>ts_pools := [''openai'' \<mapsto> \<lparr>active = 1, waiting = []\<rparr>],
        ts_guards := ts_guards init_throttle @ [new_guard True ''openai'']\<rparr>)"
    by (rule throttle_step.granted [where lookup = "Some (\<lambda>_. 1)" and w = 0 and p = "''openai''"])
      (simp_all add: concurrency_of_def init_throttle_def op_simps)
  then show ?thesis
    using throttle_reachable.step [OF throttle_reachable.start]
    by (simp add: thr_one_def init_throttle_def)
qed

lemma thr_two_reachable: "throttle_reachable (\<lambda>_. 1) thr_two"
proof -
  have "throttle_step (\<lambda>_. 1) thr_one (thr_one\<lparr>ts_pools := [''openai'' \<mapsto> \<lparr>active = 1, waiting = [7]\<rparr>]\<rparr>)"
    by (rule throttle_step.parked [where lookup = "Some (\<lambda>_. 1)" and w = 7 and p = "''openai''"])
      (simp_all add: concurrency_of_def thr_one_def op_simps)
  then show ?thesis
    using throttle_reachable.step [OF thr_one_reachable] by (simp add: thr_two_def)
qed




text \<open>A call for the empty provider id takes a slot that its guard can never give back, because
  \<open>Release\<close> returns early on the empty id: the guard is spent and the count has grown for good.\<close>

lemma throttle_empty_id_leaks:
  assumes "Acquire lookup '''' w m = (m', Some g)" and "0 < concurrency_of lookup ''''"
  shows "slots_used m' '''' = slots_used m '''' + 1
     \<and> SlotGuard_Release Release g m' = (g\<lparr>sg_released := True\<rparr>, m', None)"
  using assms
  by (auto simp: Acquire_def SlotGuard_Release_def op_simps Let_def split: if_splits option.splits)

lemma throttle_empty_id_leaks_example:
  "slots_used [[] \<mapsto> \<lparr>active = 1, waiting = []\<rparr>] '''' = 1
   \<and> snd (SlotGuard_Release Release (new_guard True '''') [[] \<mapsto> \<lparr>active = 1, waiting = []\<rparr>])
      = ([[] \<mapsto> \<lparr>active = 1, waiting = []\<rparr>], None)"
proof -
  have a: "Acquire None '''' 0 Map.empty
      = ([[] \<mapsto> \<lparr>active = 1, waiting = []\<rparr>], Some (new_guard True ''''))"
    by (simp add: Acquire_def concurrency_of_def op_simps)
  have c: "0 < concurrency_of None ''''" by (simp add: concurrency_of_def)
  show ?thesis using throttle_empty_id_leaks [OF a c] by (simp add: slots_used_def)
qed

end
