(* ===== verification/MsgQueue.thy ===== *)
theory MsgQueue
  imports Prelude
begin

text \<open>
  \<open>src/kernel/MessageQueue.cpp\<close>: messages of a channel session accumulate while a chain runs, while
  the response cooldown lasts or while the aggregation window is open, and are handed to the flush
  callback as one text. Every public method is one critical section of \<open>m_mutex\<close> and is one
  function here; the callback, which runs after the lock is released, is an output. Time is the
  tick count of \<open>steady_clock\<close> (nanoseconds), an argument of every operation that reads the clock.
  \<open>TimerLoop\<close> is split where it waits: \<open>timer_earliest\<close> is the deadline it waits for and
  \<open>timer_fire\<close> what it does when it wakes up.
\<close>

subsection \<open>State\<close>

record queued_message =
  qm_session_key :: string
  qm_sender :: string
  qm_content :: string
  qm_unix_ms :: u64

type_synonym ticks = int

record session_state =
  messages :: "queued_message list"
  chain_end_time :: ticks
  timer_deadline :: ticks
  chain_active :: bool
  timer_running :: bool
  allow_interjection :: bool
  has_responded :: bool
  interval_seconds :: int
  aggregation_window_ms :: int

record msg_queue =
  mq_sessions :: "string \<rightharpoonup> session_state"
  mq_running :: bool
  mq_callback :: bool

text \<open>The defaults of the member initialisers; a default \<open>time_point\<close> is the clock's epoch.\<close>

definition new_session :: session_state where
  "new_session = \<lparr>messages = [], chain_end_time = 0, timer_deadline = 0, chain_active = False,
     timer_running = False, allow_interjection = False, has_responded = False,
     interval_seconds = 0, aggregation_window_ms = 0\<rparr>"

definition MessageQueue_init :: "bool \<Rightarrow> msg_queue" where
  "MessageQueue_init cb = \<lparr>mq_sessions = Map.empty, mq_running = True, mq_callback = cb\<rparr>"

definition session_ref :: "msg_queue \<Rightarrow> string \<Rightarrow> session_state" where
  "session_ref q k = (case mq_sessions q k of None \<Rightarrow> new_session | Some st \<Rightarrow> st)"

definition put_session :: "string \<Rightarrow> session_state \<Rightarrow> msg_queue \<Rightarrow> msg_queue" where
  "put_session k st q = q\<lparr>mq_sessions := (mq_sessions q)(k \<mapsto> st)\<rparr>"

definition of_ms :: "int \<Rightarrow> ticks" where "of_ms n = n * 1000000"
definition of_sec :: "int \<Rightarrow> ticks" where "of_sec n = n * 1000000000"

subsection \<open>Text of a batch\<close>

definition message_line :: "bool \<Rightarrow> queued_message \<Rightarrow> string" where
  "message_line hasSender m =
     (if hasSender \<and> qm_sender m \<noteq> '''' then ''['' @ qm_sender m @ '']: '' @ qm_content m @ [CHR 0x0A]
      else if hasSender \<and> qm_sender m = '''' then ''[unknown]: '' @ qm_content m @ [CHR 0x0A]
      else qm_content m @ [CHR 0x0A])"

definition ConcatenateMessages :: "queued_message list \<Rightarrow> string" where
  "ConcatenateMessages msgs =
     (let hasSender = list_ex (\<lambda>m. qm_sender m \<noteq> '''') msgs
      in concat (map (message_line hasSender) msgs))"

definition ExtractPending :: "string \<Rightarrow> msg_queue \<Rightarrow> string \<times> msg_queue" where
  "ExtractPending k q =
     (case mq_sessions q k of
        None \<Rightarrow> ('''', q)
      | Some st \<Rightarrow>
          if messages st = [] then ('''', q)
          else (ConcatenateMessages (messages st),
                put_session k (st\<lparr>messages := [], timer_running := False\<rparr>) q))"

subsection \<open>Push\<close>

text \<open>
  The fire decision of \<open>Push\<close> when no chain is active and no timer runs: whether to arm the
  timer, its deadline, and whether to flush at once.
\<close>

definition push_decision :: "ticks \<Rightarrow> int \<Rightarrow> int \<Rightarrow> session_state \<Rightarrow> bool \<times> ticks \<times> bool" where
  "push_decision now interval window st =
     (let (arm, deadline) = (if window > 0 then (True, now + of_ms window) else (False, now)) in
      if interval > 0 then
        if \<not> has_responded st then (arm, deadline, \<not> arm)
        else
          let cooldownDeadline = chain_end_time st + of_sec interval in
          if cooldownDeadline \<le> now then (arm, deadline, \<not> arm)
          else (True, max deadline cooldownDeadline, False)
      else (arm, deadline, False))"

definition push_enqueue :: "string \<Rightarrow> string \<Rightarrow> string \<Rightarrow> u64 \<Rightarrow> int \<Rightarrow> int \<Rightarrow> int \<Rightarrow> ticks \<Rightarrow> msg_queue
    \<Rightarrow> session_state \<times> bool" where
  "push_enqueue k sender content unixMs interval maxQueued window now q =
     (let st0 = session_ref q k;
          st1 = st0\<lparr>interval_seconds := interval, aggregation_window_ms := window,
                    messages := messages st0 @
                      [\<lparr>qm_session_key = k, qm_sender = sender, qm_content = content, qm_unix_ms = unixMs\<rparr>]\<rparr>;
          forceFlush = (maxQueued > 0 \<and> int (length (messages st1)) \<ge> maxQueued)
      in if \<not> forceFlush \<and> \<not> chain_active st1 \<and> \<not> timer_running st1 then
           let (armTimer, deadline, force) = push_decision now interval window st1
           in ((if armTimer then st1\<lparr>timer_deadline := deadline, timer_running := True\<rparr> else st1), force)
         else (st1, forceFlush))"

definition Push :: "string \<Rightarrow> string \<Rightarrow> string \<Rightarrow> u64 \<Rightarrow> int \<Rightarrow> int \<Rightarrow> int \<Rightarrow> ticks \<Rightarrow> msg_queue
    \<Rightarrow> msg_queue \<times> (string \<times> string) option" where
  "Push k sender content unixMs interval maxQueued window now q =
     (let (st, force) = push_enqueue k sender content unixMs interval maxQueued window now q;
          q1 = put_session k st q;
          (flushedMsg, q2) = (if force then ExtractPending k q1 else ('''', q1))
      in (q2, if flushedMsg \<noteq> '''' \<and> mq_callback q then Some (k, flushedMsg) else None))"

subsection \<open>The other methods\<close>

definition HasPending :: "string \<Rightarrow> msg_queue \<Rightarrow> bool" where
  "HasPending k q = (case mq_sessions q k of None \<Rightarrow> False | Some st \<Rightarrow> messages st \<noteq> [])"

definition PendingCount :: "string \<Rightarrow> msg_queue \<Rightarrow> nat" where
  "PendingCount k q = (case mq_sessions q k of None \<Rightarrow> 0 | Some st \<Rightarrow> length (messages st))"

definition Drain :: "string \<Rightarrow> msg_queue \<Rightarrow> string \<times> msg_queue" where
  "Drain k q =
     (case mq_sessions q k of
        None \<Rightarrow> ('''', q)
      | Some st \<Rightarrow>
          if messages st = [] then ('''', q)
          else (ConcatenateMessages (messages st),
                put_session k (st\<lparr>messages := [], timer_running := False\<rparr>) q))"

definition SetInterjectionEnabled :: "string \<Rightarrow> bool \<Rightarrow> msg_queue \<Rightarrow> msg_queue" where
  "SetInterjectionEnabled k b q = put_session k ((session_ref q k)\<lparr>allow_interjection := b\<rparr>) q"

definition interjection_header :: string where
  "interjection_header = ''[New messages arrived while you were working:]'' @ [CHR 0x0A]"

definition DrainInterjection :: "string \<Rightarrow> msg_queue \<Rightarrow> string \<times> msg_queue" where
  "DrainInterjection k q =
     (case mq_sessions q k of
        None \<Rightarrow> ('''', q)
      | Some st \<Rightarrow>
          if \<not> allow_interjection st \<or> messages st = [] then ('''', q)
          else (interjection_header @ ConcatenateMessages (messages st),
                put_session k (st\<lparr>messages := []\<rparr>) q))"

definition NotifyChainStart :: "string \<Rightarrow> msg_queue \<Rightarrow> msg_queue" where
  "NotifyChainStart k q =
     put_session k ((session_ref q k)\<lparr>chain_active := True, timer_running := False\<rparr>) q"

definition NotifyChainEnd :: "string \<Rightarrow> int \<Rightarrow> ticks \<Rightarrow> msg_queue \<Rightarrow> msg_queue" where
  "NotifyChainEnd k interval now q =
     (let st = (session_ref q k)\<lparr>chain_active := False, chain_end_time := now,
                 has_responded := True, interval_seconds := interval\<rparr>;
          d1 = (if interval > 0 then now + of_sec interval else now);
          d2 = (if aggregation_window_ms st > 0
                then max d1 (now + of_ms (aggregation_window_ms st)) else d1);
          arm = (interval > 0 \<or> aggregation_window_ms st > 0)
      in put_session k
           (if messages st \<noteq> [] \<and> arm then st\<lparr>timer_deadline := d2, timer_running := True\<rparr> else st) q)"

definition Shutdown :: "msg_queue \<Rightarrow> msg_queue" where
  "Shutdown q = q\<lparr>mq_running := False\<rparr>"

subsection \<open>The timer thread\<close>

text \<open>
  \<open>ks\<close> is the order in which the unordered map enumerates its keys. \<open>timer_earliest\<close> is the
  deadline the loop sleeps until (\<open>None\<close>: it sleeps for five seconds and looks again).
\<close>

definition timer_live :: "session_state \<Rightarrow> bool" where
  "timer_live st \<longleftrightarrow> timer_running st \<and> \<not> chain_active st"

fun timer_earliest :: "string list \<Rightarrow> msg_queue \<Rightarrow> ticks option" where
  "timer_earliest [] q = None"
| "timer_earliest (k # ks) q =
     (case mq_sessions q k of
        None \<Rightarrow> timer_earliest ks q
      | Some st \<Rightarrow>
          (if timer_live st
           then (case timer_earliest ks q of
                   None \<Rightarrow> Some (timer_deadline st)
                 | Some d \<Rightarrow> Some (min (timer_deadline st) d))
           else timer_earliest ks q))"

definition timer_expired :: "ticks \<Rightarrow> msg_queue \<Rightarrow> string \<Rightarrow> bool" where
  "timer_expired now q k =
     (case mq_sessions q k of None \<Rightarrow> False
      | Some st \<Rightarrow> timer_live st \<and> now \<ge> timer_deadline st \<and> messages st \<noteq> [])"

fun extract_all :: "string list \<Rightarrow> msg_queue \<Rightarrow> (string \<times> string) list \<times> msg_queue" where
  "extract_all [] q = ([], q)"
| "extract_all (k # ks) q =
     (let (msg, q1) = ExtractPending k q; (rest, q2) = extract_all ks q1
      in ((if msg \<noteq> '''' then (k, msg) # rest else rest), q2))"

definition timer_fire :: "string list \<Rightarrow> ticks \<Rightarrow> msg_queue \<Rightarrow> msg_queue \<times> (string \<times> string) list" where
  "timer_fire ks now q =
     (if \<not> mq_running q then (q, [])
      else let (toFire, q1) = extract_all (filter (timer_expired now q) ks) q
           in (q1, if mq_callback q then toFire else []))"

subsection \<open>Basic facts\<close>

definition pending :: "string \<Rightarrow> msg_queue \<Rightarrow> queued_message list" where
  "pending k q = messages (session_ref q k)"

lemma pending_simps [simp]:
  "mq_sessions q k = None \<Longrightarrow> pending k q = []"
  "mq_sessions q k = Some st \<Longrightarrow> pending k q = messages st"
  by (simp_all add: pending_def session_ref_def new_session_def)

lemma pending_put [simp]:
  "pending k (put_session k' st q) = (if k = k' then messages st else pending k q)"
  by (simp add: pending_def session_ref_def put_session_def)

lemma put_session_callback [simp]: "mq_callback (put_session k st q) = mq_callback q"
  by (simp add: put_session_def)

lemma put_session_running [simp]: "mq_running (put_session k st q) = mq_running q"
  by (simp add: put_session_def)

lemma put_session_at [simp]:
  "mq_sessions (put_session k st q) k' = (if k' = k then Some st else mq_sessions q k')"
  by (simp add: put_session_def)

lemma message_line_nonempty: "message_line b m \<noteq> ''''"
  by (simp add: message_line_def)

text \<open>The test for an empty text never drops a batch.\<close>

lemma ConcatenateMessages_empty [simp]: "ConcatenateMessages b = '''' \<longleftrightarrow> b = []"
  by (cases b) (auto simp: ConcatenateMessages_def Let_def message_line_nonempty)

lemma ExtractPending_text [simp]: "fst (ExtractPending k q) = ConcatenateMessages (pending k q)"
  by (simp add: ExtractPending_def ConcatenateMessages_def split: option.splits)

lemma ExtractPending_pending [simp]:
  "pending k' (snd (ExtractPending k q)) = (if k' = k then [] else pending k' q)"
  by (auto simp: ExtractPending_def split: option.splits)

lemma ExtractPending_frame [simp]:
  "mq_callback (snd (ExtractPending k q)) = mq_callback q"
  "mq_running (snd (ExtractPending k q)) = mq_running q"
  by (auto simp: ExtractPending_def split: option.splits)

subsection \<open>Runs of the queue\<close>

text \<open>One call of a public method, or one wake-up of the timer thread.\<close>

datatype mq_op =
    OpPush string string string u64 int int int ticks
  | OpDrain string
  | OpDrainInterjection string
  | OpSetInterjection string bool
  | OpChainStart string
  | OpChainEnd string int ticks
  | OpTimer "string list" ticks

text \<open>What leaves the queue: text for the flush callback, or the result of a drain.\<close>

datatype mq_out = Flushed string string | Drained string string | Injected string string

fun mq_step :: "mq_op \<Rightarrow> msg_queue \<Rightarrow> msg_queue \<times> mq_out list" where
  "mq_step (OpPush k s c u iv mx w now) q =
     (let (q', f) = Push k s c u iv mx w now q
      in (q', case f of None \<Rightarrow> [] | Some (k', t) \<Rightarrow> [Flushed k' t]))"
| "mq_step (OpDrain k) q = (let (t, q') = Drain k q in (q', if t = '''' then [] else [Drained k t]))"
| "mq_step (OpDrainInterjection k) q =
     (let (t, q') = DrainInterjection k q in (q', if t = '''' then [] else [Injected k t]))"
| "mq_step (OpSetInterjection k b) q = (SetInterjectionEnabled k b q, [])"
| "mq_step (OpChainStart k) q = (NotifyChainStart k q, [])"
| "mq_step (OpChainEnd k iv now) q = (NotifyChainEnd k iv now q, [])"
| "mq_step (OpTimer ks now) q =
     (let (q', fs) = timer_fire ks now q in (q', map (\<lambda>(k, t). Flushed k t) fs))"

fun mq_run :: "mq_op list \<Rightarrow> msg_queue \<Rightarrow> msg_queue \<times> mq_out list" where
  "mq_run [] q = (q, [])"
| "mq_run (p # ps) q =
     (let (q1, o1) = mq_step p q; (q2, o2) = mq_run ps q1 in (q2, o1 @ o2))"

text \<open>The messages a run pushes to session \<open>k\<close>, in order.\<close>

fun pushed_by :: "string \<Rightarrow> mq_op \<Rightarrow> queued_message list" where
  "pushed_by k (OpPush k' s c u iv mx w now) =
     (if k' = k then [\<lparr>qm_session_key = k', qm_sender = s, qm_content = c, qm_unix_ms = u\<rparr>] else [])"
| "pushed_by k _ = []"

text \<open>
  Batches as the specification sees them: which way out, which session, which messages. A batch
  determines its output text.
\<close>

datatype way_out = ViaFlush | ViaDrain | ViaInterjection

type_synonym batch = "way_out \<times> string \<times> queued_message list"

fun render :: "batch \<Rightarrow> mq_out" where
  "render (ViaFlush, k, b) = Flushed k (ConcatenateMessages b)"
| "render (ViaDrain, k, b) = Drained k (ConcatenateMessages b)"
| "render (ViaInterjection, k, b) = Injected k (interjection_header @ ConcatenateMessages b)"

definition batched :: "string \<Rightarrow> batch list \<Rightarrow> queued_message list" where
  "batched k bs = concat (map (\<lambda>(w, k', b). if k' = k then b else []) bs)"

lemma batched_simps [simp]:
  "batched k [] = []"
  "batched k ((w, k', b) # bs) = (if k' = k then b else []) @ batched k bs"
  "batched k (as @ bs) = batched k as @ batched k bs"
  by (simp_all add: batched_def)

text \<open>One step accounts for every message: what was pending and is pushed is in a batch or still
  pending, in the same order.\<close>

definition accounts :: "mq_op list \<Rightarrow> msg_queue \<Rightarrow> msg_queue \<Rightarrow> mq_out list \<Rightarrow> bool" where
  "accounts ops q q' outs \<longleftrightarrow>
     (\<exists>bs. outs = map render bs \<and> mq_callback q' = mq_callback q
        \<and> (\<forall>k. pending k q @ concat (map (pushed_by k) ops) = batched k bs @ pending k q'))"

lemma accountsI:
  assumes "outs = map render bs" and "mq_callback q' = mq_callback q"
    and "\<And>k. pending k q @ concat (map (pushed_by k) ops) = batched k bs @ pending k q'"
  shows "accounts ops q q' outs"
  using assms by (auto simp: accounts_def)

lemma session_ref_pending [simp]: "messages (session_ref q k) = pending k q"
  by (simp add: pending_def)

lemma push_enqueue_messages:
  "messages (fst (push_enqueue k s c u iv mx w now q))
     = pending k q @ [\<lparr>qm_session_key = k, qm_sender = s, qm_content = c, qm_unix_ms = u\<rparr>]"
  by (simp add: push_enqueue_def Let_def split: prod.splits)

lemma Push_flushed:
  assumes "push_enqueue k s c u iv mx w now q = (st, True)" and "mq_callback q"
  shows "Push k s c u iv mx w now q =
     (snd (ExtractPending k (put_session k st q)), Some (k, ConcatenateMessages (messages st)))"
proof -
  have "messages st \<noteq> []" using push_enqueue_messages [of k s c u iv mx w now q] assms(1) by simp
  then have "ConcatenateMessages (messages st) \<noteq> ''''" by simp
  moreover obtain t q2 where e: "ExtractPending k (put_session k st q) = (t, q2)" by fastforce
  moreover have "t = ConcatenateMessages (messages st)"
    using ExtractPending_text [of k "put_session k st q"] e by simp
  ultimately show ?thesis using assms by (simp add: Push_def Let_def)
qed

lemma Push_kept:
  assumes "push_enqueue k s c u iv mx w now q = (st, False)"
  shows "Push k s c u iv mx w now q = (put_session k st q, None)"
  using assms by (simp add: Push_def)

lemma accounts_Push:
  assumes cb: "mq_callback q" and step: "mq_step (OpPush k s c u iv mx w now) q = (q', outs)"
  shows "accounts [OpPush k s c u iv mx w now] q q' outs"
proof -
  obtain st force where e: "push_enqueue k s c u iv mx w now q = (st, force)" by fastforce
  have m: "messages st = pending k q @ [\<lparr>qm_session_key = k, qm_sender = s, qm_content = c, qm_unix_ms = u\<rparr>]"
    using push_enqueue_messages [of k s c u iv mx w now q] e by simp
  show ?thesis
  proof (cases force)
    case True
    then show ?thesis using step m Push_flushed [of k s c u iv mx w now q st] e cb
      by (intro accountsI [where bs = "[(ViaFlush, k, messages st)]"]) auto
  next
    case False
    then show ?thesis using step m Push_kept [of k s c u iv mx w now q st] e cb
      by (intro accountsI [where bs = "[]"]) auto
  qed
qed

lemma accounts_Drain:
  assumes "mq_step (OpDrain k) q = (q', outs)"
  shows "accounts [OpDrain k] q q' outs"
proof (cases "pending k q = []")
  case True
  then show ?thesis using assms
    by (intro accountsI [where bs = "[]"]) (auto simp: Drain_def split: option.splits if_splits)
next
  case False
  then show ?thesis using assms
    by (intro accountsI [where bs = "[(ViaDrain, k, pending k q)]"])
      (auto simp: Drain_def split: option.splits if_splits)
qed

lemma accounts_DrainInterjection:
  assumes "mq_step (OpDrainInterjection k) q = (q', outs)"
  shows "accounts [OpDrainInterjection k] q q' outs"
proof (cases "fst (DrainInterjection k q) = ''''")
  case True
  then show ?thesis using assms
    by (intro accountsI [where bs = "[]"])
      (auto simp: DrainInterjection_def interjection_header_def split: option.splits if_splits)
next
  case False
  then show ?thesis using assms
    by (intro accountsI [where bs = "[(ViaInterjection, k, pending k q)]"])
      (auto simp: DrainInterjection_def split: option.splits if_splits)
qed

lemma extract_all_accounts:
  assumes "extract_all ks q = (fs, q')"
  shows "mq_callback q' = mq_callback q
    \<and> (\<exists>bs. map (\<lambda>(k, t). Flushed k t) fs = map render bs
         \<and> (\<forall>k. pending k q = batched k bs @ pending k q'))"
  using assms
proof (induction ks arbitrary: q fs)
  case Nil
  then show ?case by auto
next
  case (Cons k ks)
  obtain t q1 where e: "ExtractPending k q = (t, q1)" by fastforce
  obtain rest where r: "extract_all ks q1 = (rest, q')"
    and fs: "fs = (if t \<noteq> '''' then (k, t) # rest else rest)"
    using Cons.prems e by (auto split: prod.splits)
  have t: "t = ConcatenateMessages (pending k q)" and cb: "mq_callback q1 = mq_callback q"
    and p1: "\<And>k'. pending k' q1 = (if k' = k then [] else pending k' q)"
    using ExtractPending_text [of k q] ExtractPending_pending [of _ k q]
      ExtractPending_frame(1) [of k q] e by simp_all
  obtain bs where bs: "map (\<lambda>(k, t). Flushed k t) rest = map render bs"
    and acc: "\<And>k'. pending k' q1 = batched k' bs @ pending k' q'" and cb': "mq_callback q' = mq_callback q1"
    using Cons.IH [OF r] by auto
  show ?case
  proof (cases "pending k q = []")
    case True
    then have "pending k' q = batched k' bs @ pending k' q'" for k'
      using acc [of k'] p1 [of k'] by (auto split: if_splits)
    then show ?thesis using True t fs bs cb cb' by (intro conjI exI [of _ bs]) auto
  next
    case False
    have "pending k' q = batched k' ((ViaFlush, k, pending k q) # bs) @ pending k' q'" for k'
      using acc [of k'] p1 [of k'] by (auto split: if_splits)
    moreover have "map (\<lambda>(k, t). Flushed k t) fs = map render ((ViaFlush, k, pending k q) # bs)"
      using False t fs bs by simp
    ultimately show ?thesis using cb cb' by metis
  qed
qed

lemma accounts_timer:
  assumes cb: "mq_callback q" and step: "mq_step (OpTimer ks now) q = (q', outs)"
  shows "accounts [OpTimer ks now] q q' outs"
proof (cases "mq_running q")
  case True
  obtain fs q1 where e: "extract_all (filter (timer_expired now q) ks) q = (fs, q1)" by fastforce
  have q1: "q1 = q'" and outs: "outs = map (\<lambda>(k, t). Flushed k t) fs"
    using step by (simp_all add: timer_fire_def True cb e)
  obtain bs where bs: "map (\<lambda>(k, t). Flushed k t) fs = map render bs"
    and acc: "\<And>k. pending k q = batched k bs @ pending k q1" and cb': "mq_callback q1 = mq_callback q"
    using extract_all_accounts [OF e] by blast
  show ?thesis unfolding outs bs q1 [symmetric]
    by (rule accountsI [OF refl cb']) (use acc in simp)
next
  case False
  then have "q' = q" and "outs = []" using step by (simp_all add: timer_fire_def)
  then show ?thesis by (intro accountsI [where bs = "[]"]) simp_all
qed

lemma accounts_silent:
  assumes "mq_callback q' = mq_callback q" and "\<And>k. pending k q' = pending k q" and "\<And>k. pushed_by k p = []"
  shows "accounts [p] q q' []"
  by (rule accountsI [where bs = "[]"]) (simp_all add: assms)

lemma NotifyChainEnd_pending [simp]: "pending k (NotifyChainEnd k' iv now q) = pending k q"
  by (simp add: NotifyChainEnd_def Let_def)

lemma NotifyChainEnd_callback [simp]: "mq_callback (NotifyChainEnd k iv now q) = mq_callback q"
  by (simp add: NotifyChainEnd_def Let_def)

lemma accounts_step:
  assumes cb: "mq_callback q" and step: "mq_step p q = (q', outs)"
  shows "accounts [p] q q' outs"
proof (cases p)
  case OpPush
  then show ?thesis using accounts_Push [OF cb] step by simp
next
  case (OpDrain k)
  then show ?thesis using accounts_Drain step by simp
next
  case (OpDrainInterjection k)
  then show ?thesis using accounts_DrainInterjection step by simp
next
  case (OpTimer ks now)
  then show ?thesis using accounts_timer [OF cb] step by simp
next
  case (OpSetInterjection k b)
  then show ?thesis using step
    by (auto intro: accounts_silent simp: SetInterjectionEnabled_def)
next
  case (OpChainStart k)
  then show ?thesis using step by (auto intro: accounts_silent simp: NotifyChainStart_def)
next
  case (OpChainEnd k iv now)
  then show ?thesis using step by (auto intro: accounts_silent)
qed

lemma accounts_run:
  assumes "mq_callback q" and "mq_run ops q = (q', outs)"
  shows "accounts ops q q' outs"
  using assms
proof (induction ops arbitrary: q outs)
  case Nil
  then show ?case by (intro accountsI [where bs = "[]"]) auto
next
  case (Cons p ps)
  obtain q1 o1 where s: "mq_step p q = (q1, o1)" by fastforce
  obtain o2 where r: "mq_run ps q1 = (q', o2)" and outs: "outs = o1 @ o2"
    using Cons.prems s by (auto split: prod.splits)
  have a1: "accounts [p] q q1 o1" by (rule accounts_step [OF Cons.prems(1) s])
  then have "mq_callback q1" using Cons.prems(1) by (auto simp: accounts_def)
  then have a2: "accounts ps q1 q' o2" using Cons.IH r by simp
  obtain b1 where b1: "o1 = map render b1" "mq_callback q1 = mq_callback q"
    "\<And>k. pending k q @ pushed_by k p = batched k b1 @ pending k q1"
    using a1 by (auto simp: accounts_def)
  obtain b2 where b2: "o2 = map render b2" "mq_callback q' = mq_callback q1"
    "\<And>k. pending k q1 @ concat (map (pushed_by k) ps) = batched k b2 @ pending k q'"
    using a2 by (auto simp: accounts_def)
  have "pending k q @ concat (map (pushed_by k) (p # ps)) = batched k (b1 @ b2) @ pending k q'" for k
    using b1(3) [of k] b2(3) [of k] by (metis append.assoc batched_simps(3) concat.simps(2) list.simps(9))
  then show ?case using b1 b2 outs by (intro accountsI [where bs = "b1 @ b2"]) auto
qed

subsection \<open>No message is stranded\<close>

text \<open>
  A channel has one configuration \<open>cfg k = (interval, window)\<close>; the kernel only uses the queue
  when one of the two is positive. Then a session with messages either runs a chain or has a
  live timer.
\<close>

definition attended :: "(string \<Rightarrow> int \<times> int) \<Rightarrow> msg_queue \<Rightarrow> bool" where
  "attended cfg q \<longleftrightarrow> (\<forall>k st. mq_sessions q k = Some st \<longrightarrow> messages st \<noteq> [] \<longrightarrow>
     (chain_active st \<or> timer_running st) \<and> aggregation_window_ms st = snd (cfg k))"

fun follows_config :: "(string \<Rightarrow> int \<times> int) \<Rightarrow> mq_op \<Rightarrow> bool" where
  "follows_config cfg (OpPush k s c u iv mx w now) \<longleftrightarrow> cfg k = (iv, w) \<and> (iv > 0 \<or> w > 0)"
| "follows_config cfg (OpChainEnd k iv now) \<longleftrightarrow> iv = fst (cfg k) \<and> (iv > 0 \<or> snd (cfg k) > 0)"
| "follows_config cfg _ \<longleftrightarrow> True"

lemma attended_put:
  assumes "attended cfg q"
    and "messages st \<noteq> [] \<Longrightarrow> (chain_active st \<or> timer_running st) \<and> aggregation_window_ms st = snd (cfg k)"
  shows "attended cfg (put_session k st q)"
  using assms by (auto simp: attended_def)

lemma attended_ref:
  assumes "attended cfg q" and "pending k q \<noteq> []"
  shows "(chain_active (session_ref q k) \<or> timer_running (session_ref q k))
    \<and> aggregation_window_ms (session_ref q k) = snd (cfg k)"
proof -
  from assms(2) obtain st where "mq_sessions q k = Some st" by (cases "mq_sessions q k") auto
  then show ?thesis using assms by (auto simp: attended_def session_ref_def)
qed

lemma attended_Extract: "attended cfg q \<Longrightarrow> attended cfg (snd (ExtractPending k q))"
  by (auto simp: ExtractPending_def intro: attended_put split: option.splits)

lemma attended_extract_all: "attended cfg q \<Longrightarrow> attended cfg (snd (extract_all ks q))"
proof (induction ks arbitrary: q)
  case (Cons k ks)
  then show ?case
    using attended_Extract [OF Cons.prems, of k] by (simp add: case_prod_unfold Let_def)
qed simp

text \<open>What \<open>push_enqueue\<close> decides when nothing else already looks after the session.\<close>

lemma push_decision_covers:
  "iv > 0 \<or> w > 0 \<Longrightarrow> fst (push_decision now iv w st) \<or> snd (snd (push_decision now iv w st))"
  by (auto simp: push_decision_def Let_def)

lemma push_enqueue_covers:
  assumes "iv > 0 \<or> w > 0" and "push_enqueue k s c u iv mx w now q = (st, False)"
  shows "chain_active st \<or> timer_running st"
  using assms(2) push_decision_covers [OF assms(1)]
  by (auto simp: push_enqueue_def Let_def case_prod_unfold split: if_splits)

lemma push_enqueue_window: "aggregation_window_ms (fst (push_enqueue k s c u iv mx w now q)) = w"
  by (simp add: push_enqueue_def Let_def split: prod.splits)

lemma attended_Push:
  assumes a: "attended cfg q" and f: "follows_config cfg (OpPush k s c u iv mx w now)"
  shows "attended cfg (fst (Push k s c u iv mx w now q))"
proof -
  obtain st force where e: "push_enqueue k s c u iv mx w now q = (st, force)" by fastforce
  show ?thesis
  proof (cases force)
    case True
    have "snd (ExtractPending k (put_session k st q))
        = put_session k (st\<lparr>messages := [], timer_running := False\<rparr>) (put_session k st q)"
      using push_enqueue_messages [of k s c u iv mx w now q] e
      by (simp add: ExtractPending_def)
    moreover have "fst (Push k s c u iv mx w now q) = snd (ExtractPending k (put_session k st q))"
      using e True by (simp add: Push_def Let_def split: prod.splits)
    ultimately show ?thesis
      using a by (auto simp: attended_def)
  next
    case False
    have "chain_active st \<or> timer_running st"
      using push_enqueue_covers [of iv w] f e False by simp
    moreover have "aggregation_window_ms st = snd (cfg k)"
      using push_enqueue_window [of k s c u iv mx w now q] e f by simp
    ultimately have "attended cfg (put_session k st q)" using a by (intro attended_put) auto
    then show ?thesis using Push_kept e False by simp
  qed
qed

lemma attended_ChainEnd:
  assumes a: "attended cfg q" and f: "follows_config cfg (OpChainEnd k iv now)"
  shows "attended cfg (NotifyChainEnd k iv now q)"
  unfolding NotifyChainEnd_def Let_def
  by (rule attended_put [OF a]) (use attended_ref [OF a, of k] f in \<open>auto split: if_splits\<close>)

lemma attended_step:
  assumes a: "attended cfg q" and f: "follows_config cfg p"
  shows "attended cfg (fst (mq_step p q))"
proof (cases p)
  case OpPush
  then show ?thesis using attended_Push [OF a] f by (simp add: case_prod_unfold Let_def)
next
  case (OpDrain k)
  then show ?thesis using a
    by (auto simp: Drain_def intro: attended_put split: option.splits prod.splits)
next
  case (OpDrainInterjection k)
  then show ?thesis using a
    by (auto simp: DrainInterjection_def intro: attended_put split: option.splits prod.splits)
next
  case (OpSetInterjection k b)
  then show ?thesis using attended_ref [OF a, of k] a
    by (auto simp: SetInterjectionEnabled_def intro!: attended_put)
next
  case (OpChainStart k)
  then show ?thesis using attended_ref [OF a, of k] a
    by (auto simp: NotifyChainStart_def intro!: attended_put)
next
  case (OpChainEnd k iv now)
  then show ?thesis using attended_ChainEnd [OF a, of k iv now] f by auto
next
  case (OpTimer ks now)
  then show ?thesis using attended_extract_all [OF a, of "filter (timer_expired now q) ks"] a
    by (auto simp: timer_fire_def split: prod.splits)
qed

lemma attended_run:
  assumes "attended cfg q" and "\<forall>p \<in> set ops. follows_config cfg p"
  shows "attended cfg (fst (mq_run ops q))"
  using assms
proof (induction ops arbitrary: q)
  case (Cons p ps)
  have "attended cfg (fst (mq_step p q))" using attended_step Cons.prems by simp
  then have "attended cfg (fst (mq_run ps (fst (mq_step p q))))" using Cons by simp
  then show ?case by (simp add: case_prod_unfold Let_def)
qed simp

lemma attended_init: "attended cfg (MessageQueue_init cb)"
  by (simp add: attended_def MessageQueue_init_def)

subsection \<open>The timer thread\<close>

lemma timer_earliest_le:
  assumes "k \<in> set ks" and "mq_sessions q k = Some st" and "timer_live st"
  shows "\<exists>d. timer_earliest ks q = Some d \<and> d \<le> timer_deadline st"
  using assms by (induction ks) (auto split: option.splits)

lemma extract_all_flushes:
  assumes "k \<in> set ks" and "pending k q \<noteq> []"
  shows "(k, ConcatenateMessages (pending k q)) \<in> set (fst (extract_all ks q))"
  using assms
proof (induction ks arbitrary: q)
  case (Cons k' ks)
  show ?case
  proof (cases "k = k'")
    case True
    moreover obtain t q1 where e: "ExtractPending k' q = (t, q1)" by fastforce
    moreover have "t = ConcatenateMessages (pending k' q)" using ExtractPending_text [of k' q] e by simp
    ultimately show ?thesis using Cons.prems(2) by (simp add: case_prod_unfold Let_def)
  next
    case False
    have "pending k (snd (ExtractPending k' q)) = pending k q" using False by simp
    then have "(k, ConcatenateMessages (pending k q)) \<in> set (fst (extract_all ks (snd (ExtractPending k' q))))"
      using Cons False by (metis set_ConsD)
    then show ?thesis by (simp add: case_prod_unfold Let_def)
  qed
qed simp

lemma extract_all_keys: "(k, t) \<in> set (fst (extract_all ks q)) \<Longrightarrow> k \<in> set ks"
  by (induction ks arbitrary: q) (auto simp: case_prod_unfold Let_def split: if_splits)

subsection \<open>Properties\<close>

text \<open>C3: messages are conserved. Over any run of the queue with a callback, every text that leaves it
  is the concatenation of one batch of messages of one session, and for every session the
  batches in order followed by what is still pending are exactly the messages pushed to it, in
  the order of the pushes: none is lost, repeated, reordered or moved to another session.\<close>

theorem queue_conserves_messages:
  assumes "mq_run ops (MessageQueue_init True) = (q, outs)"
  shows "\<exists>bs. outs = map render bs
    \<and> (\<forall>k. concat (map (pushed_by k) ops) = batched k bs @ pending k q)"
proof -
  have "accounts ops (MessageQueue_init True) q outs"
    using accounts_run assms by (simp add: MessageQueue_init_def)
  moreover have "pending k (MessageQueue_init True) = []" for k by (simp add: MessageQueue_init_def)
  ultimately show ?thesis by (auto simp: accounts_def)
qed

definition demo_ops :: "mq_op list" where
  "demo_ops =
     [OpChainStart ''irc'', OpPush ''irc'' ''bob'' ''hi'' 1 30 50 0 0, OpSetInterjection ''irc'' True,
      OpDrainInterjection ''irc'', OpPush ''irc'' ''eve'' ''yo'' 2 30 50 0 5, OpChainEnd ''irc'' 30 9,
      OpTimer [''irc''] 30000000009]"

definition demo_outs :: "mq_out list" where
  "demo_outs = [Injected ''irc'' (interjection_header @ ''[bob]: hi'' @ [CHR 0x0A]),
                Flushed ''irc'' (''[eve]: yo'' @ [CHR 0x0A])]"

lemmas mq_eval = demo_ops_def demo_outs_def MessageQueue_init_def Push_def push_enqueue_def push_decision_def
  Drain_def DrainInterjection_def SetInterjectionEnabled_def NotifyChainStart_def NotifyChainEnd_def
  timer_fire_def timer_expired_def timer_live_def ExtractPending_def session_ref_def put_session_def
  new_session_def ConcatenateMessages_def message_line_def of_sec_def of_ms_def

lemma demo_run: "snd (mq_run demo_ops (MessageQueue_init True)) = demo_outs"
  by (simp add: mq_eval)

theorem queue_conserves_messages_witness:
  "\<exists>bs. demo_outs = map render bs
    \<and> concat (map (pushed_by ''irc'') demo_ops)
        = batched ''irc'' bs @ pending ''irc'' (fst (mq_run demo_ops (MessageQueue_init True)))"
proof -
  have "mq_run demo_ops (MessageQueue_init True)
      = (fst (mq_run demo_ops (MessageQueue_init True)), demo_outs)"
    using demo_run by (simp add: prod_eq_iff)
  from queue_conserves_messages [OF this] show ?thesis by blast
qed

text \<open>C4: no message waits for ever. When every push and chain end carries the channel's configuration
  and that has a response interval or an aggregation window, a session that has messages and
  runs no chain has a live timer; the timer thread then sleeps no longer than its deadline, and
  when it wakes at or after the deadline it hands the whole backlog to the callback.\<close>

theorem queue_attends_backlog:
  assumes run: "mq_run ops (MessageQueue_init True) = (q, outs)"
    and cfg: "\<forall>p \<in> set ops. follows_config cfg p"
    and st: "mq_sessions q k = Some st" and msgs: "messages st \<noteq> []" and idle: "\<not> chain_active st"
    and ks: "k \<in> set ks" and up: "mq_running q" and now: "timer_deadline st \<le> now"
  shows "\<exists>d. timer_earliest ks q = Some d \<and> d \<le> timer_deadline st
    \<and> (k, ConcatenateMessages (messages st)) \<in> set (snd (timer_fire ks now q))"
proof -
  have acc: "accounts ops (MessageQueue_init True) q outs"
    using accounts_run [OF _ run] by (simp add: MessageQueue_init_def)
  then have cb: "mq_callback q" by (auto simp: accounts_def MessageQueue_init_def)
  have "attended cfg q" using attended_run [OF attended_init cfg] run by (metis fst_conv)
  then have live: "timer_live st" using st msgs idle by (auto simp: attended_def timer_live_def)
  have "k \<in> set (filter (timer_expired now q) ks)" using live st msgs now ks by (simp add: timer_expired_def)
  then have "(k, ConcatenateMessages (pending k q)) \<in> set (fst (extract_all (filter (timer_expired now q) ks) q))"
    using msgs st by (intro extract_all_flushes) simp_all
  then show ?thesis
    using timer_earliest_le [OF ks st live] st up cb by (simp add: timer_fire_def case_prod_unfold Let_def)
qed

definition demo_backlog :: msg_queue where
  "demo_backlog = fst (mq_run (butlast demo_ops) (MessageQueue_init True))"

theorem queue_attends_backlog_witness:
  "(''irc'', ''[eve]: yo'' @ [CHR 0x0A]) \<in> set (snd (timer_fire [''irc''] 30000000009 demo_backlog))"
proof -
  let ?st = "the (mq_sessions demo_backlog ''irc'')"
  have run: "mq_run (butlast demo_ops) (MessageQueue_init True)
      = (demo_backlog, snd (mq_run (butlast demo_ops) (MessageQueue_init True)))"
    by (simp add: demo_backlog_def)
  have cfg: "\<forall>p \<in> set (butlast demo_ops). follows_config (\<lambda>_. (30, 0)) p" by (simp add: demo_ops_def)
  have st: "mq_sessions demo_backlog ''irc'' = Some ?st" "messages ?st \<noteq> []" "\<not> chain_active ?st"
    "mq_running demo_backlog" "timer_deadline ?st \<le> 30000000009"
    "ConcatenateMessages (messages ?st) = ''[eve]: yo'' @ [CHR 0x0A]"
    by (simp_all add: demo_backlog_def mq_eval)
  have ks: "''irc'' \<in> set [''irc'']" by simp
  from queue_attends_backlog [OF run cfg st(1-3) ks st(4,5)] st(6) show ?thesis by auto
qed

text \<open>C6: what a push to an idle session decides. The moment the batch is due is the later of the end
  of the aggregation window and the end of the response cooldown; a batch due now is flushed at
  once with everything pending, otherwise the timer is armed for exactly that moment.\<close>

definition push_due :: "ticks \<Rightarrow> int \<Rightarrow> int \<Rightarrow> session_state \<Rightarrow> ticks" where
  "push_due now iv w st =
     max (if w > 0 then now + of_ms w else now)
         (if iv > 0 \<and> has_responded st then chain_end_time st + of_sec iv else now)"

theorem push_idle_due:
  assumes "iv > 0 \<or> w > 0" and "mq_callback q"
    and "\<not> chain_active (session_ref q k)" and "\<not> timer_running (session_ref q k)"
    and "\<not> (mx > 0 \<and> int (length (pending k q)) + 1 \<ge> mx)"
  shows "let batch = pending k q @ [\<lparr>qm_session_key = k, qm_sender = s, qm_content = c, qm_unix_ms = u\<rparr>];
             due = push_due now iv w (session_ref q k);
             (q', out) = Push k s c u iv mx w now q
         in if due > now
            then out = None \<and> pending k q' = batch \<and> timer_live (session_ref q' k)
                   \<and> timer_deadline (session_ref q' k) = due
            else out = Some (k, ConcatenateMessages batch) \<and> pending k q' = []"
proof -
  let ?batch = "pending k q @ [\<lparr>qm_session_key = k, qm_sender = s, qm_content = c, qm_unix_ms = u\<rparr>]"
  let ?st = "(session_ref q k)\<lparr>interval_seconds := iv, aggregation_window_ms := w, messages := ?batch\<rparr>"
  let ?due = "push_due now iv w (session_ref q k)"
  have d: "push_decision now iv w ?st = (?due > now, ?due, ?due \<le> now)"
    using assms(1) by (auto simp: push_decision_def push_due_def Let_def of_ms_def of_sec_def)
  have e: "push_enqueue k s c u iv mx w now q
      = ((if ?due > now then ?st\<lparr>timer_deadline := ?due, timer_running := True\<rparr> else ?st), ?due \<le> now)"
    using assms(3-5) d by (auto simp: push_enqueue_def Let_def)
  show ?thesis
  proof (cases "?due > now")
    case True
    have "Push k s c u iv mx w now q
        = (put_session k (?st\<lparr>timer_deadline := ?due, timer_running := True\<rparr>) q, None)"
      by (rule Push_kept) (use e True in simp)
    then show ?thesis using True assms(3)
      by (simp add: timer_live_def session_ref_def split: option.splits)
  next
    case False
    have "Push k s c u iv mx w now q
        = (snd (ExtractPending k (put_session k ?st q)), Some (k, ConcatenateMessages (messages ?st)))"
      by (rule Push_flushed) (use e False assms(2) in simp_all)
    then show ?thesis using False by simp
  qed
qed

theorem push_idle_due_witness:
  "let (q', out) = Push ''irc'' ''bob'' ''hi'' 1 30 50 5000 0 (MessageQueue_init True)
   in out = None \<and> timer_deadline (session_ref q' ''irc'') = 5000000000"
  using push_idle_due [of 30 5000 "MessageQueue_init True" "''irc''" 50 "''bob''" "''hi''" 1 0]
  by (simp add: MessageQueue_init_def session_ref_def new_session_def push_due_def of_ms_def of_sec_def
      Let_def split: prod.splits)

text \<open>Draining the messages of a session as an interjection while its timer is live (which happens
  when a channel has an aggregation window and no interval, because the kernel then never calls
  \<open>NotifyChainStart\<close>) leaves a live timer with nothing to flush. From its deadline on, every
  wake-up of the timer thread finds a deadline that has passed, fires nothing for the session
  and changes nothing, so the thread never sleeps again until the next message: a busy loop.\<close>

lemma interjection_leaves_spinning_timer:
  assumes "mq_sessions q k = Some st" and "timer_live st" and "allow_interjection st"
    and "messages st \<noteq> []" and "DrainInterjection k q = (t, q')" and "mq_running q"
  shows "(\<exists>d. timer_earliest [k] q' = Some d \<and> d \<le> timer_deadline st)
    \<and> (\<forall>now \<ge> timer_deadline st. timer_fire [k] now q' = (q', []))"
proof -
  have q': "q' = put_session k (st\<lparr>messages := []\<rparr>) q"
    using assms by (auto simp: DrainInterjection_def)
  then have "\<not> timer_expired now q' k" for now by (simp add: timer_expired_def)
  moreover have "timer_earliest [k] q' = Some (timer_deadline st)"
    using assms(2) q' by (simp add: timer_live_def)
  moreover have "mq_running q'" using assms(6) q' by simp
  ultimately show ?thesis by (simp add: timer_fire_def)
qed

definition spin_start :: msg_queue where
  "spin_start = fst (mq_run [OpSetInterjection ''irc'' True,
     OpPush ''irc'' '''' ''hi'' 1 0 50 500 0] (MessageQueue_init True))"

lemma interjection_leaves_spinning_timer_example:
  "timer_fire [''irc''] 500000000 (snd (DrainInterjection ''irc'' spin_start))
     = (snd (DrainInterjection ''irc'' spin_start), [])"
proof -
  let ?st = "the (mq_sessions spin_start ''irc'')"
  have s: "mq_sessions spin_start ''irc'' = Some ?st" "timer_live ?st" "allow_interjection ?st"
    "messages ?st \<noteq> []" "mq_running spin_start" "timer_deadline ?st \<le> 500000000"
    by (simp_all add: spin_start_def mq_eval)
  have d: "DrainInterjection ''irc'' spin_start
      = (fst (DrainInterjection ''irc'' spin_start), snd (DrainInterjection ''irc'' spin_start))" by simp
  from interjection_leaves_spinning_timer [OF s(1-4) d s(5)] s(6) show ?thesis by blast
qed

end
