(* ===== verification/Supervisor.thy ===== *)
theory Supervisor
  imports Prelude
begin

text \<open>
  \<open>src/kernel/channel/ConnectionSupervisor.cpp\<close> and its header: one supervised websocket
  connection (connect, back off, reconnect) and the hysteresis gate \<open>PollFallbackGate\<close>. The
  websocket client and the event loop are the environment: a client is a number, the handlers
  the code installs are functions of the client that fires them, and the calls the code makes
  (start a handshake, stop a client, run a user callback) are recorded in \<open>cs_effects\<close>. The
  random delay is an argument. \<open>cs_step\<close> lets the environment fire any enabled handler at any
  time; a handler runs as one step, calls from other threads happen between handlers. The
  generation counter is a natural number: 2 to the 64 bumps are out of reach.
\<close>

subsection \<open>Configuration and state\<close>

record cs_config =
  cfg_name :: string
  cfg_host :: string
  cfg_path :: string
  pingInterval :: ms
  stallTimeout :: ms
  backoffBase :: ms
  backoffCap :: ms
  circuitBreakAfter :: int
  cooldownCap :: ms

definition default_config :: "string \<Rightarrow> string \<Rightarrow> cs_config" where
  "default_config name host = \<lparr>cfg_name = name, cfg_host = host, cfg_path = ''/'', pingInterval = 30000,
     stallTimeout = 300000, backoffBase = 1000, backoffCap = 60000, circuitBreakAfter = 20,
     cooldownCap = 300000\<rparr>"

datatype cs_state = Disabled | Connecting | Connected | Backoff | Error

datatype frame_type = Text | Pong | OtherFrame

datatype req_result = ReqOk | BadResponse | NetworkFailure | BadServerAddress | Timeout
  | HandshakeError | InvalidCertificate | EncryptionFailure | ReqUnknown

datatype effect = StartHandshake nat ms | StopClient nat | OnConnected | OnMessage string
  | OnClosed string | SentText nat string

record supervisor =
  cs_cfg :: cs_config
  cs_st :: cs_state
  consecutiveFailures :: int
  lastError :: string
  lastEvent :: ms
  connectInFlight :: bool
  lastPong :: ms
  lastBackoffAt :: ms
  lastScheduledDelayMs :: ms
  loopRunning :: bool
  ws :: "nat option"
  stopRequested :: bool
  fatal :: bool
  generation :: nat
  cs_effects :: "effect list"
  \<comment> \<open>the environment's pending work: reconnect timers, handshakes, the initial task, quit tasks\<close>
  timers :: "(nat \<times> ms) list"
  handshakes :: "nat list"
  startTask :: bool
  quitTasks :: nat
  nextClient :: nat

definition StateName :: "cs_state \<Rightarrow> string" where
  "StateName s = (case s of Disabled \<Rightarrow> ''disabled'' | Connecting \<Rightarrow> ''connecting''
     | Connected \<Rightarrow> ''connected'' | Backoff \<Rightarrow> ''backoff'' | Error \<Rightarrow> ''error'')"

definition ReqResultReason :: "req_result \<Rightarrow> string" where
  "ReqResultReason r = (case r of ReqOk \<Rightarrow> ''ok'' | BadResponse \<Rightarrow> ''bad response''
     | NetworkFailure \<Rightarrow> ''network failure'' | BadServerAddress \<Rightarrow> ''bad server address''
     | Timeout \<Rightarrow> ''timeout'' | HandshakeError \<Rightarrow> ''handshake error''
     | InvalidCertificate \<Rightarrow> ''invalid certificate'' | EncryptionFailure \<Rightarrow> ''encryption failure''
     | ReqUnknown \<Rightarrow> ''unknown'')"

definition emit :: "effect \<Rightarrow> supervisor \<Rightarrow> supervisor" where
  "emit e s = s\<lparr>cs_effects := cs_effects s @ [e]\<rparr>"

definition halted :: "supervisor \<Rightarrow> bool" where
  "halted s \<longleftrightarrow> stopRequested s \<or> fatal s"

subsection \<open>Transitions and the reconnect schedule\<close>

definition Transition :: "cs_state \<Rightarrow> string \<Rightarrow> ms \<Rightarrow> supervisor \<Rightarrow> supervisor" where
  "Transition to reason now s =
     (if cs_st s = to then s
      else s\<lparr>cs_st := to,
             lastError := (if to = Error then reason else lastError s),
             lastBackoffAt := (if to = Backoff then now else lastBackoffAt s)\<rparr>)"

definition backoffFloorMs :: ms where "backoffFloorMs = 250"

definition circuit_tripped :: "cs_config \<Rightarrow> int \<Rightarrow> bool" where
  "circuit_tripped c n \<longleftrightarrow> circuitBreakAfter c > 0 \<and> n \<ge> circuitBreakAfter c"

definition delay_cap :: "cs_config \<Rightarrow> int \<Rightarrow> ms" where
  "delay_cap c n =
     (if circuit_tripped c n then max (backoffCap c) (cooldownCap c) else backoffCap c)"

definition delay_base :: "cs_config \<Rightarrow> int \<Rightarrow> ms" where
  "delay_base c n = min (delay_cap c n) (max (backoffBase c) 1 * 2 ^ nat (min (n - 1) 6))"

definition delay_lo :: "cs_config \<Rightarrow> int \<Rightarrow> ms" where
  "delay_lo c n = min backoffFloorMs (delay_base c n)"

text \<open>\<open>delay\<close> is the sample of \<open>uniform_int_distribution(lo, base)\<close>; \<open>runAfter\<close> leaves a timer
  with the generation it captured and the time from which it may fire.\<close>

definition ScheduleReconnect :: "ms \<Rightarrow> ms \<Rightarrow> supervisor \<Rightarrow> supervisor" where
  "ScheduleReconnect now delay s =
     (if halted s then s
      else s\<lparr>generation := generation s + 1,
             consecutiveFailures := consecutiveFailures s + 1,
             lastScheduledDelayMs := delay,
             timers := timers s @ [(generation s + 1, now + delay)]\<rparr>)"

subsection \<open>Connecting\<close>

definition Connect :: "ms \<Rightarrow> supervisor \<Rightarrow> supervisor" where
  "Connect now s =
     (if halted s then s
      else if connectInFlight s \<or> cs_st s = Connected then s
      else
        let c = nextClient s;
            s1 = s\<lparr>connectInFlight := True, ws := Some c, nextClient := c + 1\<rparr>;
            s2 = (case ws s of None \<Rightarrow> s1 | Some stale \<Rightarrow> emit (StopClient stale) s1);
            s3 = Transition Connecting ''connect attempt'' now s2
        in emit (StartHandshake c now) (s3\<lparr>handshakes := handshakes s3 @ [c]\<rparr>))"

text \<open>The three handlers installed on client \<open>c\<close>.\<close>

definition handle_message :: "nat \<Rightarrow> frame_type \<Rightarrow> string \<Rightarrow> ms \<Rightarrow> supervisor \<Rightarrow> supervisor" where
  "handle_message c ty text now s =
     (if ws s \<noteq> Some c then s
      else
        let s1 = (if ty = Pong then s\<lparr>lastPong := now\<rparr> else s);
            s2 = (if ty = Text then s1\<lparr>lastEvent := now\<rparr> else s1)
        in if ty = Text then emit (OnMessage text) s2 else s2)"

definition handle_closed :: "nat \<Rightarrow> ms \<Rightarrow> ms \<Rightarrow> supervisor \<Rightarrow> supervisor" where
  "handle_closed c now delay s =
     (if stopRequested s then s
      else if ws s \<noteq> Some c then s
      else ScheduleReconnect now delay
             (emit (OnClosed ''connection closed'') (Transition Backoff ''connection closed'' now s)))"

definition handle_connect :: "nat \<Rightarrow> req_result \<Rightarrow> bool \<Rightarrow> ms \<Rightarrow> ms \<Rightarrow> supervisor \<Rightarrow> supervisor" where
  "handle_connect c r hasConn now delay s =
     (if ws s \<noteq> Some c then s
      else
        let s1 = s\<lparr>connectInFlight := False\<rparr> in
        if halted s1 then s1
        else if r \<noteq> ReqOk then
          ScheduleReconnect now delay (Transition Backoff (''connect failed: '' @ ReqResultReason r) now s1)
        else if \<not> hasConn then
          ScheduleReconnect now delay (Transition Backoff ''connected but no connection object'' now s1)
        else
          emit OnConnected (Transition Connected ''handshake ok'' now
            (s1\<lparr>consecutiveFailures := 0, lastEvent := now, lastPong := now\<rparr>)))"

definition timer_fires :: "nat \<Rightarrow> ms \<Rightarrow> supervisor \<Rightarrow> supervisor" where
  "timer_fires gen now s =
     (if halted s then s else if gen \<noteq> generation s then s else Connect now s)"

definition ForceReconnect :: "string \<Rightarrow> ms \<Rightarrow> supervisor \<Rightarrow> supervisor" where
  "ForceReconnect reason now s =
     (let s1 = Transition Backoff reason now (s\<lparr>generation := generation s + 1, lastEvent := now\<rparr>)
      in case ws s1 of None \<Rightarrow> s1 | Some c \<Rightarrow> emit (StopClient c) s1)"

text \<open>One tick of the watchdog; a default \<open>time_point\<close> is 0.\<close>

definition orphan_after :: "supervisor \<Rightarrow> ms" where
  "orphan_after s = max 20000 (2 * lastScheduledDelayMs s)"

definition watchdog_tick :: "ms \<Rightarrow> supervisor \<Rightarrow> supervisor" where
  "watchdog_tick now s =
     (if halted s then s
      else if cs_st s = Connected then
        (if pingInterval (cs_cfg s) > 0 \<and> now - lastPong s > 4 * pingInterval (cs_cfg s)
         then ForceReconnect ''transport dead: no pong within timeout'' now s else s)
      else if cs_st s = Backoff \<and> lastBackoffAt s \<noteq> 0 then
        (if now - lastBackoffAt s > orphan_after s
         then Connect now (s\<lparr>generation := generation s + 1\<rparr>) else s)
      else s)"

subsection \<open>Life cycle\<close>

definition queue_quit :: "supervisor \<Rightarrow> supervisor" where
  "queue_quit s = (if loopRunning s then s\<lparr>quitTasks := quitTasks s + 1\<rparr> else s)"

definition RequestStop :: "supervisor \<Rightarrow> supervisor" where
  "RequestStop s =
     (if stopRequested s then s
      else queue_quit (s\<lparr>stopRequested := True, generation := generation s + 1\<rparr>))"

definition FatalError :: "string \<Rightarrow> ms \<Rightarrow> supervisor \<Rightarrow> supervisor" where
  "FatalError reason now s =
     (if fatal s then s
      else let s1 = Transition Error reason now (s\<lparr>fatal := True\<rparr>)
           in queue_quit (s1\<lparr>generation := generation s1 + 1\<rparr>))"

text \<open>\<open>Run\<close> up to \<open>loop.loop()\<close>.\<close>

definition Run_start :: "cs_config \<Rightarrow> ms \<Rightarrow> supervisor \<Rightarrow> supervisor" where
  "Run_start cfg now s =
     (let s1 = s\<lparr>cs_cfg := cfg, consecutiveFailures := 0, lastError := '''', stopRequested := False,
                 fatal := False, generation := 0, connectInFlight := False, lastScheduledDelayMs := 0,
                 lastEvent := now, lastPong := now, lastBackoffAt := 0\<rparr>
      in if cfg_host cfg = '''' \<or> cfg_name cfg = ''''
         then Transition Error ''config: empty host or name'' now s1
         else (Transition Connecting ''start'' now (s1\<lparr>loopRunning := True\<rparr>))
                \<lparr>startTask := True, timers := [], handshakes := [], quitTasks := 0\<rparr>)"

text \<open>The quit task (it stops the client and leaves the loop) and \<open>Run\<close> after the loop. Work
  still pending in the loop dies with it.\<close>

definition quit_task :: "supervisor \<Rightarrow> supervisor" where
  "quit_task s = (case ws s of None \<Rightarrow> s | Some c \<Rightarrow> emit (StopClient c) s)"

definition Run_end :: "ms \<Rightarrow> supervisor \<Rightarrow> supervisor" where
  "Run_end now s =
     (let s1 = s\<lparr>loopRunning := False, ws := None, timers := [], handshakes := [], startTask := False,
                 quitTasks := 0\<rparr>
      in Transition (if fatal s then Error else Disabled) (if fatal s then ''fatal'' else ''stopped'') now s1)"

text \<open>\<open>SendText\<close>: the result and, on the loop thread with a live connection, the frame sent.\<close>

definition SendText :: "bool \<Rightarrow> bool \<Rightarrow> string \<Rightarrow> supervisor \<Rightarrow> bool \<times> supervisor" where
  "SendText inLoopThread hasConn text s =
     (if cs_st s \<noteq> Connected \<or> \<not> loopRunning s then (False, s)
      else case ws s of
        None \<Rightarrow> (\<not> inLoopThread, s)
      | Some c \<Rightarrow>
          if hasConn then (True, emit (SentText c text) s)
          else (\<not> inLoopThread, s))"

definition new_supervisor :: "cs_config \<Rightarrow> supervisor" where
  "new_supervisor cfg = \<lparr>cs_cfg = cfg, cs_st = Disabled, consecutiveFailures = 0, lastError = '''',
     lastEvent = 0, connectInFlight = False, lastPong = 0, lastBackoffAt = 0, lastScheduledDelayMs = 0,
     loopRunning = False, ws = None, stopRequested = False, fatal = False, generation = 0,
     cs_effects = [], timers = [], handshakes = [], startTask = False, quitTasks = 0, nextClient = 0\<rparr>"

subsection \<open>The poll fallback gate\<close>

datatype gate_decision = GateNone | GateEngage | GateDisengage

record poll_gate =
  engageAfter :: ms
  unhealthySince :: ms
  engaged :: bool

definition Tick :: "ms \<Rightarrow> bool \<Rightarrow> poll_gate \<Rightarrow> gate_decision \<times> poll_gate" where
  "Tick now wsConnected g =
     (if wsConnected then
        (if engaged g then (GateDisengage, g\<lparr>unhealthySince := 0, engaged := False\<rparr>)
         else (GateNone, g\<lparr>unhealthySince := 0\<rparr>))
      else
        let g1 = (if unhealthySince g = 0 then g\<lparr>unhealthySince := now\<rparr> else g) in
        if \<not> engaged g1 \<and> now - unhealthySince g1 \<ge> engageAfter g1
        then (GateEngage, g1\<lparr>engaged := True\<rparr>)
        else (GateNone, g1))"

subsection \<open>One call of \<open>Run\<close>\<close>

text \<open>The range \<open>uniform_int_distribution\<close> samples from, for the failure count after the increment.\<close>

definition delay_ok :: "supervisor \<Rightarrow> ms \<Rightarrow> bool" where
  "delay_ok s d \<longleftrightarrow> (let n = consecutiveFailures s + 1
     in delay_lo (cs_cfg s) n \<le> d \<and> d \<le> delay_base (cs_cfg s) n)"

inductive cs_step :: "ms \<Rightarrow> supervisor \<Rightarrow> supervisor \<Rightarrow> bool" for now where
  start_task: "loopRunning s \<Longrightarrow> startTask s \<Longrightarrow> cs_step now s (Connect now (s\<lparr>startTask := False\<rparr>))"
| message: "loopRunning s \<Longrightarrow> cs_step now s (handle_message c ty text now s)"
| closed: "loopRunning s \<Longrightarrow> delay_ok s d \<Longrightarrow> cs_step now s (handle_closed c now d s)"
| handshake: "loopRunning s \<Longrightarrow> c \<in> set (handshakes s) \<Longrightarrow> delay_ok s d
    \<Longrightarrow> cs_step now s (handle_connect c r hasConn now d (s\<lparr>handshakes := remove1 c (handshakes s)\<rparr>))"
| timer: "loopRunning s \<Longrightarrow> (g, due) \<in> set (timers s) \<Longrightarrow> due \<le> now
    \<Longrightarrow> cs_step now s (timer_fires g now (s\<lparr>timers := remove1 (g, due) (timers s)\<rparr>))"
| watchdog: "loopRunning s \<Longrightarrow> cs_step now s (watchdog_tick now s)"
| send: "cs_step now s (snd (SendText inLoop hasConn text s))"
| stop: "cs_step now s (RequestStop s)"
| fatal_error: "cs_step now s (FatalError reason now s)"
| quit_stop: "loopRunning s \<Longrightarrow> quitTasks s > 0 \<Longrightarrow> cs_step now s (quit_task s)"
| loop_exit: "loopRunning s \<Longrightarrow> quitTasks s > 0 \<Longrightarrow> cs_step now s (Run_end now s)"

inductive cs_run :: "cs_config \<Rightarrow> ms \<Rightarrow> supervisor \<Rightarrow> bool" for cfg where
  start: "cs_run cfg t (Run_start cfg t (new_supervisor cfg))"
| step: "cs_run cfg t s \<Longrightarrow> t \<le> now \<Longrightarrow> cs_step now s s' \<Longrightarrow> cs_run cfg now s'"

text \<open>The times at which handshakes were started, oldest first.\<close>

fun attempt_time :: "effect \<Rightarrow> ms list" where
  "attempt_time (StartHandshake c t) = [t]"
| "attempt_time _ = []"

definition attempts :: "supervisor \<Rightarrow> ms list" where
  "attempts s = concat (map attempt_time (cs_effects s))"

definition live_timers :: "supervisor \<Rightarrow> (nat \<times> ms) list" where
  "live_timers s = filter (\<lambda>(g, d). g = generation s) (timers s)"

text \<open>The least distance of two attempts.\<close>

definition attempt_gap :: "cs_config \<Rightarrow> ms" where
  "attempt_gap c = min backoffFloorMs (min (backoffCap c) (max (backoffBase c) 1))"

lemma attempt_gap_le: "attempt_gap c \<le> 250"
  by (simp add: attempt_gap_def backoffFloorMs_def)

lemma delay_cap_ge: "backoffCap c \<le> delay_cap c n"
  by (simp add: delay_cap_def)

lemma delay_lo_ge: "attempt_gap c \<le> delay_lo c n"
proof -
  let ?b = "max (backoffBase c) 1"
  have "1 \<le> (2::int) ^ nat (min (n - 1) 6)" by simp
  then have "?b * 1 \<le> ?b * 2 ^ nat (min (n - 1) 6)" by (intro mult_left_mono) auto
  then show ?thesis
    using delay_cap_ge [of c n] by (auto simp: attempt_gap_def delay_lo_def delay_base_def min_le_iff_disj)
qed

subsection \<open>The invariant of the storm guards\<close>

text \<open>
  \<open>in_flight_ok\<close>: a connect is in flight exactly when the current client, and no other, has an
  outstanding handshake. \<open>timers_ok\<close>: no timer is newer than the generation and at most one is
  current. \<open>spacing_ok\<close>: attempts are spaced, the current timer and the orphan heal both wait
  the gap out, and the initial task is the first attempt.
\<close>

definition in_flight_ok :: "supervisor \<Rightarrow> bool" where
  "in_flight_ok s \<longleftrightarrow>
     (if loopRunning s
      then (if connectInFlight s then \<exists>c. ws s = Some c \<and> handshakes s = [c] else handshakes s = [])
      else handshakes s = [] \<and> timers s = [] \<and> \<not> startTask s)
   \<and> (cs_st s = Connected \<longrightarrow> \<not> connectInFlight s)"

definition timers_ok :: "supervisor \<Rightarrow> bool" where
  "timers_ok s \<longleftrightarrow> (\<forall>(g, d) \<in> set (timers s). g \<le> generation s) \<and> length (live_timers s) \<le> 1"

definition spacing_ok :: "ms \<Rightarrow> supervisor \<Rightarrow> bool" where
  "spacing_ok t s \<longleftrightarrow>
     (\<forall>a \<in> set (attempts s). a \<le> t)
   \<and> successively (\<lambda>a b. a + attempt_gap (cs_cfg s) \<le> b) (attempts s)
   \<and> (attempts s \<noteq> [] \<longrightarrow>
        (\<forall>(g, due) \<in> set (live_timers s). last (attempts s) + attempt_gap (cs_cfg s) \<le> due)
      \<and> (cs_st s = Backoff \<longrightarrow> last (attempts s) \<le> lastBackoffAt s))
   \<and> (startTask s \<longrightarrow> attempts s = [] \<and> timers s = [] \<and> ws s = None \<and> cs_st s \<in> {Connecting, Error})"

definition sup_inv :: "cs_config \<Rightarrow> ms \<Rightarrow> supervisor \<Rightarrow> bool" where
  "sup_inv cfg t s \<longleftrightarrow> cs_cfg s = cfg \<and> in_flight_ok s \<and> timers_ok s \<and> spacing_ok t s"

lemmas sup_inv_defs = sup_inv_def in_flight_ok_def timers_ok_def spacing_ok_def live_timers_def

lemma sup_inv_later: "sup_inv cfg t s \<Longrightarrow> t \<le> t' \<Longrightarrow> sup_inv cfg t' s"
  by (auto simp: sup_inv_def spacing_ok_def)

lemma attempts_simps [simp]:
  "attempts (emit e s) = attempts s @ attempt_time e"
  "attempts (s\<lparr>timers := ts\<rparr>) = attempts s"
  "attempts (s\<lparr>handshakes := hs\<rparr>) = attempts s"
  "attempts (s\<lparr>startTask := b\<rparr>) = attempts s"
  "attempts (s\<lparr>generation := n\<rparr>) = attempts s"
  "attempts (s\<lparr>connectInFlight := b\<rparr>) = attempts s"
  "attempts (s\<lparr>ws := w\<rparr>) = attempts s"
  "attempts (s\<lparr>nextClient := n\<rparr>) = attempts s"
  "attempts (s\<lparr>cs_st := st\<rparr>) = attempts s"
  "attempts (s\<lparr>lastError := e'\<rparr>) = attempts s"
  "attempts (s\<lparr>lastBackoffAt := m\<rparr>) = attempts s"
  "attempts (s\<lparr>lastEvent := m\<rparr>) = attempts s"
  "attempts (s\<lparr>lastPong := m\<rparr>) = attempts s"
  "attempts (s\<lparr>consecutiveFailures := i\<rparr>) = attempts s"
  "attempts (s\<lparr>lastScheduledDelayMs := m\<rparr>) = attempts s"
  "attempts (s\<lparr>loopRunning := b\<rparr>) = attempts s"
  "attempts (s\<lparr>stopRequested := b\<rparr>) = attempts s"
  "attempts (s\<lparr>fatal := b\<rparr>) = attempts s"
  "attempts (s\<lparr>quitTasks := n\<rparr>) = attempts s"
  "attempts (s\<lparr>cs_cfg := c\<rparr>) = attempts s"
  by (simp_all add: attempts_def emit_def)

lemma emit_frame [simp]:
  "cs_cfg (emit e s) = cs_cfg s" "cs_st (emit e s) = cs_st s"
  "connectInFlight (emit e s) = connectInFlight s" "ws (emit e s) = ws s"
  "handshakes (emit e s) = handshakes s" "timers (emit e s) = timers s"
  "generation (emit e s) = generation s" "startTask (emit e s) = startTask s"
  "loopRunning (emit e s) = loopRunning s" "lastBackoffAt (emit e s) = lastBackoffAt s"
  "stopRequested (emit e s) = stopRequested s" "fatal (emit e s) = fatal s"
  "consecutiveFailures (emit e s) = consecutiveFailures s" "lastError (emit e s) = lastError s"
  "quitTasks (emit e s) = quitTasks s" "nextClient (emit e s) = nextClient s"
  "lastScheduledDelayMs (emit e s) = lastScheduledDelayMs s"
  by (simp_all add: emit_def)

lemma Transition_frame [simp]:
  "cs_cfg (Transition st r n s) = cs_cfg s" "cs_st (Transition st r n s) = st"
  "connectInFlight (Transition st r n s) = connectInFlight s" "ws (Transition st r n s) = ws s"
  "handshakes (Transition st r n s) = handshakes s" "timers (Transition st r n s) = timers s"
  "generation (Transition st r n s) = generation s" "startTask (Transition st r n s) = startTask s"
  "loopRunning (Transition st r n s) = loopRunning s" "stopRequested (Transition st r n s) = stopRequested s"
  "fatal (Transition st r n s) = fatal s" "attempts (Transition st r n s) = attempts s"
  "consecutiveFailures (Transition st r n s) = consecutiveFailures s"
  "quitTasks (Transition st r n s) = quitTasks s" "nextClient (Transition st r n s) = nextClient s"
  "cs_effects (Transition st r n s) = cs_effects s"
  "lastScheduledDelayMs (Transition st r n s) = lastScheduledDelayMs s"
  by (simp_all add: Transition_def)

lemma Transition_backoff_at:
  "lastBackoffAt (Transition st r n s) = (if st = Backoff \<and> cs_st s \<noteq> Backoff then n else lastBackoffAt s)"
  by (simp add: Transition_def)

text \<open>Fields the invariant does not look at.\<close>

lemma sup_inv_frame [simp]:
  "sup_inv cfg t (s\<lparr>stopRequested := b\<rparr>) = sup_inv cfg t s"
  "sup_inv cfg t (s\<lparr>fatal := b\<rparr>) = sup_inv cfg t s"
  "sup_inv cfg t (s\<lparr>lastEvent := m\<rparr>) = sup_inv cfg t s"
  "sup_inv cfg t (s\<lparr>lastPong := m\<rparr>) = sup_inv cfg t s"
  "sup_inv cfg t (s\<lparr>consecutiveFailures := i\<rparr>) = sup_inv cfg t s"
  "sup_inv cfg t (s\<lparr>quitTasks := n\<rparr>) = sup_inv cfg t s"
  by (simp_all add: sup_inv_defs)

lemma attempts_le: "sup_inv cfg t s \<Longrightarrow> attempts s \<noteq> [] \<Longrightarrow> last (attempts s) \<le> t"
  by (auto simp: sup_inv_def spacing_ok_def)

lemma live_simps [simp]:
  "live_timers (Transition st r n s) = live_timers s" "live_timers (emit e s) = live_timers s"
  by (simp_all add: live_timers_def)

lemma inv_Transition:
  assumes inv: "sup_inv cfg now s" and "st = Connected \<Longrightarrow> \<not> connectInFlight s"
    and "startTask s \<Longrightarrow> st \<in> {Connecting, Error}"
  shows "sup_inv cfg now (Transition st r now s)"
  using assms attempts_le [OF inv]
  by (auto simp: sup_inv_def in_flight_ok_def timers_ok_def spacing_ok_def Transition_backoff_at)

lemma inv_emit: "sup_inv cfg now s \<Longrightarrow> attempt_time e = [] \<Longrightarrow> sup_inv cfg now (emit e s)"
  by (auto simp: sup_inv_def in_flight_ok_def timers_ok_def spacing_ok_def)

lemma inv_Schedule:
  assumes inv: "sup_inv cfg now s" and d: "delay_ok s d" and run: "loopRunning s" "\<not> startTask s"
  shows "sup_inv cfg now (ScheduleReconnect now d s)"
proof (cases "halted s")
  case True
  then show ?thesis using inv by (simp add: ScheduleReconnect_def)
next
  case False
  let ?t = "ScheduleReconnect now d s"
  have g: "g \<le> generation s" if "(g, due) \<in> set (timers s)" for g due
    using inv that by (auto simp: sup_inv_def timers_ok_def)
  have "filter (\<lambda>(g, d). g = generation s + 1) (timers s) = []"
    using g by (fastforce simp: filter_empty_conv)
  then have live: "live_timers ?t = [(generation s + 1, now + d)]"
    using False by (simp add: live_timers_def ScheduleReconnect_def)
  have "attempt_gap (cs_cfg s) \<le> d"
    using d delay_lo_ge order_trans by (fastforce simp: delay_ok_def Let_def)
  then have "attempts s \<noteq> [] \<Longrightarrow> last (attempts s) + attempt_gap (cs_cfg s) \<le> now + d"
    using attempts_le [OF inv] by fastforce
  moreover have "timers_ok ?t"
    using g live False by (fastforce simp: timers_ok_def ScheduleReconnect_def)
  ultimately show ?thesis
    using inv live run False
    by (auto simp: sup_inv_def in_flight_ok_def spacing_ok_def ScheduleReconnect_def)
qed

lemma inv_bump:
  assumes inv: "sup_inv cfg now s"
  shows "sup_inv cfg now (s\<lparr>generation := generation s + 1\<rparr>)" (is "sup_inv cfg now ?t")
    and "live_timers (s\<lparr>generation := generation s + 1\<rparr>) = []"
proof -
  have g: "g \<le> generation s" if "(g, due) \<in> set (timers s)" for g due
    using inv that by (auto simp: sup_inv_def timers_ok_def)
  then show live: "live_timers ?t = []"
    by (fastforce simp: live_timers_def filter_empty_conv)
  have "timers_ok ?t" using g live by (fastforce simp: timers_ok_def)
  then show "sup_inv cfg now ?t"
    using inv live by (auto simp: sup_inv_def in_flight_ok_def spacing_ok_def)
qed

lemma successively_snoc:
  assumes "successively P xs" and "xs \<noteq> [] \<Longrightarrow> P (last xs) y"
  shows "successively P (xs @ [y])"
  using assms by (auto simp: successively_append_iff)

lemma inv_Connect:
  assumes inv: "sup_inv cfg now s" and run: "loopRunning s" "\<not> startTask s"
    and live: "live_timers s = []"
    and gap: "attempts s \<noteq> [] \<Longrightarrow> last (attempts s) + attempt_gap cfg \<le> now"
  shows "sup_inv cfg now (Connect now s)"
proof (cases "halted s \<or> connectInFlight s \<or> cs_st s = Connected")
  case True
  then show ?thesis using inv by (auto simp: Connect_def)
next
  case False
  let ?t = "Connect now s"
  have hs: "handshakes s = []" using inv False run by (auto simp: sup_inv_def in_flight_ok_def)
  have fl: "connectInFlight ?t" "ws ?t = Some (nextClient s)" "handshakes ?t = [nextClient s]"
    "loopRunning ?t" "\<not> startTask ?t" "cs_st ?t = Connecting" "cs_cfg ?t = cs_cfg s"
    "timers ?t = timers s" "generation ?t = generation s"
    using False hs run by (auto simp: Connect_def Let_def split: option.splits)
  have a: "attempts ?t = attempts s @ [now]"
    using False by (auto simp: Connect_def Let_def split: option.splits)
  have l: "live_timers ?t = []" using live fl by (simp add: live_timers_def)
  have cfg: "cs_cfg s = cfg" using inv by (simp add: sup_inv_def)
  have sp: "successively (\<lambda>a b. a + attempt_gap cfg \<le> b) (attempts s)"
    and le: "\<forall>a \<in> set (attempts s). a \<le> now"
    using inv by (auto simp: sup_inv_def spacing_ok_def)
  have "successively (\<lambda>a b. a + attempt_gap cfg \<le> b) (attempts s @ [now])"
    by (rule successively_snoc [OF sp gap])
  moreover have "timers_ok ?t" using inv fl l by (auto simp: sup_inv_def timers_ok_def)
  ultimately show ?thesis
    using fl a l cfg le by (auto simp: sup_inv_def in_flight_ok_def spacing_ok_def)
qed

lemma inv_start_task:
  assumes inv: "sup_inv cfg now s" and run: "loopRunning s" "startTask s"
  shows "sup_inv cfg now (Connect now (s\<lparr>startTask := False\<rparr>))"
proof (rule inv_Connect)
  show "sup_inv cfg now (s\<lparr>startTask := False\<rparr>)"
    using inv run by (auto simp: sup_inv_defs)
qed (use inv run in \<open>auto simp: sup_inv_def spacing_ok_def live_timers_def\<close>)

lemma inv_message:
  assumes "sup_inv cfg now s" shows "sup_inv cfg now (handle_message c ty text now s)"
  using assms by (auto simp: handle_message_def sup_inv_defs Let_def split: if_splits)

lemma inv_closed:
  assumes inv: "sup_inv cfg now s" and run: "loopRunning s" and d: "delay_ok s d"
  shows "sup_inv cfg now (handle_closed c now d s)"
proof (cases "stopRequested s \<or> ws s \<noteq> Some c")
  case True
  then show ?thesis using inv by (auto simp: handle_closed_def)
next
  case False
  then have st: "\<not> startTask s" using inv by (auto simp: sup_inv_def spacing_ok_def)
  have "sup_inv cfg now (emit (OnClosed ''connection closed'') (Transition Backoff ''connection closed'' now s))"
    by (intro inv_emit inv_Transition) (use inv st in auto)
  then show ?thesis
    using False inv_Schedule run st d by (simp add: handle_closed_def delay_ok_def)
qed

lemma in_flight_handshake:
  assumes "sup_inv cfg now s" and "loopRunning s" and "c \<in> set (handshakes s)"
  shows "connectInFlight s" and "ws s = Some c" and "handshakes s = [c]" and "\<not> startTask s"
  using assms by (auto simp: sup_inv_def in_flight_ok_def spacing_ok_def split: if_splits)

lemma inv_handshake:
  assumes inv: "sup_inv cfg now s" and run: "loopRunning s" and c: "c \<in> set (handshakes s)"
    and d: "delay_ok s d"
  shows "sup_inv cfg now (handle_connect c r hasConn now d (s\<lparr>handshakes := remove1 c (handshakes s)\<rparr>))"
proof -
  note fl = in_flight_handshake [OF inv run c]
  let ?s = "s\<lparr>handshakes := [], connectInFlight := False\<rparr>"
  have s: "sup_inv cfg now ?s" using inv run fl by (auto simp: sup_inv_defs)
  have d': "delay_ok (Transition Backoff why now ?s) d" for why
    using d by (simp add: delay_ok_def)
  have b: "sup_inv cfg now (Transition Backoff why now ?s)" for why
    by (rule inv_Transition [OF s]) (use fl in auto)
  have f: "sup_inv cfg now (ScheduleReconnect now d (Transition Backoff why now ?s))" for why
    by (rule inv_Schedule [OF b d']) (use run fl in auto)
  have ok: "sup_inv cfg now (emit OnConnected (Transition Connected ''handshake ok'' now
       (?s\<lparr>consecutiveFailures := 0, lastEvent := now, lastPong := now\<rparr>)))"
    by (intro inv_emit inv_Transition) (use s fl in \<open>auto simp: sup_inv_defs\<close>)
  show ?thesis
    using s f ok fl by (simp add: handle_connect_def Let_def)
qed

lemma inv_timer:
  assumes inv: "sup_inv cfg now s" and run: "loopRunning s"
    and t: "(g, due) \<in> set (timers s)" and due: "due \<le> now"
  shows "sup_inv cfg now (timer_fires g now (s\<lparr>timers := remove1 (g, due) (timers s)\<rparr>))"
proof -
  let ?s = "s\<lparr>timers := remove1 (g, due) (timers s)\<rparr>"
  have st: "\<not> startTask s" using inv t by (auto simp: sup_inv_def spacing_ok_def)
  have sub: "set (live_timers ?s) \<subseteq> set (live_timers s)"
    by (auto simp: live_timers_def dest: notin_set_remove1 in_set_remove1 set_remove1_subset [THEN subsetD])
  have len: "length (live_timers ?s) + (if g = generation s then 1 else 0) = length (live_timers s)"
    using length_filter_remove1 [OF t, of "\<lambda>(g, d). g = generation s"] by (simp add: live_timers_def)
  have sinv: "sup_inv cfg now ?s"
  proof -
    have "timers_ok ?s"
      using inv len set_remove1_subset [of "(g, due)" "timers s"]
      by (fastforce simp: sup_inv_def timers_ok_def split: if_splits)
    then show ?thesis
      using inv sub st run by (auto simp: sup_inv_def in_flight_ok_def spacing_ok_def)
  qed
  show ?thesis
  proof (cases "g = generation s")
    case True
    have live: "live_timers ?s = []"
      using len True inv by (simp add: sup_inv_def timers_ok_def flip: length_0_conv)
    have "(g, due) \<in> set (live_timers s)" using t True by (simp add: live_timers_def)
    then have "attempts s \<noteq> [] \<Longrightarrow> last (attempts s) + attempt_gap cfg \<le> due"
      using inv by (auto simp: sup_inv_def spacing_ok_def)
    then have gap: "attempts ?s \<noteq> [] \<Longrightarrow> last (attempts ?s) + attempt_gap cfg \<le> now"
      using due by fastforce
    have "sup_inv cfg now (Connect now ?s)"
      by (rule inv_Connect [OF sinv _ _ live gap]) (use run st in simp_all)
    then show ?thesis using sinv by (auto simp: timer_fires_def)
  next
    case False
    then show ?thesis using sinv by (simp add: timer_fires_def)
  qed
qed

lemma inv_watchdog:
  assumes inv: "sup_inv cfg now s" and run: "loopRunning s"
  shows "sup_inv cfg now (watchdog_tick now s)"
proof -
  have force: "sup_inv cfg now (ForceReconnect why now s)" if c: "cs_st s = Connected" for why
  proof -
    let ?u = "s\<lparr>generation := generation s + 1, lastEvent := now\<rparr>"
    have st: "\<not> startTask s" using inv c by (auto simp: sup_inv_def spacing_ok_def)
    have "sup_inv cfg now ?u" using inv_bump(1) [OF inv] by simp
    then have "sup_inv cfg now (Transition Backoff why now ?u)"
      by (rule inv_Transition) (use st in auto)
    then show ?thesis by (auto simp: ForceReconnect_def Let_def intro: inv_emit split: option.splits)
  qed
  have heal: "sup_inv cfg now (Connect now (s\<lparr>generation := generation s + 1\<rparr>))"
    if c: "cs_st s = Backoff" and late: "now - lastBackoffAt s > orphan_after s"
  proof -
    have st: "\<not> startTask s" using inv c by (auto simp: sup_inv_def spacing_ok_def)
    have "attempts s \<noteq> [] \<Longrightarrow> last (attempts s) \<le> lastBackoffAt s"
      using inv c by (auto simp: sup_inv_def spacing_ok_def)
    then have "attempts s \<noteq> [] \<Longrightarrow> last (attempts s) + attempt_gap cfg \<le> now"
      using late attempt_gap_le [of cfg] by (simp add: orphan_after_def)
    then show ?thesis
      using inv_Connect [OF inv_bump(1) [OF inv]] inv_bump(2) [OF inv] run st by simp
  qed
  show ?thesis using inv force heal by (auto simp: watchdog_tick_def)
qed

lemma inv_queue_quit: "sup_inv cfg now s \<Longrightarrow> sup_inv cfg now (queue_quit s)"
  by (simp add: queue_quit_def)

lemma inv_stop: assumes inv: "sup_inv cfg now s" shows "sup_inv cfg now (RequestStop s)"
proof -
  have "sup_inv cfg now (s\<lparr>stopRequested := True, generation := generation s + 1\<rparr>)"
    using inv_bump(1) [of cfg now "s\<lparr>stopRequested := True\<rparr>"] inv by simp
  from inv_queue_quit [OF this] show ?thesis using inv by (simp add: RequestStop_def)
qed

lemma inv_fatal: assumes inv: "sup_inv cfg now s" shows "sup_inv cfg now (FatalError reason now s)"
proof -
  have "sup_inv cfg now (s\<lparr>fatal := True\<rparr>)" using inv by simp
  then have "sup_inv cfg now (Transition Error reason now (s\<lparr>fatal := True\<rparr>))"
    by (rule inv_Transition) auto
  from inv_queue_quit [OF inv_bump(1) [OF this]] show ?thesis
    using inv by (simp add: FatalError_def Let_def)
qed

lemma inv_loop_exit: assumes inv: "sup_inv cfg now s" shows "sup_inv cfg now (Run_end now s)"
proof -
  let ?s = "s\<lparr>loopRunning := False, ws := None, timers := [], handshakes := [], startTask := False, quitTasks := 0\<rparr>"
  have "sup_inv cfg now ?s" using inv by (auto simp: sup_inv_defs)
  then show ?thesis unfolding Run_end_def Let_def by (rule inv_Transition) (auto split: if_splits)
qed

lemma inv_send: "sup_inv cfg now s \<Longrightarrow> sup_inv cfg now (snd (SendText il hc text s))"
  by (auto simp: SendText_def intro: inv_emit split: option.splits)

lemma inv_quit_stop: "sup_inv cfg now s \<Longrightarrow> sup_inv cfg now (quit_task s)"
  by (auto simp: quit_task_def intro: inv_emit split: option.splits)

lemma sup_inv_step: "cs_step now s s' \<Longrightarrow> sup_inv cfg now s \<Longrightarrow> sup_inv cfg now s'"
  by (induction rule: cs_step.induct)
    (auto intro: inv_start_task inv_message inv_closed inv_handshake inv_timer inv_watchdog inv_send
      inv_stop inv_fatal inv_quit_stop inv_loop_exit)

lemma sup_inv_start: "sup_inv cfg t (Run_start cfg t (new_supervisor cfg))"
  by (auto simp: Run_start_def new_supervisor_def sup_inv_defs attempts_def Transition_def Let_def)

lemma cs_run_inv: "cs_run cfg t s \<Longrightarrow> sup_inv cfg t s"
  by (induction rule: cs_run.induct) (auto intro: sup_inv_start sup_inv_step sup_inv_later)

subsection \<open>What the guards give\<close>

lemma spaced_span:
  assumes "successively (\<lambda>a b. a + d \<le> (b::int)) xs" and "xs \<noteq> []"
  shows "hd xs + int (length xs - 1) * d \<le> last xs"
  using assms
proof (induction xs rule: induct_list012)
  case (3 x y zs)
  then have "hd (y # zs) + int (length (y # zs) - 1) * d \<le> last (y # zs)" by simp
  moreover have "x + d \<le> y" using 3 by simp
  ultimately show ?case by (simp add: algebra_simps)
qed simp_all

text \<open>A halted run starts nothing: the handlers and the loop's own work leave \<open>attempts\<close> alone.\<close>

lemma Connect_halted: "halted s \<Longrightarrow> Connect now s = s"
  by (simp add: Connect_def)

lemma Schedule_halted: "halted s \<Longrightarrow> ScheduleReconnect now d s = s"
  by (simp add: ScheduleReconnect_def)

lemma halted_simps [simp]:
  "halted (emit e s) = halted s" "halted (Transition st r now s) = halted s"
  "halted (s\<lparr>timers := ts\<rparr>) = halted s" "halted (s\<lparr>handshakes := hs\<rparr>) = halted s"
  "halted (s\<lparr>connectInFlight := b\<rparr>) = halted s" "halted (s\<lparr>startTask := b\<rparr>) = halted s"
  "halted (s\<lparr>lastEvent := m\<rparr>) = halted s" "halted (s\<lparr>lastPong := m\<rparr>) = halted s"
  "halted (s\<lparr>generation := n\<rparr>) = halted s" "halted (s\<lparr>quitTasks := n\<rparr>) = halted s"
  by (simp_all add: halted_def)

lemma halted_queue_quit [simp]: "halted (queue_quit s) = halted s" "attempts (queue_quit s) = attempts s"
  by (simp_all add: queue_quit_def)

definition quiet :: "supervisor \<Rightarrow> supervisor \<Rightarrow> bool" where
  "quiet s t \<longleftrightarrow> halted t \<and> attempts t = attempts s"

lemma quiet_closed: "halted s \<Longrightarrow> quiet s (handle_closed c now d s)"
  by (simp add: quiet_def handle_closed_def Schedule_halted)

lemma quiet_connect:
  assumes "halted s"
  shows "quiet s (handle_connect c r hc now d (s\<lparr>handshakes := hs\<rparr>))"
  using assms by (simp add: quiet_def handle_connect_def Let_def)

lemma quiet_message: "halted s \<Longrightarrow> quiet s (handle_message c ty text now s)"
  by (simp add: quiet_def handle_message_def Let_def)

lemma quiet_timer: "halted s \<Longrightarrow> quiet s (timer_fires g now (s\<lparr>timers := ts\<rparr>))"
  by (simp add: quiet_def timer_fires_def)

lemma quiet_exit: "halted s \<Longrightarrow> quiet s (Run_end now s)"
  by (simp add: quiet_def Run_end_def Let_def) (simp add: halted_def)

lemma quiet_stop: "halted s \<Longrightarrow> quiet s (RequestStop s)"
  by (auto simp: quiet_def RequestStop_def) (simp add: halted_def)

lemma quiet_fatal: "halted s \<Longrightarrow> quiet s (FatalError reason now s)"
  by (auto simp: quiet_def FatalError_def Let_def) (simp add: halted_def)

lemma quiet_send: "halted s \<Longrightarrow> quiet s (snd (SendText il hc text s))"
  by (auto simp: quiet_def SendText_def split: option.splits)

lemma quiet_step: "cs_step now s t \<Longrightarrow> halted s \<Longrightarrow> quiet s t"
proof (induction rule: cs_step.induct)
  case (quit_stop s)
  then show ?case by (auto simp: quiet_def quit_task_def split: option.splits)
qed (simp_all add: quiet_closed quiet_connect quiet_message quiet_timer quiet_exit quiet_stop
  quiet_fatal quiet_send, simp_all add: quiet_def Connect_halted watchdog_tick_def)

inductive cs_later :: "supervisor \<Rightarrow> supervisor \<Rightarrow> bool" where
  here: "cs_later s s"
| more: "cs_later s t \<Longrightarrow> cs_step now t u \<Longrightarrow> cs_later s u"

lemma quiet_later: "cs_later s t \<Longrightarrow> halted s \<Longrightarrow> quiet s t"
proof (induction rule: cs_later.induct)
  case (here s)
  then show ?case by (simp add: quiet_def)
next
  case (more s t now u)
  then show ?case using quiet_step [OF more.hyps(2)] by (simp add: quiet_def)
qed

lemma Connect_attempts:
  assumes "\<not> halted s" and "cs_st s \<noteq> Connected" and "\<not> connectInFlight s"
  shows "handshakes (Connect now s) = handshakes s @ [nextClient s]"
    and "cs_st (Connect now s) = Connecting"
  using assms by (auto simp: Connect_def Let_def split: option.splits)

subsection \<open>Properties\<close>


definition demo_cfg :: cs_config where
  "demo_cfg = default_config ''animus-email'' ''wss://mail''"

definition demo_connecting :: supervisor where
  "demo_connecting = Connect 5 ((Run_start demo_cfg 5 (new_supervisor demo_cfg))\<lparr>startTask := False\<rparr>)"

lemma demo_connecting_run: "cs_run demo_cfg 5 demo_connecting"
proof -
  have "cs_step 5 (Run_start demo_cfg 5 (new_supervisor demo_cfg)) demo_connecting"
    unfolding demo_connecting_def
    by (rule cs_step.start_task)
      (simp_all add: Run_start_def new_supervisor_def Transition_def demo_cfg_def default_config_def Let_def)
  then show ?thesis using cs_run.step [OF cs_run.start] by blast
qed

lemmas sup_eval = Run_start_def new_supervisor_def Transition_def demo_cfg_def default_config_def
  Let_def Connect_def emit_def halted_def demo_connecting_def




text \<open>The circuit breaker's cooldown is out of reach of the default configuration. The exponent
  stops at 6, so from the seventh failure on the base is at most 64 seconds: after the breaker
  has tripped the cap in force is 300 seconds, as the comment and the log line say, but every
  delay is at most 64 seconds and may be as short as 250 milliseconds.\<close>

lemma cooldown_never_reached:
  assumes "20 \<le> n"
  shows "circuit_tripped (default_config name host) n
    \<and> delay_cap (default_config name host) n = 300000
    \<and> delay_base (default_config name host) n = 64000
    \<and> delay_lo (default_config name host) n = 250"
  using assms
  by (simp add: default_config_def circuit_tripped_def delay_cap_def delay_base_def delay_lo_def backoffFloorMs_def)

lemma cooldown_never_reached_example:
  "delay_base (default_config ''a'' ''b'') 1000 = 64000 \<and> delay_cap (default_config ''a'' ''b'') 1000 = 300000"
  using cooldown_never_reached [of 1000] by simp

text \<open>C7: stop and fatal errors are final. Once \<open>RequestStop\<close> or \<open>FatalError\<close> took effect no handler,
  timer or watchdog tick of the run starts another handshake, however long it goes on.\<close>

theorem halted_is_final:
  assumes "cs_later s t" and "halted s"
  shows "halted t \<and> attempts t = attempts s"
  using quiet_later [OF assms] by (simp add: quiet_def)

theorem halted_is_final_witness:
  "attempts (timer_fires 0 9 ((RequestStop demo_connecting)\<lparr>timers := [(0, 1)]\<rparr>)) = [5]"
proof -
  let ?s = "(RequestStop demo_connecting)\<lparr>timers := [(0, 1), (0, 1)]\<rparr>"
  have h: "halted ?s" by (simp add: RequestStop_def queue_quit_def sup_eval)
  have "cs_step 9 ?s (timer_fires 0 9 (?s\<lparr>timers := remove1 (0, 1) (timers ?s)\<rparr>))"
    by (rule cs_step.timer) (simp_all add: RequestStop_def queue_quit_def sup_eval)
  from halted_is_final [OF cs_later.more [OF cs_later.here this] h]
  show ?thesis by (simp add: RequestStop_def queue_quit_def sup_eval attempts_def)
qed

text \<open>C8: the supervisor heals itself. A running, not halted supervisor that sits in \<open>Backoff\<close> past
  the orphan threshold has an attempt under way after the next watchdog tick, whatever happened
  to its reconnect timer.\<close>

theorem watchdog_heals_orphan:
  assumes "cs_run cfg t s" and "loopRunning s" and "\<not> halted s" and "cs_st s = Backoff"
    and "lastBackoffAt s \<noteq> 0" and "now - lastBackoffAt s > max 20000 (2 * lastScheduledDelayMs s)"
  shows "\<exists>c. handshakes (watchdog_tick now s) = [c]"
proof -
  note inv = cs_run_inv [OF assms(1)]
  let ?u = "s\<lparr>generation := generation s + 1\<rparr>"
  have w: "watchdog_tick now s = Connect now ?u"
    using assms by (simp add: watchdog_tick_def orphan_after_def)
  show ?thesis
  proof (cases "connectInFlight s")
    case True
    then have "Connect now ?u = ?u" by (simp add: Connect_def)
    then show ?thesis using True inv assms(2) w by (auto simp: sup_inv_def in_flight_ok_def)
  next
    case False
    then have "handshakes s = []" using inv assms(2) by (auto simp: sup_inv_def in_flight_ok_def)
    then show ?thesis using False assms(3,4) w Connect_attempts(1) [of ?u now] by simp
  qed
qed

definition demo_backoff :: supervisor where
  "demo_backoff = handle_connect 0 NetworkFailure False 9 300 (demo_connecting\<lparr>handshakes := []\<rparr>)"

lemma demo_backoff_run: "cs_run demo_cfg 9 demo_backoff"
proof -
  have h: "handshakes demo_connecting = [0]" "loopRunning demo_connecting"
    by (simp_all add: sup_eval)
  have "cs_step 9 demo_connecting (handle_connect 0 NetworkFailure False 9 300
      (demo_connecting\<lparr>handshakes := remove1 0 (handshakes demo_connecting)\<rparr>))"
    by (rule cs_step.handshake) (use h in \<open>simp_all add: delay_ok_def delay_lo_def delay_base_def
        delay_cap_def circuit_tripped_def backoffFloorMs_def sup_eval\<close>)
  then have "cs_step 9 demo_connecting demo_backoff" using h by (simp add: demo_backoff_def)
  then show ?thesis using cs_run.step [OF demo_connecting_run] by simp
qed

theorem watchdog_heals_orphan_witness:
  "\<exists>c. handshakes (watchdog_tick 20010 demo_backoff) = [c]"
  by (rule watchdog_heals_orphan [OF demo_backoff_run])
    (simp_all add: demo_backoff_def handle_connect_def ScheduleReconnect_def sup_eval)

text \<open>The reason of a fatal error is lost when the connection closes before the loop ends, which
  is what stopping the client does: the close handler tests only \<open>m_stopRequested\<close>, so it moves
  the supervisor from \<open>Error\<close> to \<open>Backoff\<close> and tells the user that a reconnect is coming, although
  none is scheduled, and the end of \<open>Run\<close> then replaces the recorded reason by \<open>fatal\<close>.\<close>

lemma fatal_reason_lost:
  assumes "ws s = Some c" and "\<not> stopRequested s" and "\<not> fatal s"
  shows "let f = FatalError reason now s; g = handle_closed c now d f; e = Run_end now g
    in (cs_st s \<noteq> Error \<longrightarrow> lastError f = reason)
     \<and> cs_st g = Backoff \<and> last (cs_effects g) = OnClosed ''connection closed'' \<and> timers g = timers f
     \<and> cs_st e = Error \<and> lastError e = ''fatal''"
  using assms
  by (simp add: FatalError_def handle_closed_def Run_end_def queue_quit_def Transition_def emit_def
      ScheduleReconnect_def halted_def Let_def)

lemma fatal_reason_lost_example:
  "lastError (Run_end 7 (handle_closed 0 7 300 (FatalError ''auth rejected'' 7 demo_connecting))) = ''fatal''"
proof -
  have "ws demo_connecting = Some 0" "\<not> stopRequested demo_connecting" "\<not> fatal demo_connecting"
    by (simp_all add: sup_eval)
  from fatal_reason_lost [OF this] show ?thesis by (simp add: Let_def)
qed

text \<open>The ticks since the websocket was last seen connected.\<close>

definition outage :: "(ms \<times> bool) list \<Rightarrow> (ms \<times> bool) list" where
  "outage ts = rev (takeWhile (\<lambda>x. \<not> snd x) (rev ts))"

lemma outage_snoc: "outage (ts @ [(t, ok)]) = (if ok then [] else outage ts @ [(t, ok)])"
  by (simp add: outage_def)

lemma outage_nonzero: "\<forall>x \<in> set ts. fst x \<noteq> 0 \<Longrightarrow> outage ts \<noteq> [] \<Longrightarrow> fst (hd (outage ts)) \<noteq> 0"
  by (metis outage_def hd_in_set set_rev set_takeWhileD)

definition new_gate :: "ms \<Rightarrow> poll_gate" where
  "new_gate e = \<lparr>engageAfter = e, unhealthySince = 0, engaged = False\<rparr>"

definition gate_run :: "ms \<Rightarrow> (ms \<times> bool) list \<Rightarrow> poll_gate" where
  "gate_run e ts = foldl (\<lambda>g (t, ok). snd (Tick t ok g)) (new_gate e) ts"

lemma gate_run_snoc: "gate_run e (ts @ [(t, ok)]) = snd (Tick t ok (gate_run e ts))"
  by (simp add: gate_run_def)

text \<open>The fallback gate is the hysteresis it is meant to be. After any sequence of ticks the
  fallback is engaged exactly when the websocket has been down at every tick since some first
  one and a later (or the same) tick of that outage was at least \<open>engageAfter\<close> after it; one
  connected tick ends the outage and disengages.\<close>

lemma poll_gate_hysteresis:
  assumes "\<forall>x \<in> set ts. fst x \<noteq> 0"
  shows "engaged (gate_run e ts) \<longleftrightarrow> (\<exists>x \<in> set (outage ts). fst x - fst (hd (outage ts)) \<ge> e)"
proof -
  have "engageAfter (gate_run e ts) = e
     \<and> unhealthySince (gate_run e ts) = (if outage ts = [] then 0 else fst (hd (outage ts)))
     \<and> engaged (gate_run e ts) = (\<exists>x \<in> set (outage ts). fst x - fst (hd (outage ts)) \<ge> e)"
    using assms
  proof (induction ts rule: rev_induct)
    case Nil
    then show ?case by (simp add: gate_run_def new_gate_def outage_def)
  next
    case (snoc x ts)
    obtain t ok where x: "x = (t, ok)" by fastforce
    show ?case
    proof (cases "ok \<or> outage ts = []")
      case True
      then show ?thesis using snoc x by (auto simp: gate_run_snoc outage_snoc Tick_def Let_def)
    next
      case False
      then have "fst (hd (outage ts)) \<noteq> 0" using outage_nonzero snoc.prems by simp
      then show ?thesis using snoc x False by (auto simp: gate_run_snoc outage_snoc Tick_def Let_def)
    qed
  qed
  then show ?thesis by blast
qed

lemma poll_gate_hysteresis_example:
  "engaged (gate_run 60000 [(1, True), (1000, False), (31000, False), (61000, False)])"
  by (subst poll_gate_hysteresis) (simp_all add: outage_def)

end
