(* ===== verification/Text.thy ===== *)
theory Text
  imports Prelude "HOL-Library.Char_ord" "HOL-Library.List_Lexorder"
begin

text \<open>
  What the sources use of the C++ library's text functions: \<open>std::stoi\<close>, \<open>std::stoll\<close>,
  \<open>std::to_string\<close>, \<open>find\<close>, \<open>substr\<close>, \<open>std::getline\<close> on a separator and \<open>>>\<close> into words. A
  call that may throw returns an \<open>outcome\<close>: a value, an exception, or a trap of the processor
  (a division by zero ends the process, no handler runs). Strings compare byte by byte, as
  \<open>memcmp\<close> does and as SQL does on TEXT columns.
\<close>

subsection \<open>Outcomes\<close>

datatype 'a outcome = Ret 'a | Throw | Trap

fun bind_outcome :: "'a outcome \<Rightarrow> ('a \<Rightarrow> 'b outcome) \<Rightarrow> 'b outcome" where
  "bind_outcome (Ret x) f = f x"
| "bind_outcome Throw f = Throw"
| "bind_outcome Trap f = Trap"

text \<open>\<open>a && b\<close> with its short circuit.\<close>

fun and_also :: "bool outcome \<Rightarrow> bool outcome \<Rightarrow> bool outcome" where
  "and_also (Ret True) b = b"
| "and_also (Ret False) b = Ret False"
| "and_also Throw b = Throw"
| "and_also Trap b = Trap"

definition of_opt :: "'a option \<Rightarrow> 'a outcome" where
  "of_opt x = (case x of None \<Rightarrow> Throw | Some y \<Rightarrow> Ret y)"

lemma of_opt_simps [simp]: "of_opt None = Throw" "of_opt (Some x) = Ret x"
  by (auto simp: of_opt_def)

lemma and_also_True [simp]: "and_also a b = Ret True \<longleftrightarrow> a = Ret True \<and> b = Ret True"
  by (cases "(a, b)" rule: and_also.cases) auto

subsection \<open>Characters and numbers\<close>

definition is_space :: "char \<Rightarrow> bool" where
  "is_space c = (c = CHR '' '' \<or> (9 \<le> (of_char c :: nat) \<and> (of_char c :: nat) \<le> 13))"

definition is_digit :: "char \<Rightarrow> bool" where
  "is_digit c = (48 \<le> (of_char c :: nat) \<and> (of_char c :: nat) \<le> 57)"

definition digit_val :: "char \<Rightarrow> nat" where
  "digit_val c = of_char c - 48"

definition digit :: "nat \<Rightarrow> char" where
  "digit n = char_of (48 + n)"

definition digits_val :: "string \<Rightarrow> nat" where
  "digits_val s = foldl (\<lambda>a c. 10 * a + digit_val c) 0 s"

definition tolower :: "char \<Rightarrow> char" where
  "tolower c = (if 65 \<le> (of_char c :: nat) \<and> (of_char c :: nat) \<le> 90 then char_of ((of_char c :: nat) + 32) else c)"

lemma of_char_digit [simp]: "n < 10 \<Longrightarrow> of_char (digit n) = 48 + n"
  by (simp add: digit_def)

lemma is_digit_digit [simp]: "n < 10 \<Longrightarrow> is_digit (digit n)"
  by (simp add: is_digit_def)

lemma digit_val_digit [simp]: "n < 10 \<Longrightarrow> digit_val (digit n) = n"
  by (simp add: digit_val_def)

lemma digit_not_space [simp]: "is_digit c \<Longrightarrow> \<not> is_space c"
  by (auto simp: is_digit_def is_space_def)

lemma digit_less_iff: "m < 10 \<Longrightarrow> n < 10 \<Longrightarrow> digit m < digit n \<longleftrightarrow> m < n"
  by (simp add: less_char_def)

lemma digits_val_simps [simp]:
  "digits_val [] = 0"
  "digits_val (s @ [c]) = 10 * digits_val s + digit_val c"
  by (simp_all add: digits_val_def)

fun dec :: "nat \<Rightarrow> string" where
  "dec n = (if n < 10 then [digit n] else dec (n div 10) @ [digit (n mod 10)])"

declare dec.simps [simp del]

lemma dec_digits: "list_all is_digit (dec n)"
proof (induction n rule: dec.induct)
  case (1 n)
  then show ?case by (subst dec.simps) auto
qed

lemma dec_nonempty [simp]: "dec n \<noteq> []"
  by (subst dec.simps) auto

lemma digits_val_dec [simp]: "digits_val (dec n) = n"
proof (induction n rule: dec.induct)
  case (1 n)
  show ?case
  proof (cases "n < 10")
    case True
    then show ?thesis by (subst dec.simps) (simp add: digits_val_def)
  next
    case False
    then show ?thesis using 1 by (subst dec.simps) simp
  qed
qed

text \<open>\<open>strtol\<close> in base ten: leading white space, a sign, and at least one digit; what follows is
  ignored. \<open>stoi\<close> and \<open>stoll\<close> throw when there is no digit or the value does not fit.\<close>

definition strtol :: "string \<Rightarrow> int option" where
  "strtol s =
     (let s1 = dropWhile is_space s;
          neg = (s1 \<noteq> [] \<and> hd s1 = CHR ''-'');
          s2 = (if s1 \<noteq> [] \<and> (hd s1 = CHR ''-'' \<or> hd s1 = CHR ''+'') then tl s1 else s1);
          ds = takeWhile is_digit s2
      in if ds = [] then None
         else Some (if neg then - int (digits_val ds) else int (digits_val ds)))"

definition in_range :: "nat \<Rightarrow> int \<Rightarrow> int option" where
  "in_range w n = (if - (2 ^ (w - 1)) \<le> n \<and> n < 2 ^ (w - 1) then Some n else None)"

definition stoi :: "string \<Rightarrow> int option" where
  "stoi s = Option.bind (strtol s) (in_range 32)"

definition stoll :: "string \<Rightarrow> int option" where
  "stoll s = Option.bind (strtol s) (in_range 64)"

lemma strtol_digits:
  assumes "ds \<noteq> []" "list_all is_digit ds" "rest = [] \<or> \<not> is_digit (hd rest)"
  shows "strtol (ds @ rest) = Some (int (digits_val ds))"
proof -
  obtain c cs where ds: "ds = c # cs" using assms(1) by (cases ds) auto
  have dw: "dropWhile is_space (ds @ rest) = ds @ rest"
    using assms(2) ds by auto
  have sgn: "c \<noteq> CHR ''-''" "c \<noteq> CHR ''+''"
    using assms(2) ds by (auto simp: is_digit_def)
  have tw: "takeWhile is_digit (ds @ rest) = ds"
    using assms(2,3) by (cases rest) (auto simp: list_all_iff takeWhile_append2)
  show ?thesis unfolding strtol_def dw using sgn ds tw by (simp add: Let_def)
qed

lemma stoi_dec [simp]: "n < 2 ^ 31 \<Longrightarrow> stoi (dec n) = Some (int n)"
  using strtol_digits[of "dec n" "[]"] dec_digits by (simp add: stoi_def in_range_def)

subsection \<open>Searching and splitting\<close>

fun find_sub :: "string \<Rightarrow> string \<Rightarrow> nat option" where
  "find_sub p [] = (if p = [] then Some 0 else None)"
| "find_sub p (c # s) =
     (if take (length p) (c # s) = p then Some 0 else map_option Suc (find_sub p s))"

definition contains :: "string \<Rightarrow> string \<Rightarrow> bool" where
  "contains p s = (find_sub p s \<noteq> None)"

definition starts_with :: "string \<Rightarrow> string \<Rightarrow> bool" where
  "starts_with p s = (take (length p) s = p)"

text \<open>The text before and after the first \<open>c\<close>.\<close>

definition before :: "char \<Rightarrow> string \<Rightarrow> string" where
  "before c s = takeWhile (\<lambda>d. d \<noteq> c) s"

definition after :: "char \<Rightarrow> string \<Rightarrow> string" where
  "after c s = tl (dropWhile (\<lambda>d. d \<noteq> c) s)"

text \<open>\<open>getline\<close> on a separator, until the stream is at its end: a trailing separator yields no
  empty last token.\<close>

fun getline_all :: "char \<Rightarrow> string \<Rightarrow> string list" where
  "getline_all c [] = []"
| "getline_all c (d # s) =
     (if d = c then [] # getline_all c s
      else (case getline_all c s of
              [] \<Rightarrow> [[d]]
            | t # ts \<Rightarrow> (d # t) # ts))"

text \<open>\<open>stream >> word\<close> until it fails.\<close>

function words :: "string \<Rightarrow> string list" where
  "words s =
     (let s1 = dropWhile is_space s
      in if s1 = [] then []
         else takeWhile (\<lambda>c. \<not> is_space c) s1 # words (dropWhile (\<lambda>c. \<not> is_space c) s1))"
  by pat_completeness auto
termination
proof (relation "measure length")
  fix s s1 :: string
  assume s1: "s1 = dropWhile is_space s" and ne: "s1 \<noteq> []"
  then have "\<not> is_space (hd s1)" using hd_dropWhile[of is_space s] by simp
  then have "length (dropWhile (\<lambda>c. \<not> is_space c) s1) < length s1"
    using ne by (cases s1) (simp_all add: length_dropWhile_le less_Suc_eq_le)
  also have "length s1 \<le> length s" using s1 by (simp add: length_dropWhile_le)
  finally show "(dropWhile (\<lambda>c. \<not> is_space c) s1, s) \<in> measure length" by simp
qed simp

declare words.simps [simp del]

end
