(* ===== verification/Calendar.thy ===== *)
theory Calendar
  imports Text
begin

text \<open>
  The UTC calendar of \<open>gmtime_r\<close> and \<open>timegm\<close>, and the time text of
  \<open>src/kernel/scheduler/Scheduler.cpp\<close>: \<open>IsoFromUnixMs\<close>, \<open>UnixMsFromIso\<close>, \<open>GetTimeFields\<close>.
  A time is split into days and seconds, a day into 400-year eras, centuries, 4-year groups and
  years that start in March. The lemmas show that reading back what was printed returns the time
  to the second and that the printed text of two times compares as the times do, which the query
  for due schedules relies on.
\<close>

subsection \<open>Days and dates\<close>

record tm =
  tm_year :: int
  tm_mon :: int
  tm_mday :: int
  tm_hour :: int
  tm_min :: int
  tm_sec :: int
  tm_wday :: int

text \<open>First day of the year that starts on the first of March of \<open>y\<close>.\<close>

definition year_start :: "int \<Rightarrow> int" where
  "year_start y = 365 * y + y div 4 - y div 100 + y div 400 - 719468"

definition month_start :: "int \<Rightarrow> int" where
  "month_start mp = (153 * mp + 2) div 5"

text \<open>The March year of a day and the day in that year.\<close>

definition year_of :: "int \<Rightarrow> int \<times> int" where
  "year_of z =
     (let z0 = z + 719468;
          era = z0 div 146097;
          doe = z0 mod 146097;
          c = min 3 (doe div 36524);
          r = doe - c * 36524;
          q = r div 1461;
          s = r - q * 1461;
          y1 = min 3 (s div 365)
      in (400 * era + 100 * c + 4 * q + y1, s - 365 * y1))"

definition month_of :: "int \<Rightarrow> int \<times> int" where
  "month_of doy = (let mp = (5 * doy + 2) div 153 in (mp, doy - month_start mp + 1))"

text \<open>Months since March of the year 0, which orders dates as \<open>(year, month)\<close> does.\<close>

definition month_index :: "int \<Rightarrow> int \<times> int" where
  "month_index z = (let (y, doy) = year_of z; (mp, d) = month_of doy in (12 * y + mp, d))"

definition gmtime_r :: "int \<Rightarrow> tm" where
  "gmtime_r t =
     (let z = t div 86400; s = t mod 86400; (mi, d) = month_index z
      in \<lparr>tm_year = (mi + 2) div 12, tm_mon = (mi + 2) mod 12 + 1, tm_mday = d,
          tm_hour = s div 3600, tm_min = s div 60 mod 60, tm_sec = s mod 60,
          tm_wday = (z + 4) mod 7\<rparr>)"

text \<open>Fields out of range carry over, as \<open>timegm\<close> normalises them.\<close>

definition timegm :: "tm \<Rightarrow> int" where
  "timegm t =
     (let mi = 12 * tm_year t + tm_mon t - 3
      in 86400 * (year_start (mi div 12) + month_start (mi mod 12) + tm_mday t - 1)
         + 3600 * tm_hour t + 60 * tm_min t + tm_sec t)"

lemma year_of_spec:
  assumes "year_of z = (y, doy)"
  shows "z = year_start y + doy" "0 \<le> doy" "doy < year_start (y + 1) - year_start y" "doy \<le> 365"
proof -
  define z0 where "z0 = z + 719468"
  define era where "era = z0 div 146097"
  define doe where "doe = z0 mod 146097"
  define c where "c = min 3 (doe div 36524)"
  define r where "r = doe - c * 36524"
  define q where "q = r div 1461"
  define s where "s = r - q * 1461"
  define y1 where "y1 = min 3 (s div 365)"
  have y: "y = 400 * era + 100 * c + 4 * q + y1" and doy: "doy = s - 365 * y1"
    using assms[unfolded year_of_def Let_def, folded z0_def, folded era_def doe_def, folded c_def,
        folded r_def, folded q_def, folded s_def, folded y1_def]
    by (simp_all only: prod.inject)
  have z0: "z0 = 146097 * era + doe" "0 \<le> doe" "doe \<le> 146096"
    using pos_mod_bound[of 146097 z0] unfolding era_def doe_def by auto
  have c: "0 \<le> c" "c \<le> 3" "0 \<le> r" "r \<le> 36524" "c < 3 \<longrightarrow> r \<le> 36523"
    using z0 unfolding c_def r_def by (auto simp: min_def)
  have rq: "r = 1461 * q + s" "0 \<le> s" "s \<le> 1460"
    using pos_mod_bound[of 1461 r] pos_mod_sign[of 1461 r] unfolding q_def s_def minus_mult_div_eq_mod
    by (auto simp: minus_div_mult_eq_mod)
  have q: "0 \<le> q" "q \<le> 24" "0 \<le> s" "s \<le> 1460"
    using c rq by linarith+
  have q24: "q = 24 \<and> c < 3 \<longrightarrow> s \<le> 1459"
    using c unfolding s_def by auto
  have y1: "0 \<le> y1" "y1 \<le> 3" "0 \<le> doy" "doy \<le> 365" "y1 < 3 \<longrightarrow> doy \<le> 364"
    using q unfolding y1_def doy by (auto simp: min_def)
  have d4: "y div 4 = 100 * era + 25 * c + q" using y y1 by auto
  have d100: "y div 100 = 4 * era + c" using y y1 q by auto
  have d400: "y div 400 = era" using y y1 q c by auto
  have ys: "year_start y = 146097 * era + 36524 * c + 1461 * q + 365 * y1 - 719468"
    using y unfolding year_start_def d4 d100 d400 by simp
  show "z = year_start y + doy" using ys doy z0(1) unfolding z0_def s_def r_def by simp
  show "0 \<le> doy" "doy \<le> 365" using y1 by auto
  have y': "y + 1 = 400 * era + 100 * c + 4 * q + (y1 + 1)" using y by simp
  show "doy < year_start (y + 1) - year_start y"
  proof (cases "y1 < 3")
    case True
    then have "(y + 1) div 4 = 100 * era + 25 * c + q" "(y + 1) div 100 = 4 * era + c"
      "(y + 1) div 400 = era"
      using y' y1 q c by auto
    then have "year_start (y + 1) - year_start y = 365"
      unfolding year_start_def d4 d100 d400 by simp
    then show ?thesis using y1 True by simp
  next
    case False
    then have y3: "y1 = 3" using y1 by simp
    then have f4: "(y + 1) div 4 = 100 * era + 25 * c + q + 1" using y by auto
    have doyb: "q = 24 \<and> c < 3 \<longrightarrow> doy \<le> 364" using q24 doy y3 by auto
    show ?thesis
    proof (cases "q = 24")
      case True
      then have f100: "(y + 1) div 100 = 4 * era + c + 1" using y y3 by auto
      show ?thesis
      proof (cases "c = 3")
        case True
        then have "(y + 1) div 400 = era + 1" using y y3 \<open>q = 24\<close> by auto
        then show ?thesis using f4 f100 y1 unfolding year_start_def d4 d100 d400 by auto
      next
        case False
        then have "(y + 1) div 400 = era" "c < 3" using y y3 \<open>q = 24\<close> c by auto
        then show ?thesis using f4 f100 doyb \<open>q = 24\<close> unfolding year_start_def d4 d100 d400 by auto
      qed
    next
      case False
      then have "(y + 1) div 100 = 4 * era + c" "(y + 1) div 400 = era"
        using y y3 q c by auto
      then show ?thesis using f4 y1 unfolding year_start_def d4 d100 d400 by auto
    qed
  qed
qed

lemma year_start_mono: "y \<le> y' \<Longrightarrow> year_start y \<le> year_start y'"
proof -
  assume le: "y \<le> y'"
  have "y' div 100 \<le> (y + 100 * (y' - y)) div 100" using le by (intro zdiv_mono1) auto
  also have "\<dots> = y div 100 + (y' - y)" by simp
  finally have "y' div 100 \<le> y div 100 + (y' - y)" .
  moreover have "y div 4 \<le> y' div 4" "y div 400 \<le> y' div 400" using le by (auto intro: zdiv_mono1)
  ultimately show ?thesis using le unfolding year_start_def by linarith
qed

lemma month_of_spec:
  assumes "month_of doy = (mp, d)" "0 \<le> doy" "doy \<le> 365"
  shows "doy = month_start mp + d - 1" "1 \<le> d" "d \<le> month_start (mp + 1) - month_start mp" "d \<le> 31"
    "0 \<le> mp" "mp \<le> 11"
  using assms unfolding month_of_def month_start_def Let_def by (auto; presburger)+

lemma month_start_mono: "m \<le> m' \<Longrightarrow> month_start m \<le> month_start m'"
  unfolding month_start_def by (auto intro: zdiv_mono1)

definition lex_le :: "int \<times> int \<Rightarrow> int \<times> int \<Rightarrow> bool" where
  "lex_le a b = (fst a < fst b \<or> fst a = fst b \<and> snd a \<le> snd b)"

lemma year_of_mono: "z \<le> z' \<Longrightarrow> lex_le (year_of z) (year_of z')"
proof -
  assume le: "z \<le> z'"
  obtain y d where y: "year_of z = (y, d)" by fastforce
  obtain y' d' where y': "year_of z' = (y', d')" by fastforce
  have "\<not> y' < y"
  proof
    assume "y' < y"
    then have "year_start (y' + 1) \<le> year_start y" by (simp add: year_start_mono)
    then show False using year_of_spec[OF y] year_of_spec[OF y'] le by linarith
  qed
  then show ?thesis using le year_of_spec(1)[OF y] year_of_spec(1)[OF y'] y y' by (auto simp: lex_le_def)
qed

lemma month_of_mono:
  assumes le: "a \<le> b" and r: "0 \<le> a" "b \<le> 365"
  shows "lex_le (month_of a) (month_of b)"
proof -
  obtain m d where m: "month_of a = (m, d)" by fastforce
  obtain m' d' where m': "month_of b = (m', d')" by fastforce
  have s: "a = month_start m + d - 1" "1 \<le> d" using month_of_spec(1,2)[OF m] r le by auto
  have s': "b = month_start m' + d' - 1" "d' \<le> month_start (m' + 1) - month_start m'"
    using month_of_spec(1,3)[OF m'] r le by auto
  have "\<not> m' < m"
  proof
    assume "m' < m"
    then have "month_start (m' + 1) \<le> month_start m" by (simp add: month_start_mono)
    then show False using s s' le by linarith
  qed
  then show ?thesis using s s' le m m' by (auto simp: lex_le_def)
qed

lemma month_index_spec:
  assumes "month_index z = (mi, d)"
  shows "z = year_start (mi div 12) + month_start (mi mod 12) + d - 1" "1 \<le> d" "d \<le> 31"
proof -
  obtain y doy where y: "year_of z = (y, doy)" by fastforce
  obtain mp d' where m: "month_of doy = (mp, d')" by fastforce
  have mi: "mi = 12 * y + mp" "d' = d" using assms y m by (auto simp: month_index_def)
  note ys = year_of_spec[OF y]
  note ms = month_of_spec[OF m ys(2) ys(4)]
  have dm: "mi div 12 = y" "mi mod 12 = mp" using mi ms by auto
  show "z = year_start (mi div 12) + month_start (mi mod 12) + d - 1" using ys ms mi dm by simp
  show "1 \<le> d" "d \<le> 31" using ms mi by auto
qed

lemma month_index_mono: "z \<le> z' \<Longrightarrow> lex_le (month_index z) (month_index z')"
proof -
  assume le: "z \<le> z'"
  obtain y doy where y: "year_of z = (y, doy)" by fastforce
  obtain y' doy' where y': "year_of z' = (y', doy')" by fastforce
  obtain mp d where m: "month_of doy = (mp, d)" by fastforce
  obtain mp' d' where m': "month_of doy' = (mp', d')" by fastforce
  note ys = year_of_spec[OF y] and ys' = year_of_spec[OF y']
  note ms = month_of_spec[OF m ys(2) ys(4)] and ms' = month_of_spec[OF m' ys'(2) ys'(4)]
  from year_of_mono[OF le] y y' consider "y < y'" | "y = y'" "doy \<le> doy'" by (auto simp: lex_le_def)
  then show ?thesis
  proof cases
    case 1
    then show ?thesis using y y' m m' ms ms' by (auto simp: lex_le_def month_index_def)
  next
    case 2
    have "lex_le (mp, d) (mp', d')" using month_of_mono[OF 2(2)] ys ys' m m' by simp
    then show ?thesis using y y' m m' 2 by (auto simp: lex_le_def month_index_def)
  qed
qed

lemma timegm_gmtime [simp]: "timegm (gmtime_r t) = t"
proof -
  obtain mi d where m: "month_index (t div 86400) = (mi, d)" by fastforce
  have i: "12 * ((mi + 2) div 12) + ((mi + 2) mod 12 + 1) - 3 = mi"
    using mult_div_mod_eq[of 12 "mi + 2"] by simp
  define u where "u = t mod 86400"
  have "60 * (u div 60) + u mod 60 = u" by simp
  moreover have "60 * (u div 60 div 60) + u div 60 mod 60 = u div 60" by simp
  moreover have "u div 60 div 60 = u div 3600" by (simp add: div_mult2_eq flip: zdiv_zmult2_eq)
  ultimately have s: "3600 * (u div 3600) + 60 * (u div 60 mod 60) + u mod 60 = u" by linarith
  have t: "86400 * (t div 86400) + u = t" unfolding u_def by simp
  define z where "z = t div 86400"
  define k where "k = mi + 2"
  have f: "gmtime_r t = \<lparr>tm_year = k div 12, tm_mon = k mod 12 + 1, tm_mday = d,
      tm_hour = u div 3600, tm_min = u div 60 mod 60, tm_sec = u mod 60, tm_wday = (z + 4) mod 7\<rparr>"
    using m unfolding gmtime_r_def Let_def u_def z_def k_def by simp
  have "12 * (k div 12) + (k mod 12 + 1) - 3 = mi" using i unfolding k_def by simp
  then have "timegm (gmtime_r t) = 86400 * (year_start (mi div 12) + month_start (mi mod 12) + d - 1)
      + (3600 * (u div 3600) + 60 * (u div 60 mod 60) + u mod 60)"
    unfolding timegm_def f Let_def by (simp only: tm.simps add.assoc)
  also have "\<dots> = 86400 * z + u" unfolding s month_index_spec(1)[OF m, folded z_def] ..
  finally show ?thesis using t unfolding z_def by simp
qed

text \<open>The calendar is the Gregorian one: the epoch is day 0, and every month is followed by the
  first of the next after the number of days the leap year rule gives it.\<close>

definition days_in_month :: "int \<Rightarrow> int \<Rightarrow> int" where
  "days_in_month y m =
     (if m = 2 then (if y mod 4 = 0 \<and> (y mod 100 \<noteq> 0 \<or> y mod 400 = 0) then 29 else 28)
      else if m = 4 \<or> m = 6 \<or> m = 9 \<or> m = 11 then 30 else 31)"

definition day_number :: "int \<Rightarrow> int \<Rightarrow> int \<Rightarrow> int" where
  "day_number y m d = (let mi = 12 * y + m - 3 in year_start (mi div 12) + month_start (mi mod 12) + d - 1)"

lemma div_step: "0 < (k::int) \<Longrightarrow> y div k - (y - 1) div k = (if y mod k = 0 then 1 else 0)"
proof -
  assume k: "0 < k"
  define q r where "q = y div k" and "r = y mod k"
  have y: "y = q * k + r" "0 \<le> r" "r < k" using k by (auto simp: q_def r_def)
  show ?thesis
  proof (cases "r = 0")
    case True
    have "(y - 1) div k = q - 1" by (rule int_div_pos_eq[of _ _ _ "k - 1"]) (use y k True in \<open>auto simp: algebra_simps\<close>)
    then show ?thesis using True by (simp add: q_def r_def)
  next
    case False
    have "(y - 1) div k = q" by (rule int_div_pos_eq[of _ _ _ "r - 1"]) (use y k False in \<open>auto simp: algebra_simps\<close>)
    then show ?thesis using False by (simp add: q_def r_def)
  qed
qed

lemma day_number_epoch: "day_number 1970 1 1 = 0"
  by code_simp

lemma march_div: "0 \<le> i \<Longrightarrow> i < 12 \<Longrightarrow> (12 * y + i) div 12 = (y::int) \<and> (12 * y + i) mod 12 = i"
  by auto

lemma leap_sum:
  "(p400 \<Longrightarrow> p100) \<Longrightarrow> (p100 \<Longrightarrow> p4) \<Longrightarrow>
   365 + (if p4 then 1 else 0) - (if p100 then 1 else 0) + (if p400 then 1 else 0)
   = 337 + (if p4 \<and> (\<not> p100 \<or> p400) then 29 else (28::int))"
  by (cases p4; cases p100; cases p400) simp_all

lemma day_number_next_month:
  assumes "1 \<le> m" "m \<le> 12"
  shows "day_number y (m + 1) 1 = day_number y m 1 + days_in_month y m"
proof -
  have late: "day_number y m 1 = year_start y + month_start (m - 3)" if "3 \<le> m" "m \<le> 14" for m
  proof -
    have "12 * y + m - 3 = 12 * y + (m - 3)" by simp
    then show ?thesis using march_div[of "m - 3" y] that by (simp only: day_number_def Let_def)
  qed
  have early: "day_number y m 1 = year_start (y - 1) + month_start (m + 9)" if "1 \<le> m" "m \<le> 2" for m
  proof -
    have "12 * y + m - 3 = 12 * (y - 1) + (m + 9)" by simp
    then show ?thesis using march_div[of "m + 9" "y - 1"] that by (simp only: day_number_def Let_def)
  qed
  have leap: "year_start y - year_start (y - 1) = 337 + days_in_month y 2"
  proof -
    have nest: "y mod 400 = 0 \<Longrightarrow> y mod 100 = 0" "y mod 100 = 0 \<Longrightarrow> y mod 4 = 0"
      unfolding mod_0_imp_dvd dvd_eq_mod_eq_0 [symmetric] by (auto elim: dvd_trans [rotated])
    have "year_start y - year_start (y - 1)
        = 365 + (y div 4 - (y - 1) div 4) - (y div 100 - (y - 1) div 100) + (y div 400 - (y - 1) div 400)"
      unfolding year_start_def by simp
    then have "year_start y - year_start (y - 1) = 365 + (if y mod 4 = 0 then 1 else 0)
        - (if y mod 100 = 0 then 1 else 0) + (if y mod 400 = 0 then 1 else 0)"
      by (simp only: div_step zero_less_numeral)
    also have "\<dots> = 337 + (if y mod 4 = 0 \<and> (y mod 100 \<noteq> 0 \<or> y mod 400 = 0) then 29 else 28)"
      by (rule leap_sum) (erule nest)+
    finally show ?thesis by (simp only: days_in_month_def if_True refl)
  qed
  have "m = 1 \<or> m = 2 \<or> m = 3 \<or> m = 4 \<or> m = 5 \<or> m = 6 \<or> m = 7 \<or> m = 8 \<or> m = 9 \<or> m = 10 \<or> m = 11 \<or> m = 12"
    using assms by presburger
  then consider "m = 2" | "m = 1" | "m \<in> {3,4,5,6,7,8,9,10,11,12}" by blast
  then show ?thesis
  proof cases
    case 1
    then show ?thesis using leap late[of 3] early[of 2] by (simp add: month_start_def)
  next
    case 2
    then show ?thesis using early[of 1] early[of 2] by (simp add: month_start_def days_in_month_def)
  next
    case 3
    then show ?thesis using late[of m] late[of "m + 1"]
      by (elim insertE emptyE) (simp_all add: month_start_def days_in_month_def)
  qed
qed

subsection \<open>Time text\<close>

text \<open>\<open>system_clock::to_time_t\<close> truncates towards zero.\<close>

definition to_time_t :: "ms \<Rightarrow> int" where
  "to_time_t t = (if 0 \<le> t then t div 1000 else - ((- t) div 1000))"

definition pad2 :: "int \<Rightarrow> string" where
  "pad2 n = [digit (nat n div 10), digit (nat n mod 10)]"

definition put_time :: "tm \<Rightarrow> string" where
  "put_time t = dec (nat (tm_year t)) @ ''-'' @ pad2 (tm_mon t) @ ''-'' @ pad2 (tm_mday t) @ ''T''
     @ pad2 (tm_hour t) @ '':'' @ pad2 (tm_min t) @ '':'' @ pad2 (tm_sec t)"

definition IsoFromUnixMs :: "ms \<Rightarrow> string" where
  "IsoFromUnixMs t = put_time (gmtime_r (to_time_t t)) @ ''Z''"

text \<open>\<open>year, month, day, hour, minute, wday\<close>, as the six reference parameters.\<close>

record time_fields =
  f_year :: int
  f_month :: int
  f_day :: int
  f_hour :: int
  f_minute :: int
  f_wday :: int

definition GetTimeFields :: "ms \<Rightarrow> time_fields" where
  "GetTimeFields t =
     (let g = gmtime_r (to_time_t t)
      in \<lparr>f_year = tm_year g, f_month = tm_mon g, f_day = tm_mday g, f_hour = tm_hour g,
          f_minute = tm_min g, f_wday = tm_wday g\<rparr>)"

text \<open>\<open>std::get_time\<close> with \<open>"%Y-%m-%dT%H:%M:%S"\<close>: each field has exactly its digits and its range.\<close>

definition get_num :: "nat \<Rightarrow> int \<Rightarrow> int \<Rightarrow> string \<Rightarrow> (int \<times> string) option" where
  "get_num w lo hi s =
     (let ds = take w s; n = int (digits_val ds)
      in if length ds = w \<and> list_all is_digit ds \<and> lo \<le> n \<and> n \<le> hi then Some (n, drop w s) else None)"

fun get_lit :: "char \<Rightarrow> string \<Rightarrow> string option" where
  "get_lit c [] = None"
| "get_lit c (d # s) = (if c = d then Some s else None)"

definition get_time :: "string \<Rightarrow> tm option" where
  "get_time s0 =
     Option.bind (get_num 4 0 9999 (dropWhile is_space s0)) (\<lambda>(y, s).
     Option.bind (get_lit CHR ''-'' s) (\<lambda>s. Option.bind (get_num 2 1 12 s) (\<lambda>(mo, s).
     Option.bind (get_lit CHR ''-'' s) (\<lambda>s. Option.bind (get_num 2 1 31 s) (\<lambda>(d, s).
     Option.bind (get_lit CHR ''T'' s) (\<lambda>s. Option.bind (get_num 2 0 23 s) (\<lambda>(h, s).
     Option.bind (get_lit CHR '':'' s) (\<lambda>s. Option.bind (get_num 2 0 59 s) (\<lambda>(mi, s).
     Option.bind (get_lit CHR '':'' s) (\<lambda>s. Option.bind (get_num 2 0 60 s) (\<lambda>(sec, s).
     Some \<lparr>tm_year = y, tm_mon = mo, tm_mday = d, tm_hour = h, tm_min = mi, tm_sec = sec, tm_wday = 0\<rparr>)))))))))))"

definition UnixMsFromIso :: "string \<Rightarrow> int outcome" where
  "UnixMsFromIso stamp =
     (if length stamp \<ge> 25 \<and> (stamp ! 19 = CHR ''+'' \<or> stamp ! 19 = CHR ''-'')
      then (case get_time (take 19 stamp) of
              None \<Rightarrow> Ret 0
            | Some t \<Rightarrow>
                bind_outcome (of_opt (stoi (take 3 (drop 19 stamp)))) (\<lambda>offsetHours.
                bind_outcome (of_opt (stoi (take 2 (drop 23 stamp)))) (\<lambda>offsetMin.
                let tz0 = offsetHours * 3600 + offsetMin * 60;
                    tz = (if stamp ! 19 = CHR ''-'' then - tz0 else tz0)
                in Ret ((timegm t - tz) * 1000))))
      else (case get_time (if length stamp > 19 then take 19 stamp else stamp) of
              None \<Rightarrow> Ret 0
            | Some t \<Rightarrow> Ret (timegm t * 1000)))"

subsection \<open>Printing and reading\<close>

lemma int_div_less_iff: "0 < k \<Longrightarrow> (x::int) div k < n \<longleftrightarrow> x < n * k"
  using zdiv_mono1[of "n * k" x k] pos_imp_zdiv_neg_iff[of k "x - n * k"] div_mult_self4[of k n "x - n * k"]
  by (cases "x < n * k") auto

lemma gmtime_ranges:
  "1 \<le> tm_mon (gmtime_r t)" "tm_mon (gmtime_r t) \<le> 12" "1 \<le> tm_mday (gmtime_r t)" "tm_mday (gmtime_r t) \<le> 31"
  "0 \<le> tm_hour (gmtime_r t)" "tm_hour (gmtime_r t) < 24" "0 \<le> tm_min (gmtime_r t)" "tm_min (gmtime_r t) < 60"
  "0 \<le> tm_sec (gmtime_r t)" "tm_sec (gmtime_r t) < 60" "0 \<le> tm_wday (gmtime_r t)" "tm_wday (gmtime_r t) < 7"
proof -
  obtain mi d where m: "month_index (t div 86400) = (mi, d)" by fastforce
  define u where "u = t mod 86400"
  have u: "0 \<le> u" "u < 24 * 3600" unfolding u_def by simp_all
  have "u div 3600 < 24" using u by (simp add: int_div_less_iff)
  then have h: "0 \<le> u div 3600" "u div 3600 < 24" using u by (simp_all add: pos_imp_zdiv_nonneg_iff)
  have f: "tm_mon (gmtime_r t) = (mi + 2) mod 12 + 1" "tm_mday (gmtime_r t) = d"
    "tm_hour (gmtime_r t) = u div 3600" "tm_min (gmtime_r t) = u div 60 mod 60"
    "tm_sec (gmtime_r t) = u mod 60" "tm_wday (gmtime_r t) = (t div 86400 + 4) mod 7"
    using m by (simp_all only: gmtime_r_def Let_def u_def prod.case tm.simps)
  have "0 \<le> (mi + 2) mod 12" "(mi + 2) mod 12 < 12" by simp_all
  then show "1 \<le> tm_mon (gmtime_r t)" "tm_mon (gmtime_r t) \<le> 12" unfolding f by linarith+
  show "1 \<le> tm_mday (gmtime_r t)" "tm_mday (gmtime_r t) \<le> 31"
    "0 \<le> tm_hour (gmtime_r t)" "tm_hour (gmtime_r t) < 24"
    unfolding f using h month_index_spec(2,3)[OF m] by simp_all
  show "0 \<le> tm_min (gmtime_r t)" "tm_min (gmtime_r t) < 60"
    "0 \<le> tm_sec (gmtime_r t)" "tm_sec (gmtime_r t) < 60" "0 \<le> tm_wday (gmtime_r t)" "tm_wday (gmtime_r t) < 7"
    unfolding f by simp_all
qed

text \<open>The times the code meets: from the epoch to the end of the year 9999.\<close>

definition clock_range :: "ms \<Rightarrow> bool" where
  "clock_range t = (0 \<le> t \<and> t < 253402300800000)"

lemma year_range:
  assumes "0 \<le> t" "t < 253402300800"
  shows "1970 \<le> tm_year (gmtime_r t)" "tm_year (gmtime_r t) \<le> 9999"
proof -
  obtain mi d where m: "month_index (t div 86400) = (mi, d)" by fastforce
  have "0 \<le> t div 86400" "t div 86400 \<le> 2932896" using assms by auto
  from month_index_mono[OF this(1)] month_index_mono[OF this(2)]
  have "lex_le (month_index 0) (mi, d)" "lex_le (mi, d) (month_index 2932896)" using m by simp_all
  moreover have "month_index 0 = (23638, 1)" "month_index 2932896 = (119997, 31)" by code_simp+
  ultimately have "23638 \<le> mi" "mi \<le> 119997" by (auto simp: lex_le_def)
  then show "1970 \<le> tm_year (gmtime_r t)" "tm_year (gmtime_r t) \<le> 9999"
    using m by (simp_all add: gmtime_r_def Let_def)
qed

lemma dec4: "1000 \<le> n \<Longrightarrow> n < 10000 \<Longrightarrow>
  dec n = [digit (n div 1000), digit (n div 100 mod 10), digit (n div 10 mod 10), digit (n mod 10)]"
proof -
  assume n: "1000 \<le> n" "n < 10000"
  have d: "n div 1000 < 10" "\<not> n div 100 < 10" "\<not> n div 10 < 10" "\<not> n < 10" using n by auto
  have e: "n div 10 div 10 = n div 100" "n div 100 div 10 = n div 1000" by (simp_all add: div_mult2_eq [symmetric])
  show ?thesis
    by (subst dec.simps, subst dec.simps, subst dec.simps, subst dec.simps) (simp add: d e)
qed

lemma length_pad2 [simp]: "length (pad2 n) = 2"
  by (simp add: pad2_def)

lemma pad2_digits: "0 \<le> n \<Longrightarrow> n < 100 \<Longrightarrow> list_all is_digit (pad2 n) \<and> digits_val (pad2 n) = nat n"
  by (simp add: pad2_def digits_val_def)

lemma get_num_pad2:
  assumes "0 \<le> n" "n < 100" "lo \<le> n" "n \<le> hi"
  shows "get_num 2 lo hi (pad2 n @ rest) = Some (n, rest)"
  using assms pad2_digits[of n] by (simp add: get_num_def Let_def)

lemma get_num_dec4:
  assumes "1000 \<le> n" "n < 10000"
  shows "get_num 4 0 9999 (dec (nat n) @ rest) = Some (n, rest)"
proof -
  have "length (dec (nat n)) = 4" using assms by (simp add: dec4)
  then show ?thesis using assms dec_digits[of "nat n"] by (simp add: get_num_def Let_def)
qed

lemma get_lit_simps [simp]: "get_lit c (c # s) = Some s"
  by simp

lemma get_time_put_time:
  assumes "1000 \<le> tm_year g" "tm_year g < 10000" "1 \<le> tm_mon g" "tm_mon g \<le> 12" "1 \<le> tm_mday g" "tm_mday g \<le> 31"
    "0 \<le> tm_hour g" "tm_hour g < 24" "0 \<le> tm_min g" "tm_min g < 60" "0 \<le> tm_sec g" "tm_sec g < 60"
  shows "get_time (put_time g) = Some (g\<lparr>tm_wday := 0\<rparr>)"
proof -
  have "dropWhile is_space (put_time g) = put_time g"
    using assms by (simp add: put_time_def dec4)
  moreover have "get_num 2 0 60 (pad2 (tm_sec g)) = Some (tm_sec g, [])"
    using get_num_pad2[of "tm_sec g" 0 60 "[]"] assms by simp
  ultimately show ?thesis using assms
    by (cases g) (simp add: get_time_def put_time_def get_num_dec4 get_num_pad2)
qed

lemma length_put_time: "1000 \<le> tm_year g \<Longrightarrow> tm_year g < 10000 \<Longrightarrow> length (put_time g) = 19"
  by (simp add: put_time_def dec4)

lemma timegm_wday [simp]: "timegm (g\<lparr>tm_wday := w\<rparr>) = timegm g"
  by (simp add: timegm_def)

lemma iso_round_trip:
  assumes "clock_range t"
  shows "UnixMsFromIso (IsoFromUnixMs t) = Ret (t div 1000 * 1000)"
proof -
  define g where "g = gmtime_r (t div 1000)"
  have r: "0 \<le> t div 1000" "t div 1000 < 253402300800" using assms by (auto simp: clock_range_def)
  note y = year_range[OF r, folded g_def] and f = gmtime_ranges[of "t div 1000", folded g_def]
  have "IsoFromUnixMs t = put_time g @ ''Z''"
    using assms by (simp add: IsoFromUnixMs_def to_time_t_def g_def clock_range_def)
  moreover have "get_time (put_time g) = Some (g\<lparr>tm_wday := 0\<rparr>)" using y f by (intro get_time_put_time) auto
  moreover have "length (put_time g) = 19" using y by (simp add: length_put_time)
  ultimately show ?thesis by (simp add: UnixMsFromIso_def g_def)
qed

subsection \<open>Order\<close>

lemma append_le_iff:
  fixes a b x y :: string
  shows "length a = length b \<Longrightarrow> a @ x \<le> b @ y \<longleftrightarrow> a < b \<or> a = b \<and> x \<le> y"
  by (induction a b rule: list_induct2) auto

lemma append_less_iff:
  fixes a b x y :: string
  shows "length a = length b \<Longrightarrow> a @ x < b @ y \<longleftrightarrow> a < b \<or> a = b \<and> x < y"
  by (induction a b rule: list_induct2) auto

lemma digits_order:
  assumes "length xs = length ys" "list_all is_digit xs" "list_all is_digit ys"
  shows "(xs < ys \<longleftrightarrow> digits_val xs < digits_val ys) \<and> (xs = ys \<longleftrightarrow> digits_val xs = digits_val ys)"
  using assms
proof (induction xs arbitrary: ys rule: rev_induct)
  case Nil
  then show ?case by simp
next
  case (snoc a xs)
  obtain zs b where ys: "ys = zs @ [b]" using snoc.prems(1) by (cases ys rule: rev_cases) auto
  have ih: "(xs < zs \<longleftrightarrow> digits_val xs < digits_val zs) \<and> (xs = zs \<longleftrightarrow> digits_val xs = digits_val zs)"
    using snoc ys by auto
  have ab: "is_digit a" "is_digit b" using snoc.prems ys by auto
  have lt: "a < b \<longleftrightarrow> digit_val a < digit_val b" and eq: "a = b \<longleftrightarrow> digit_val a = digit_val b"
    and bound: "digit_val a < 10" "digit_val b < 10"
    using ab by (auto simp: is_digit_def digit_val_def less_char_def) (metis char_of_char le_add_diff_inverse2)
  have "xs @ [a] < zs @ [b] \<longleftrightarrow> xs < zs \<or> xs = zs \<and> a < b"
    using snoc.prems(1) ys append_less_iff[of xs zs "[a]" "[b]"] by simp
  then show ?case using ih lt eq bound ys by auto
qed

definition fields :: "tm \<Rightarrow> int list" where
  "fields g = [tm_year g, tm_mon g, tm_mday g, tm_hour g, tm_min g, tm_sec g]"

lemma put_time_less:
  assumes "fields g < fields h"
    and "1000 \<le> tm_year g" "tm_year g < 10000" "1000 \<le> tm_year h" "tm_year h < 10000"
    and "list_all (\<lambda>n. 0 \<le> n \<and> n < 100) (tl (fields g))" "list_all (\<lambda>n. 0 \<le> n \<and> n < 100) (tl (fields h))"
  shows "put_time g < put_time h"
proof -
  have p: "pad2 m < pad2 n \<longleftrightarrow> m < n" "pad2 m = pad2 n \<longleftrightarrow> m = n"
    if "0 \<le> m \<and> m < 100" "0 \<le> n \<and> n < 100" for m n
    using digits_order[of "pad2 m" "pad2 n"] pad2_digits[of m] pad2_digits[of n] that by auto
  have y: "dec (nat (tm_year g)) < dec (nat (tm_year h)) \<longleftrightarrow> tm_year g < tm_year h"
    "dec (nat (tm_year g)) = dec (nat (tm_year h)) \<longleftrightarrow> tm_year g = tm_year h"
    "length (dec (nat (tm_year g))) = length (dec (nat (tm_year h)))"
  proof -
    show l: "length (dec (nat (tm_year g))) = length (dec (nat (tm_year h)))"
      using assms(2-5) by (simp add: dec4)
    show "dec (nat (tm_year g)) < dec (nat (tm_year h)) \<longleftrightarrow> tm_year g < tm_year h"
      "dec (nat (tm_year g)) = dec (nat (tm_year h)) \<longleftrightarrow> tm_year g = tm_year h"
      using digits_order[OF l dec_digits dec_digits] assms(2-5) by auto
  qed
  have r: "0 \<le> tm_mon g \<and> tm_mon g < 100" "0 \<le> tm_mon h \<and> tm_mon h < 100"
    "0 \<le> tm_mday g \<and> tm_mday g < 100" "0 \<le> tm_mday h \<and> tm_mday h < 100"
    "0 \<le> tm_hour g \<and> tm_hour g < 100" "0 \<le> tm_hour h \<and> tm_hour h < 100"
    "0 \<le> tm_min g \<and> tm_min g < 100" "0 \<le> tm_min h \<and> tm_min h < 100"
    "0 \<le> tm_sec g \<and> tm_sec g < 100" "0 \<le> tm_sec h \<and> tm_sec h < 100"
    using assms(6,7) by (simp_all add: fields_def)
  note ps = p[OF r(1,2)] p[OF r(3,4)] p[OF r(5,6)] p[OF r(7,8)] p[OF r(9,10)]
  have cs: "c # xs < c # ys \<longleftrightarrow> xs < ys" for c and xs ys :: string by simp
  show ?thesis using assms(1)
    unfolding put_time_def fields_def append_less_iff[OF y(3)] y(1,2) append_Cons append_Nil cs
      append_less_iff[OF trans[OF length_pad2 length_pad2[symmetric]]] ps
    by simp
qed

lemma split_less:
  fixes k x y :: int
  assumes "0 < k"
  shows "x < y \<longleftrightarrow> x div k < y div k \<or> x div k = y div k \<and> x mod k < y mod k"
proof (cases "x div k = y div k")
  case True
  have "x = k * (x div k) + x mod k" "y = k * (y div k) + y mod k" by simp_all
  with True show ?thesis by (metis add_less_cancel_left less_irrefl)
next
  case False
  have "x div k \<le> y div k" if "x \<le> y" using zdiv_mono1[OF that assms] .
  moreover have "y div k \<le> x div k" if "y \<le> x" using zdiv_mono1[OF that assms] .
  ultimately show ?thesis using False by linarith
qed

lemma gmtime_less:
  assumes lt: "s < t"
  shows "fields (gmtime_r s) < fields (gmtime_r t)"
proof -
  obtain mi d where m: "month_index (s div 86400) = (mi, d)" by fastforce
  obtain mi' d' where m': "month_index (t div 86400) = (mi', d')" by fastforce
  have le: "s div 86400 \<le> t div 86400" using lt by (simp add: zdiv_mono1)
  define u v where "u = s mod 86400" and "v = t mod 86400"
  have g: "fields (gmtime_r s) = [(mi + 2) div 12, (mi + 2) mod 12 + 1, d, u div 3600, u div 60 mod 60, u mod 60]"
    "fields (gmtime_r t) = [(mi' + 2) div 12, (mi' + 2) mod 12 + 1, d', v div 3600, v div 60 mod 60, v mod 60]"
    using m m' by (simp_all add: gmtime_r_def fields_def Let_def u_def v_def)
  from month_index_mono[OF le] m m' consider "mi < mi'" | "mi = mi'" "d < d'" | "mi = mi'" "d = d'"
    by (fastforce simp: lex_le_def)
  then show ?thesis
  proof cases
    case 1
    then have "mi + 2 < mi' + 2" by simp
    then have "(mi + 2) div 12 < (mi' + 2) div 12
        \<or> (mi + 2) div 12 = (mi' + 2) div 12 \<and> (mi + 2) mod 12 < (mi' + 2) mod 12"
      using split_less[of 12 "mi + 2" "mi' + 2"] by simp
    then show ?thesis unfolding g Cons_less_Cons add_less_cancel_right by blast
  next
    case 2
    then show ?thesis unfolding g Cons_less_Cons by blast
  next
    case 3
    have "s div 86400 = t div 86400"
      using month_index_spec(1)[OF m] month_index_spec(1)[OF m'] 3 by (simp only:)
    then have uv: "u < v" using lt split_less[of 86400 s t] unfolding u_def v_def by simp
    define a b where "a = u div 60" and "b = v div 60"
    have ab: "a < b \<or> a = b \<and> u mod 60 < v mod 60"
      using uv split_less[of 60 u v] unfolding a_def b_def by simp
    have h: "u div 3600 = a div 60" "v div 3600 = b div 60"
      using zdiv_zmult2_eq[of 60 u 60] zdiv_zmult2_eq[of 60 v 60] unfolding a_def b_def by simp_all
    have "a < b \<longleftrightarrow> a div 60 < b div 60 \<or> a div 60 = b div 60 \<and> a mod 60 < b mod 60"
      by (rule split_less) simp
    with ab 3 show ?thesis unfolding g h a_def[symmetric] b_def[symmetric] Cons_less_Cons by metis
  qed
qed

lemma iso_less:
  assumes "clock_range a" "clock_range b" "a div 1000 < b div 1000"
  shows "IsoFromUnixMs a < IsoFromUnixMs b"
proof -
  define s t where "s = a div 1000" and "t = b div 1000"
  have r: "0 \<le> s" "s < 253402300800" "0 \<le> t" "t < 253402300800"
    using assms unfolding s_def t_def clock_range_def by auto
  have sm: "list_all (\<lambda>n. 0 \<le> n \<and> n < 100) (tl (fields (gmtime_r x)))" for x
    using gmtime_ranges[of x] by (simp add: fields_def)
  have "put_time (gmtime_r s) < put_time (gmtime_r t)"
    using put_time_less[OF gmtime_less[of s t]] year_range[OF r(1,2)] year_range[OF r(3,4)] sm assms(3)
    by (simp add: s_def t_def)
  moreover have "length (put_time (gmtime_r s)) = length (put_time (gmtime_r t))"
    using year_range[OF r(1,2)] year_range[OF r(3,4)] by (simp add: length_put_time)
  ultimately show ?thesis
    using assms append_less_iff[of "put_time (gmtime_r s)" "put_time (gmtime_r t)" "''Z''" "''Z''"]
    by (simp add: IsoFromUnixMs_def to_time_t_def clock_range_def s_def t_def)
qed

text \<open>What the query for due schedules relies on: text order is time order, to the second.\<close>

lemma iso_le_iff:
  assumes "clock_range a" "clock_range b"
  shows "IsoFromUnixMs a \<le> IsoFromUnixMs b \<longleftrightarrow> a div 1000 \<le> b div 1000"
proof (cases "a div 1000 = b div 1000")
  case True
  then have "IsoFromUnixMs a = IsoFromUnixMs b"
    using assms by (simp add: IsoFromUnixMs_def to_time_t_def clock_range_def)
  then show ?thesis using True by simp
next
  case False
  then consider "a div 1000 < b div 1000" | "b div 1000 < a div 1000" by linarith
  then show ?thesis
  proof cases
    case 1
    then show ?thesis using iso_less[OF assms 1] by simp
  next
    case 2
    then show ?thesis using iso_less[OF assms(2,1) 2] by (simp add: not_le)
  qed
qed

text \<open>C11: a time printed as text reads back as that time to the second, and the text of two times
  compares as the times do, to the second.\<close>

theorem iso_text:
  assumes "clock_range a" "clock_range b"
  shows "UnixMsFromIso (IsoFromUnixMs a) = Ret (a div 1000 * 1000)
    \<and> (IsoFromUnixMs a \<le> IsoFromUnixMs b \<longleftrightarrow> a div 1000 \<le> b div 1000)"
  using iso_round_trip[OF assms(1)] iso_le_iff[OF assms] by simp

theorem iso_text_witness:
  "UnixMsFromIso (IsoFromUnixMs 951868799999) = Ret 951868799000 \<and> IsoFromUnixMs 951868799999 = ''2000-02-29T23:59:59Z''
   \<and> IsoFromUnixMs 951868799999 \<le> IsoFromUnixMs 951868800000"
proof -
  have r: "clock_range 951868799999" "clock_range 951868800000" by (simp_all add: clock_range_def)
  have "IsoFromUnixMs 951868799999 = ''2000-02-29T23:59:59Z''" by code_simp
  then show ?thesis using iso_text[OF r] by simp
qed

end
