(* ===== verification/Cron.thy ===== *)
theory Cron
  imports Calendar "HOL-Library.Signed_Division"
begin

text \<open>
  When a schedule fires next, from \<open>src/kernel/scheduler/Scheduler.cpp\<close>: cron fields and
  expressions, the search for the next matching minute, and relative times such as
  \<open>in 30 minutes\<close> or \<open>tomorrow at 9am\<close>. \<open>std::stoi\<close> throws on a field without a number and a
  step of zero divides by zero: both are outcomes of the model. The clock is an argument.
\<close>

subsection \<open>Cron fields and expressions\<close>

fun cron_list :: "int \<Rightarrow> string list \<Rightarrow> bool outcome" where
  "cron_list v [] = Ret False"
| "cron_list v (token # ts) =
     (if token = ''*'' then Ret True
      else bind_outcome (of_opt (stoi token)) (\<lambda>n. if n = v then Ret True else cron_list v ts))"

definition CronFieldMatches :: "int \<Rightarrow> string \<Rightarrow> bool outcome" where
  "CronFieldMatches v field =
     (if field = ''*'' then Ret True
      else let slash = (CHR ''/'' \<in> set field) in
        bind_outcome (if slash then of_opt (stoi (after CHR ''/'' field)) else Ret 1) (\<lambda>step.
          let range = (if slash then before CHR ''/'' field else field) in
          if range = ''*'' then (if step = 0 then Trap else Ret (v smod step = 0))
          else if CHR ''-'' \<in> set range then
            bind_outcome (of_opt (stoi (before CHR ''-'' range))) (\<lambda>lo.
            bind_outcome (of_opt (stoi (after CHR ''-'' range))) (\<lambda>hi.
              if v < lo \<or> v > hi then Ret False
              else if step = 0 then Trap else Ret ((v - lo) smod step = 0)))
          else if CHR '','' \<in> set range then cron_list v (getline_all CHR '','' range)
          else bind_outcome (of_opt (stoi range)) (\<lambda>n. Ret (n = v))))"

definition CronMatchesExpr :: "string \<Rightarrow> time_fields \<Rightarrow> bool outcome" where
  "CronMatchesExpr expr f =
     (let fs = take 6 (words expr) in
      if length fs = 5 then
        and_also (CronFieldMatches (f_minute f) (fs ! 0))
        (and_also (CronFieldMatches (f_hour f) (fs ! 1))
        (and_also (CronFieldMatches (f_day f) (fs ! 2))
        (and_also (CronFieldMatches (f_month f) (fs ! 3)) (CronFieldMatches (f_wday f) (fs ! 4)))))
      else if length fs = 6 then
        bind_outcome (of_opt (stoi (fs ! 0))) (\<lambda>sec.
        and_also (CronFieldMatches sec (fs ! 0))
        (and_also (CronFieldMatches (f_minute f) (fs ! 1))
        (and_also (CronFieldMatches (f_hour f) (fs ! 2))
        (and_also (CronFieldMatches (f_day f) (fs ! 3))
        (and_also (CronFieldMatches (f_month f) (fs ! 4)) (CronFieldMatches (f_wday f) (fs ! 5)))))))
      else Ret False)"

definition CronMatches :: "string \<Rightarrow> ms \<Rightarrow> bool outcome" where
  "CronMatches expr t = CronMatchesExpr expr (GetTimeFields t)"

subsection \<open>The next fire\<close>

function cron_scan :: "string \<Rightarrow> ms \<Rightarrow> ms \<Rightarrow> string outcome" where
  "cron_scan expr t limit =
     (if t < limit then
        (case CronMatches expr t of
           Ret m \<Rightarrow> if m then Ret (IsoFromUnixMs t) else cron_scan expr (t + 60000) limit
         | Throw \<Rightarrow> Throw
         | Trap \<Rightarrow> Trap)
      else Ret '''')"
  by pat_completeness auto
termination by (relation "measure (\<lambda>(e, t, l). nat (l - t))") auto

declare cron_scan.simps [simp del]

definition kMaxCronLookaheadYears :: int where "kMaxCronLookaheadYears = 5"

definition ComputeNextFireImpl :: "ms \<Rightarrow> string \<Rightarrow> string \<Rightarrow> string outcome" where
  "ComputeNextFireImpl now cronExpr lastFireIso =
     (if cronExpr = '''' \<or> cronExpr = ''* * * * *'' then Ret (IsoFromUnixMs (now + 60000))
      else bind_outcome (if lastFireIso = '''' then Ret now else UnixMsFromIso lastFireIso) (\<lambda>base0.
        let base = (if base0 \<le> 0 then now else base0)
        in cron_scan cronExpr (base + 60000)
             (base + kMaxCronLookaheadYears * 365 * 24 * 3600 * 1000)))"

subsection \<open>Relative times\<close>

definition is_trim :: "char \<Rightarrow> bool" where
  "is_trim c = (c = CHR '' '' \<or> c = CHR 0x09 \<or> c = CHR 0x0A \<or> c = CHR 0x0D)"

definition trim :: "string \<Rightarrow> string" where
  "trim s = rev (dropWhile is_trim (rev (dropWhile is_trim s)))"

definition hour_minute :: "string \<Rightarrow> bool \<Rightarrow> (int \<times> int) option" where
  "hour_minute num colon =
     (if colon then Option.bind (stoi (before CHR '':'' num)) (\<lambda>h.
                      map_option (Pair h) (stoi (after CHR '':'' num)))
      else map_option (\<lambda>h. (h, 0)) (stoi num))"

definition parse_clock :: "string \<Rightarrow> (int \<times> int) option" where
  "parse_clock t =
     (case find_sub ''am'' t of
        Some i \<Rightarrow> map_option (\<lambda>(h, m). (if h = 12 then 0 else h, m))
                   (hour_minute (take i t) (CHR '':'' \<in> set (take i t)))
      | None \<Rightarrow>
        (case find_sub ''pm'' t of
           Some i \<Rightarrow> map_option (\<lambda>(h, m). (if h \<noteq> 12 then h + 12 else h, m))
                      (hour_minute (take i t) (CHR '':'' \<in> set (take i t)))
         | None \<Rightarrow> hour_minute t (CHR '':'' \<in> set t)))"

definition relative_offset :: "string \<Rightarrow> ms option" where
  "relative_offset rest =
     (if contains ''minute'' rest then map_option (\<lambda>n. n * 60 * 1000) (stoll rest)
      else if contains ''hour'' rest then map_option (\<lambda>n. n * 60 * 60 * 1000) (stoll rest)
      else if contains ''second'' rest then map_option (\<lambda>n. n * 1000) (stoll rest)
      else None)"

definition ParseRelativeTime :: "ms \<Rightarrow> string \<Rightarrow> string" where
  "ParseRelativeTime now when_text =
     (let s = trim (map tolower when_text) in
      if s = '''' then ''''
      else if starts_with ''in '' s then
        (case relative_offset (drop 3 s) of None \<Rightarrow> '''' | Some off \<Rightarrow> IsoFromUnixMs (now + off))
      else if starts_with ''tomorrow'' s then
        (let f = GetTimeFields (now + 24 * 60 * 60 * 1000);
             hm = (case find_sub ''at '' s of
                     None \<Rightarrow> Some (f_hour f, f_minute f)
                   | Some p \<Rightarrow> parse_clock (drop (p + 3) s))
         in case hm of
              None \<Rightarrow> ''''
            | Some (h, m) \<Rightarrow>
                IsoFromUnixMs (timegm \<lparr>tm_year = f_year f, tm_mon = f_month f, tm_mday = f_day f,
                  tm_hour = h, tm_min = m, tm_sec = 0, tm_wday = 0\<rparr> * 1000))
      else '''')"

subsection \<open>What a cron field means\<close>

text \<open>The forms of a field the code understands, as text and as sets of values.\<close>

datatype cron_field =
  Any | Every nat | Value nat | Span nat nat | SpanEvery nat nat nat | Values nat nat "nat list"

fun commas :: "nat \<Rightarrow> nat list \<Rightarrow> string" where
  "commas n [] = dec n"
| "commas n (m # ms) = dec n @ '','' @ commas m ms"

fun field_text :: "cron_field \<Rightarrow> string" where
  "field_text Any = ''*''"
| "field_text (Every n) = ''*/'' @ dec n"
| "field_text (Value n) = dec n"
| "field_text (Span a b) = dec a @ ''-'' @ dec b"
| "field_text (SpanEvery a b n) = dec a @ ''-'' @ dec b @ ''/'' @ dec n"
| "field_text (Values n m ms) = commas n (m # ms)"

fun field_ok :: "cron_field \<Rightarrow> bool" where
  "field_ok Any = True"
| "field_ok (Every n) = (0 < n \<and> n < 2 ^ 31)"
| "field_ok (Value n) = (n < 2 ^ 31)"
| "field_ok (Span a b) = (a < 2 ^ 31 \<and> b < 2 ^ 31)"
| "field_ok (SpanEvery a b n) = (a < 2 ^ 31 \<and> b < 2 ^ 31 \<and> 0 < n \<and> n < 2 ^ 31)"
| "field_ok (Values n m ms) = list_all (\<lambda>n. n < 2 ^ 31) (n # m # ms)"

fun field_holds :: "cron_field \<Rightarrow> nat \<Rightarrow> bool" where
  "field_holds Any v = True"
| "field_holds (Every n) v = (n dvd v)"
| "field_holds (Value n) v = (v = n)"
| "field_holds (Span a b) v = (a \<le> v \<and> v \<le> b)"
| "field_holds (SpanEvery a b n) v = (a \<le> v \<and> v \<le> b \<and> n dvd (v - a))"
| "field_holds (Values n m ms) v = (v \<in> set (n # m # ms))"

lemma dec_set: "c \<in> set (dec n) \<Longrightarrow> is_digit c"
  using dec_digits[of n] by (simp add: list_all_iff)

lemma dec_no [simp]:
  "CHR ''/'' \<notin> set (dec n)" "CHR ''-'' \<notin> set (dec n)" "CHR '','' \<notin> set (dec n)" "CHR ''*'' \<notin> set (dec n)"
  "CHR '':'' \<notin> set (dec n)" "CHR '' '' \<notin> set (dec n)"
  using dec_set[of _ n] by (force simp: is_digit_def)+

lemma before_after [simp]:
  "c \<notin> set a \<Longrightarrow> before c (a @ c # b) = a"
  "c \<notin> set a \<Longrightarrow> after c (a @ c # b) = b"
  by (induction a) (auto simp: before_def after_def)

lemma dec_not_star [simp]: "dec n \<noteq> ''*''" "dec n @ x # y \<noteq> ''*''"
proof -
  show "dec n \<noteq> ''*''" using dec_no(4)[of n] by (metis list.set_intros(1))
  show "dec n @ x # y \<noteq> ''*''"
    using dec_no(4)[of n] dec_nonempty[of n] by (cases "dec n") auto
qed

lemma getline_single: "c \<notin> set s \<Longrightarrow> s \<noteq> [] \<Longrightarrow> getline_all c s = [s]"
proof (induction s)
  case (Cons d s)
  then show ?case by (cases s) auto
qed simp

lemma getline_append: "c \<notin> set s \<Longrightarrow> getline_all c (s @ c # r) = s # getline_all c r"
  by (induction s) auto

lemma getline_commas [simp]: "getline_all CHR '','' (commas n ms) = map dec (n # ms)"
proof (induction ms arbitrary: n)
  case Nil
  then show ?case by (simp add: getline_single)
next
  case (Cons m ms)
  then show ?case by (simp add: getline_append)
qed

lemma cron_list_dec: "list_all (\<lambda>n. n < 2 ^ 31) ns \<Longrightarrow> cron_list (int v) (map dec ns) = Ret (v \<in> set ns)"
  by (induction ns) auto

lemma commas_set: "set (commas n ms) \<subseteq> insert CHR '','' (Collect is_digit)"
  by (induction ms arbitrary: n) (use dec_set in auto)

lemma commas_no [simp]:
  "CHR ''/'' \<notin> set (commas n ms)" "CHR ''-'' \<notin> set (commas n ms)" "commas n ms \<noteq> ''*''"
  using commas_set[of n ms] by (force simp: is_digit_def)+

lemma smod_dvd [simp]: "int v smod int n = 0 \<longleftrightarrow> n dvd v"
  by (cases "v = 0") (auto simp: signed_modulo_int_def signed_divide_int_def sgn_if
      dvd_eq_mod_eq_0 zmod_int [symmetric] minus_div_mult_eq_mod)

lemma cron_field_text:
  assumes "field_ok f"
  shows "CronFieldMatches (int v) (field_text f) = Ret (field_holds f v)"
  using assms
proof (cases f)
  case (SpanEvery a b n)
  have "a \<le> v \<Longrightarrow> (int v - int a) smod int n = 0 \<longleftrightarrow> n dvd v - a"
    using smod_dvd[of "v - a" n] by (simp add: of_nat_diff)
  moreover have "before CHR ''/'' (dec a @ CHR ''-'' # dec b @ CHR ''/'' # dec n) = dec a @ CHR ''-'' # dec b"
    "after CHR ''/'' (dec a @ CHR ''-'' # dec b @ CHR ''/'' # dec n) = dec n"
    using before_after[of "CHR ''/''" "dec a @ CHR ''-'' # dec b" "dec n"] by auto
  ultimately show ?thesis using assms SpanEvery by (auto simp: CronFieldMatches_def)
next
  case (Every n)
  have "before CHR ''/'' (''*/'' @ dec n) = ''*''" "after CHR ''/'' (''*/'' @ dec n) = dec n"
    by (simp_all add: before_def after_def)
  then show ?thesis using assms Every by (simp add: CronFieldMatches_def)
next
  case (Span a b)
  have "x smod 1 = 0" for x :: int by (simp add: signed_modulo_int_def signed_divide_int_def)
  then show ?thesis using assms Span by (simp add: CronFieldMatches_def)
next
  case (Values n m ms)
  then show ?thesis using assms cron_list_dec[of "n # m # ms" v]
    by (simp add: CronFieldMatches_def getline_append)
qed (auto simp: CronFieldMatches_def)

text \<open>Five fields on a line.\<close>

lemma words_one: "a \<noteq> [] \<Longrightarrow> list_all (\<lambda>c. \<not> is_space c) a \<Longrightarrow> words a = [a]"
proof -
  assume a: "a \<noteq> []" "list_all (\<lambda>c. \<not> is_space c) a"
  then have d: "dropWhile is_space a = a" by (cases a) auto
  have t: "takeWhile (\<lambda>c. \<not> is_space c) a = a" "dropWhile (\<lambda>c. \<not> is_space c) a = []"
    using a by (simp_all add: list_all_iff)
  have n: "words [] = []" by (simp add: words.simps)
  show ?thesis by (subst words.simps) (simp only: d t n a(1) Let_def if_False)
qed

lemma words_more:
  "a \<noteq> [] \<Longrightarrow> list_all (\<lambda>c. \<not> is_space c) a \<Longrightarrow> words (a @ CHR '' '' # r) = a # words r"
proof -
  assume a: "a \<noteq> []" "list_all (\<lambda>c. \<not> is_space c) a"
  then have d: "dropWhile is_space (a @ CHR '' '' # r) = a @ CHR '' '' # r" by (cases a) auto
  have sp: "is_space CHR '' ''" by (simp add: is_space_def)
  have "takeWhile (\<lambda>c. \<not> is_space c) (a @ CHR '' '' # r) = a"
    "dropWhile (\<lambda>c. \<not> is_space c) (a @ CHR '' '' # r) = CHR '' '' # r"
    using a sp by (simp_all add: takeWhile_append2 dropWhile_append2 list_all_iff)
  moreover have "words (CHR '' '' # r) = words r"
    by (subst (1 2) words.simps) (simp add: sp)
  ultimately show ?thesis using a d by (subst words.simps) simp
qed

lemma field_no_space: "list_all (\<lambda>c. \<not> is_space c) (field_text f) \<and> field_text f \<noteq> []"
proof -
  have d: "list_all (\<lambda>c. \<not> is_space c) (dec n)" for n
    using dec_digits[of n] by (auto simp: list_all_iff)
  have s: "\<not> is_space CHR ''*''" "\<not> is_space CHR ''/''" "\<not> is_space CHR ''-''" "\<not> is_space CHR '',''"
    by (simp_all add: is_space_def)
  have c: "list_all (\<lambda>c. \<not> is_space c) (commas n ms)" for n ms
    by (induction ms arbitrary: n) (simp_all add: d s)
  have "commas n ms \<noteq> []" for n ms by (cases ms) auto
  then show ?thesis using d s c by (cases f) auto
qed

fun cron_text :: "cron_field list \<Rightarrow> string" where
  "cron_text [] = ''''"
| "cron_text [f] = field_text f"
| "cron_text (f # g # fs) = field_text f @ '' '' @ cron_text (g # fs)"

lemma words_cron_text: "fs \<noteq> [] \<Longrightarrow> words (cron_text fs) = map field_text fs"
  by (induction fs rule: cron_text.induct) (simp_all add: words_one words_more field_no_space)

lemma field_value:
  "field_ok f \<Longrightarrow> 0 \<le> v \<Longrightarrow> CronFieldMatches v (field_text f) = Ret (field_holds f (nat v))"
  using cron_field_text[of f "nat v"] by simp

lemma time_fields_nonneg:
  "0 \<le> f_minute (GetTimeFields t)" "0 \<le> f_hour (GetTimeFields t)" "0 \<le> f_day (GetTimeFields t)"
  "0 \<le> f_month (GetTimeFields t)" "0 \<le> f_wday (GetTimeFields t)"
  "f_minute (GetTimeFields t) < 60"
  using gmtime_ranges[of "to_time_t t"] by (auto simp: GetTimeFields_def Let_def)

text \<open>C10: a five-field expression built from the forms of \<open>cron_field\<close> never throws, and
  \<open>CronMatches\<close> accepts a time exactly when each field holds of the minute, hour, day, month and
  weekday of that time.\<close>

theorem cron_matches_fields:
  assumes "list_all field_ok [mi, h, d, mo, w]"
  shows "CronMatches (cron_text [mi, h, d, mo, w]) t =
    Ret (let f = GetTimeFields t in
         field_holds mi (nat (f_minute f)) \<and> field_holds h (nat (f_hour f)) \<and> field_holds d (nat (f_day f))
         \<and> field_holds mo (nat (f_month f)) \<and> field_holds w (nat (f_wday f)))"
proof -
  have and_also_Ret: "and_also (Ret a) (Ret b) = Ret (a \<and> b)" for a b by (cases a) auto
  have w: "words (cron_text [mi, h, d, mo, w]) = map field_text [mi, h, d, mo, w]"
    by (rule words_cron_text) simp
  show ?thesis using assms
    unfolding CronMatches_def CronMatchesExpr_def w Let_def
    by (simp add: field_value time_fields_nonneg and_also_Ret eval_nat_numeral del: field_holds.simps field_text.simps field_ok.simps)
qed

text \<open>Every ten minutes from half past to ten to, in the even hours of two months, on weekdays.\<close>

theorem cron_matches_fields_witness:
  "cron_text [SpanEvery 30 50 10, Every 2, Any, Values 1 7 [], Span 1 5] = ''30-50/10 */2 * 1,7 1-5''
   \<and> CronMatches (cron_text [SpanEvery 30 50 10, Every 2, Any, Values 1 7 [], Span 1 5]) 1783060800000 = Ret True"
proof
  show "cron_text [SpanEvery 30 50 10, Every 2, Any, Values 1 7 [], Span 1 5] = ''30-50/10 */2 * 1,7 1-5''"
    by code_simp
  have "list_all field_ok [SpanEvery 30 50 10, Every 2, Any, Values 1 7 [], Span 1 5]" by simp
  from cron_matches_fields[OF this, of 1783060800000]
  show "CronMatches (cron_text [SpanEvery 30 50 10, Every 2, Any, Values 1 7 [], Span 1 5]) 1783060800000 = Ret True"
    by (rule trans) code_simp
qed

subsection \<open>The first matching minute\<close>

lemma iso_nonempty [simp]: "IsoFromUnixMs t \<noteq> ''''"
  by (simp add: IsoFromUnixMs_def)

definition hits :: "string \<Rightarrow> ms \<Rightarrow> ms \<Rightarrow> nat \<Rightarrow> bool" where
  "hits e t limit k =
     (t + 60000 * int k < limit \<and> CronMatches e (t + 60000 * int k) = Ret True
      \<and> (\<forall>j<k. CronMatches e (t + 60000 * int j) = Ret False))"

definition misses :: "string \<Rightarrow> ms \<Rightarrow> ms \<Rightarrow> bool" where
  "misses e t limit = (\<forall>j::nat. t + 60000 * int j < limit \<longrightarrow> CronMatches e (t + 60000 * int j) = Ret False)"

lemma hits_0: "hits e t limit 0 \<longleftrightarrow> t < limit \<and> CronMatches e t = Ret True"
  by (simp add: hits_def)

lemma hits_Suc: "hits e t limit (Suc k) \<longleftrightarrow> CronMatches e t = Ret False \<and> hits e (t + 60000) limit k"
  unfolding hits_def All_less_Suc2 by (auto simp: algebra_simps)

lemma misses_step:
  "misses e t limit \<longleftrightarrow> (t < limit \<longrightarrow> CronMatches e t = Ret False) \<and> misses e (t + 60000) limit"
proof -
  have "(\<forall>j. P j) \<longleftrightarrow> P 0 \<and> (\<forall>j. P (Suc j))" for P by (metis not0_implies_Suc)
  from this[of "\<lambda>j. t + 60000 * int j < limit \<longrightarrow> CronMatches e (t + 60000 * int j) = Ret False"]
  show ?thesis unfolding misses_def by (simp add: algebra_simps)
qed

lemma cron_scan_Ret:
  "cron_scan e t limit = Ret r \<longleftrightarrow>
     (\<exists>k. hits e t limit k \<and> r = IsoFromUnixMs (t + 60000 * int k)) \<or> r = '''' \<and> misses e t limit"
proof (induction e t limit rule: cron_scan.induct)
  case (1 e t limit)
  have ex: "(\<exists>k. P k) \<longleftrightarrow> P 0 \<or> (\<exists>k. P (Suc k))" for P by (metis not0_implies_Suc)
  have split: "(\<exists>k. hits e t limit k \<and> r = IsoFromUnixMs (t + 60000 * int k)) \<longleftrightarrow>
      t < limit \<and> CronMatches e t = Ret True \<and> r = IsoFromUnixMs t \<or>
      CronMatches e t = Ret False \<and> (\<exists>k. hits e (t + 60000) limit k \<and> r = IsoFromUnixMs (t + 60000 + 60000 * int k))"
    by (subst ex) (auto simp: hits_0 hits_Suc algebra_simps)
  show ?case
  proof (cases "t < limit")
    case False
    then have "\<not> hits e (t + 60000) limit k" "misses e (t + 60000) limit" for k
      by (auto simp: hits_def misses_def)
    then show ?thesis unfolding split using False by (subst cron_scan.simps) (auto simp: misses_step[of e t])
  next
    case True
    show ?thesis
    proof (cases "CronMatches e t")
      case (Ret m)
      then show ?thesis unfolding split using True 1[OF True Ret]
        by (subst cron_scan.simps) (auto simp: misses_step[of e t])
    qed (use True in \<open>simp_all add: split cron_scan.simps[of e t] misses_step[of e t]\<close>)
  qed
qed



subsection \<open>Fields the code misreads\<close>

lemma stoi_prefix:
  "n < 2 ^ 31 \<Longrightarrow> \<not> is_digit c \<Longrightarrow> stoi (dec n @ c # s) = Some (int n)"
  using strtol_digits[of "dec n" "c # s"] dec_digits by (simp add: stoi_def in_range_def)

lemma not_digits [simp]:
  "\<not> is_digit CHR '',''" "\<not> is_digit CHR ''/''" "\<not> is_digit CHR ''-''" "\<not> is_digit CHR '':''" "\<not> is_digit CHR '' ''"
  by (simp_all add: is_digit_def)

lemma cron_mixed_forms_parts:
  assumes "a < 2 ^ 31" "b < 2 ^ 31" "c < 2 ^ 31" "0 < n" "n < 2 ^ 31"
  shows "CronFieldMatches (int v) (dec a @ ''-'' @ dec b @ '','' @ dec c) = Ret (a \<le> v \<and> v \<le> b)"
    and "CronFieldMatches (int v) (dec a @ ''/'' @ dec n) = Ret (v = a)"
    and "CronFieldMatches (int v) (dec c @ '','' @ dec a @ ''-'' @ dec b) = Ret (c \<le> v \<and> v \<le> b)"
proof -
  have one: "x smod 1 = 0" for x :: int by (simp add: signed_modulo_int_def signed_divide_int_def)
  show "CronFieldMatches (int v) (dec a @ ''-'' @ dec b @ '','' @ dec c) = Ret (a \<le> v \<and> v \<le> b)"
    using assms by (auto simp: CronFieldMatches_def stoi_prefix one)
  show "CronFieldMatches (int v) (dec a @ ''/'' @ dec n) = Ret (v = a)"
    using assms by (auto simp: CronFieldMatches_def)
  have "before CHR ''-'' (dec c @ CHR '','' # dec a @ CHR ''-'' # dec b) = dec c @ CHR '','' # dec a"
    "after CHR ''-'' (dec c @ CHR '','' # dec a @ CHR ''-'' # dec b) = dec b"
    using before_after[of "CHR ''-''" "dec c @ CHR '','' # dec a" "dec b"] by auto
  then show "CronFieldMatches (int v) (dec c @ '','' @ dec a @ ''-'' @ dec b) = Ret (c \<le> v \<and> v \<le> b)"
    using assms by (auto simp: CronFieldMatches_def stoi_prefix one)
qed

text \<open>Mixed fields lose their tail without an error: a list after a range is dropped
  (\<open>1-5,10\<close> is \<open>1-5\<close>), a step after a single value or a list is dropped (\<open>5/15\<close> is \<open>5\<close>), and a
  list that starts with a value matches nothing else once a range follows it (\<open>10,1-5\<close> is the
  range from 10 to 5).\<close>

lemma cron_mixed_forms:
  assumes "a < 2 ^ 31" "b < 2 ^ 31" "c < 2 ^ 31" "0 < n" "n < 2 ^ 31"
  shows "CronFieldMatches (int v) (dec a @ ''-'' @ dec b @ '','' @ dec c) = Ret (a \<le> v \<and> v \<le> b)
    \<and> CronFieldMatches (int v) (dec a @ ''/'' @ dec n) = Ret (v = a)
    \<and> CronFieldMatches (int v) (dec c @ '','' @ dec a @ ''-'' @ dec b) = Ret (c \<le> v \<and> v \<le> b)"
  using cron_mixed_forms_parts[OF assms] by blast

lemma cron_mixed_forms_example:
  "CronFieldMatches (int 10) (dec 1 @ ''-'' @ dec 5 @ '','' @ dec 10) = Ret False
   \<and> CronFieldMatches (int 20) (dec 5 @ ''/'' @ dec 15) = Ret False
   \<and> CronFieldMatches (int 3) (dec 10 @ '','' @ dec 1 @ ''-'' @ dec 5) = Ret False"
  using cron_mixed_forms[of 1 5 10 1 10] cron_mixed_forms[of 5 1 1 15 20] cron_mixed_forms[of 1 5 10 1 3]
  by simp

lemma cron_bad_fields_parts:
  assumes "clock_range l" "1000 \<le> l"
  shows "words e = [''*/0'', h, d, mo, w] \<Longrightarrow> ComputeNextFireImpl now e (IsoFromUnixMs l) = Trap"
    and "words e = [''*'', mi, h, d, mo, w] \<Longrightarrow> ComputeNextFireImpl now e (IsoFromUnixMs l) = Throw"
proof -
  have b0: "\<not> l div 1000 * 1000 \<le> 0" using assms(2) by linarith
  have ne: "e \<noteq> ''''" "e \<noteq> ''* * * * *''" if "words e = x # xs" "length xs = 5 \<or> x \<noteq> ''*''" for x xs
  proof -
    have "words '''' = []" by code_simp
    moreover have "words ''* * * * *'' = [''*'', ''*'', ''*'', ''*'', ''*'']" by code_simp
    ultimately show "e \<noteq> ''''" "e \<noteq> ''* * * * *''" using that by auto
  qed
  have c: "ComputeNextFireImpl now e (IsoFromUnixMs l) =
      cron_scan e (l div 1000 * 1000 + 60000) (l div 1000 * 1000 + 5 * 365 * 24 * 3600 * 1000)"
    if "e \<noteq> ''''" "e \<noteq> ''* * * * *''"
    using assms(1) b0 that unfolding ComputeNextFireImpl_def
    by (simp add: iso_round_trip kMaxCronLookaheadYears_def Let_def)
  show "ComputeNextFireImpl now e (IsoFromUnixMs l) = Trap" if w: "words e = [''*/0'', h, d, mo, w]"
  proof -
    have z: "CronFieldMatches v ''*/0'' = Trap" for v
    proof -
      have "after CHR ''/'' ''*/0'' = ''0''" "before CHR ''/'' ''*/0'' = ''*''" "stoi ''0'' = Some 0" by code_simp+
      then show ?thesis by (simp add: CronFieldMatches_def)
    qed
    have "CronMatches e t = Trap" for t by (simp add: CronMatches_def CronMatchesExpr_def w z)
    then show ?thesis using ne[OF w] by (subst c) (simp_all add: cron_scan.simps[of e])
  qed
  show "ComputeNextFireImpl now e (IsoFromUnixMs l) = Throw" if w: "words e = [''*'', mi, h, d, mo, w]"
  proof -
    have "stoi ''*'' = None" by code_simp
    then have "CronMatches e t = Throw" for t by (simp add: CronMatches_def CronMatchesExpr_def w)
    then show ?thesis using ne[OF w] by (subst c) (simp_all add: cron_scan.simps[of e])
  qed
qed

text \<open>A step of zero in the minute field divides by zero at the first time the search looks at,
  and a six-field expression whose seconds are \<open>*\<close> throws there, whatever the other fields.\<close>

lemma cron_bad_fields:
  assumes "clock_range l" "1000 \<le> l"
  shows "(words e = [''*/0'', h, d, mo, w] \<longrightarrow> ComputeNextFireImpl now e (IsoFromUnixMs l) = Trap)
    \<and> (words e = [''*'', mi, h, d, mo, w] \<longrightarrow> ComputeNextFireImpl now e (IsoFromUnixMs l) = Throw)"
  using cron_bad_fields_parts[OF assms] by blast

lemma cron_bad_fields_example:
  "ComputeNextFireImpl 0 ''*/0 9 * * *'' (IsoFromUnixMs 1783070880000) = Trap
   \<and> ComputeNextFireImpl 0 ''* */5 * * * *'' (IsoFromUnixMs 1783070880000) = Throw"
proof -
  have r: "clock_range 1783070880000" by (simp add: clock_range_def)
  have "words ''*/0 9 * * *'' = [''*/0'', ''9'', ''*'', ''*'', ''*'']"
    "words ''* */5 * * * *'' = [''*'', ''*/5'', ''*'', ''*'', ''*'', ''*'']" by code_simp+
  then show ?thesis using cron_bad_fields[OF r] by simp
qed

subsection \<open>Time offsets and relative times\<close>

lemma stoi_pad2: "0 \<le> n \<Longrightarrow> n < 100 \<Longrightarrow> stoi (pad2 n) = Some n \<and> stoi (CHR ''+'' # pad2 n) = Some n \<and> stoi (CHR ''-'' # pad2 n) = Some (- n)"
proof -
  assume n: "0 \<le> n" "n < 100"
  have t: "takeWhile is_digit (pad2 n) = pad2 n" "pad2 n \<noteq> []" "dropWhile is_space (pad2 n) = pad2 n"
    "hd (pad2 n) \<noteq> CHR ''-''" "hd (pad2 n) \<noteq> CHR ''+''"
    using pad2_digits[OF n] by (auto simp: pad2_def is_digit_def)
  have s: "\<not> is_space CHR ''+''" "\<not> is_space CHR ''-''" by (simp_all add: is_space_def)
  show ?thesis using n pad2_digits[OF n]
    by (simp add: stoi_def strtol_def in_range_def Let_def t s)
qed

text \<open>The offset of a time east of Greenwich is subtracted as it should be; for a time west of
  it the sign is applied twice to the hours and once to the minutes, so \<open>-05:00\<close> is read as
  \<open>+05:00\<close>.\<close>

lemma iso_offset_sign:
  assumes "length p = 19" "get_time p = Some g" "0 \<le> h" "h < 100" "0 \<le> m" "m < 100"
  shows "UnixMsFromIso (p @ ''+'' @ pad2 h @ '':'' @ pad2 m) = Ret ((timegm g - (3600 * h + 60 * m)) * 1000)"
    and "UnixMsFromIso (p @ ''-'' @ pad2 h @ '':'' @ pad2 m) = Ret ((timegm g - (3600 * h - 60 * m)) * 1000)"
proof -
  have u: "UnixMsFromIso (p @ c # pad2 h @ CHR '':'' # pad2 m) =
      Ret ((timegm g - (if c = CHR ''-'' then - (x * 3600 + m * 60) else x * 3600 + m * 60)) * 1000)"
    if c: "c = CHR ''+'' \<or> c = CHR ''-''" and x: "stoi (c # pad2 h) = Some x" for c x
  proof -
    let ?s = "p @ c # pad2 h @ CHR '':'' # pad2 m"
    have n: "?s ! 19 = c" using assms(1) by (metis nth_append_length)
    have l: "length ?s = 25" using assms(1) by simp
    have t: "take 19 ?s = p" using assms(1) by simp
    have d: "drop 19 ?s = c # pad2 h @ CHR '':'' # pad2 m" using assms(1) by simp
    have "drop 23 ?s = drop 4 (drop 19 ?s)" by (simp only: drop_drop) simp
    then have d2: "take 2 (drop 23 ?s) = pad2 m" unfolding d by (simp add: pad2_def)
    have d1: "take 3 (drop 19 ?s) = c # pad2 h" unfolding d by (simp add: pad2_def)
    have "25 \<le> length ?s \<and> (?s ! 19 = CHR ''+'' \<or> ?s ! 19 = CHR ''-'')" using l n c by simp
    then show ?thesis unfolding UnixMsFromIso_def t d1 d2 n using assms(2) x stoi_pad2[OF assms(5,6)]
      by (simp only: if_True simp_thms option.case of_opt_simps bind_outcome.simps Let_def)
  qed
  show "UnixMsFromIso (p @ ''+'' @ pad2 h @ '':'' @ pad2 m) = Ret ((timegm g - (3600 * h + 60 * m)) * 1000)"
    using u[of "CHR ''+''" h] stoi_pad2[OF assms(3,4)] by simp
  have "- (- h * 3600 + m * 60) = 3600 * h - 60 * m" by simp
  then show "UnixMsFromIso (p @ ''-'' @ pad2 h @ '':'' @ pad2 m) = Ret ((timegm g - (3600 * h - 60 * m)) * 1000)"
    using u[of "CHR ''-''" "- h"] stoi_pad2[OF assms(3,4)] by simp
qed

lemma iso_offset_sign_example:
  "UnixMsFromIso ''2026-05-10T09:00:00-05:00'' = UnixMsFromIso ''2026-05-10T09:00:00+05:00''"
proof -
  have g: "get_time ''2026-05-10T09:00:00'' = Some \<lparr>tm_year = 2026, tm_mon = 5, tm_mday = 10, tm_hour = 9,
      tm_min = 0, tm_sec = 0, tm_wday = 0\<rparr>" by code_simp
  have "pad2 5 = ''05''" "pad2 0 = ''00''" by code_simp+
  then show ?thesis using iso_offset_sign[OF _ g, of 5 0] by simp
qed

lemma find_sub_None: "hd p \<notin> set s \<Longrightarrow> p \<noteq> [] \<Longrightarrow> find_sub p s = None"
proof (induction s)
  case (Cons c s)
  then have "take (length p) (c # s) \<noteq> p" by (cases p) auto
  then show ?case using Cons by simp
qed simp

lemma contains_append: "contains p (a @ p @ b)"
proof (induction a)
  case Nil
  have "take (length p) (p @ b) = p" by simp
  then show ?case by (cases "p @ b") (auto simp: contains_def simp del: take_append)
next
  case (Cons c a)
  then show ?case by (auto simp: contains_def)
qed

lemma tolower_digit [simp]: "is_digit c \<Longrightarrow> tolower c = c"
  by (auto simp: is_digit_def tolower_def)

lemma map_tolower_dec [simp]: "map tolower (dec n) = dec n"
  using dec_set[of _ n] by (auto intro: map_idI)

lemma stoll_prefix:
  "n < 2 ^ 63 \<Longrightarrow> \<not> is_digit c \<Longrightarrow> stoll (dec n @ c # s) = Some (int n)"
  using strtol_digits[of "dec n" "c # s"] dec_digits by (simp add: stoll_def in_range_def)

lemma dec_no_letter: "97 \<le> (of_char c :: nat) \<Longrightarrow> c \<notin> set (dec n)"
  using dec_set[of c n] by (auto simp: is_digit_def)

lemma relative_time_parts:
  assumes "n < 2 ^ 63"
  shows "ParseRelativeTime now (''in '' @ dec n @ '' minutes'') = IsoFromUnixMs (now + int n * 60 * 1000)"
    and "ParseRelativeTime now (''in '' @ dec n @ '' hours'') = IsoFromUnixMs (now + int n * 60 * 60 * 1000)"
    and "ParseRelativeTime now (''in '' @ dec n @ '' seconds'') = IsoFromUnixMs (now + int n * 1000)"
    and "map tolower s = map tolower s' \<Longrightarrow> list_all is_trim a \<Longrightarrow> list_all is_trim b \<Longrightarrow>
         ParseRelativeTime now (a @ s @ b) = ParseRelativeTime now s'"
proof -
  have p: "ParseRelativeTime now (''in '' @ dec n @ CHR '' '' # u) =
      (case relative_offset (dec n @ CHR '' '' # u) of None \<Rightarrow> '''' | Some off \<Rightarrow> IsoFromUnixMs (now + off))"
    if u: "map tolower u = u" "u \<noteq> []" "\<not> is_trim (last u)" for u
  proof -
    let ?s = "''in '' @ dec n @ CHR '' '' # u"
    have m: "map tolower ?s = ?s" using u by (simp add: tolower_def)
    have "dropWhile is_trim ?s = ?s" by (simp add: is_trim_def)
    moreover have "dropWhile is_trim (rev ?s) = rev ?s"
      using u by (cases u rule: rev_cases) auto
    ultimately have "trim ?s = ?s" by (simp add: trim_def)
    then show ?thesis unfolding ParseRelativeTime_def m Let_def by (simp add: starts_with_def)
  qed
  have c: "\<not> contains ''minute'' (dec n @ CHR '' '' # ''hours'')" "\<not> contains ''minute'' (dec n @ CHR '' '' # ''seconds'')"
    "\<not> contains ''hour'' (dec n @ CHR '' '' # ''seconds'')"
    using dec_no_letter[of "CHR ''m''" n] dec_no_letter[of "CHR ''h''" n] by (simp_all add: contains_def find_sub_None)
  have y: "contains ''minute'' (dec n @ CHR '' '' # ''minutes'')" "contains ''hour'' (dec n @ CHR '' '' # ''hours'')"
    "contains ''second'' (dec n @ CHR '' '' # ''seconds'')"
    using contains_append[of "''minute''" "dec n @ '' ''" "''s''"] contains_append[of "''hour''" "dec n @ '' ''" "''s''"]
      contains_append[of "''second''" "dec n @ '' ''" "''s''"] by simp_all
  have lower: "map tolower ''minutes'' = ''minutes''" "map tolower ''hours'' = ''hours''" "map tolower ''seconds'' = ''seconds''"
    by code_simp+
  have s: "\<not> is_trim CHR ''s''" by (simp add: is_trim_def)
  show "ParseRelativeTime now (''in '' @ dec n @ '' minutes'') = IsoFromUnixMs (now + int n * 60 * 1000)"
    using p[OF lower(1)] y(1) s stoll_prefix[OF assms, of "CHR '' ''" "''minutes''"] by (simp add: relative_offset_def)
  show "ParseRelativeTime now (''in '' @ dec n @ '' hours'') = IsoFromUnixMs (now + int n * 60 * 60 * 1000)"
    using p[OF lower(2)] y(2) c s stoll_prefix[OF assms, of "CHR '' ''" "''hours''"] by (simp add: relative_offset_def)
  show "ParseRelativeTime now (''in '' @ dec n @ '' seconds'') = IsoFromUnixMs (now + int n * 1000)"
    using p[OF lower(3)] y(3) c s stoll_prefix[OF assms, of "CHR '' ''" "''seconds''"] by (simp add: relative_offset_def)
  show "ParseRelativeTime now (a @ s @ b) = ParseRelativeTime now s'"
    if h: "map tolower s = map tolower s'" "list_all is_trim a" "list_all is_trim b"
  proof -
    have low: "tolower c = c" if "is_trim c" for c using that by (auto simp: is_trim_def tolower_def)
    have ab: "map tolower a = a" "map tolower b = b" using h low by (auto intro!: map_idI simp: list_all_iff)
    have l: "dropWhile is_trim (a @ x) = dropWhile is_trim x" if "list_all is_trim a" for a x
      using that by (induction a) auto
    have "trim (a @ x @ b) = trim x" for x
    proof (cases "list_all is_trim x")
      case True
      then have dw: "dropWhile is_trim (x @ b) = []" "dropWhile is_trim x = []"
        using h by (auto simp: dropWhile_eq_Nil_conv list_all_iff)
      show ?thesis unfolding trim_def l[OF h(2)] dw ..
    next
      case False
      then have "dropWhile is_trim (x @ b) = dropWhile is_trim x @ b"
        by (auto simp: list_all_iff dropWhile_append1)
      then show ?thesis unfolding trim_def l[OF h(2)] using l[of "rev b"] h(3) by simp
    qed
    then show ?thesis unfolding ParseRelativeTime_def map_append ab h(1)[symmetric] by simp
  qed
qed

text \<open>\<open>in N minutes\<close>, \<open>in N hours\<close> and \<open>in N seconds\<close> name the time that much after now,
  in any letter case and with white space around it.\<close>

lemma relative_time:
  assumes "n < 2 ^ 63"
  shows "ParseRelativeTime now (''in '' @ dec n @ '' minutes'') = IsoFromUnixMs (now + int n * 60 * 1000)
    \<and> ParseRelativeTime now (''in '' @ dec n @ '' hours'') = IsoFromUnixMs (now + int n * 60 * 60 * 1000)
    \<and> ParseRelativeTime now (''in '' @ dec n @ '' seconds'') = IsoFromUnixMs (now + int n * 1000)
    \<and> (\<forall>s s' a b. map tolower s = map tolower s' \<and> list_all is_trim a \<and> list_all is_trim b \<longrightarrow>
         ParseRelativeTime now (a @ s @ b) = ParseRelativeTime now s')"
  using relative_time_parts[OF assms] by blast

lemma relative_time_example:
  "ParseRelativeTime 1783070880000 ('' '' @ ''In 30 Minutes'' @ '' '') = ''2026-07-03T09:58:00Z''"
proof -
  have d: "''in '' @ dec 30 @ '' minutes'' = ''in 30 minutes''" by code_simp
  have m: "map tolower ''In 30 Minutes'' = map tolower ''in 30 minutes''" by code_simp
  have t: "list_all is_trim '' ''" by (simp add: is_trim_def)
  have "ParseRelativeTime 1783070880000 ('' '' @ ''In 30 Minutes'' @ '' '') = ParseRelativeTime 1783070880000 ''in 30 minutes''"
    using relative_time[of 30 1783070880000, simplified] m t by blast
  also have "\<dots> = IsoFromUnixMs (1783070880000 + int 30 * 60 * 1000)"
    using relative_time[of 30 1783070880000] unfolding d by simp
  also have "\<dots> = ''2026-07-03T09:58:00Z''" by code_simp
  finally show ?thesis .
qed

end
