(* ===== verification/SchedStores.thy ===== *)
theory SchedStores
  imports Text
begin

text \<open>
  The table of schedules (\<open>src/kernel/scheduler/ScheduleStore.cpp\<close>) and what the three tables
  behind the scheduler share. A table is its list of rows, a statement is what its SQL says on
  that list; whether \<open>Prepare\<close> returns a statement, whether writing succeeds and whether
  \<open>SELECT changes()\<close> is available are facts of the connection, given as \<open>conn\<close>. \<open>ORDER BY\<close> keeps
  the order of rows with equal keys; \<open>ORDER BY ... LIMIT 1\<close> on a total order is \<open>best\<close>, over the
  linear order of \<open>rank\<close>.
\<close>

subsection \<open>The connection\<close>

record conn =
  prepares :: bool
  writes :: bool
  has_changes :: bool
  stale_changes :: int
  err_msg :: string

definition healthy :: conn where
  "healthy = \<lparr>prepares = True, writes = True, has_changes = True, stale_changes = 0, err_msg = ''''\<rparr>"

text \<open>\<open>ORDER BY ... LIMIT 1\<close> on a total order: the first of the rows with the greatest rank.\<close>

datatype rank = Rank int int int

instantiation rank :: linorder
begin

fun less_eq_rank :: "rank \<Rightarrow> rank \<Rightarrow> bool" where
  "less_eq_rank (Rank a b c) (Rank x y z) = (a < x \<or> a = x \<and> (b < y \<or> b = y \<and> c \<le> z))"

definition less_rank :: "rank \<Rightarrow> rank \<Rightarrow> bool" where
  "less_rank r s = (r \<le> s \<and> r \<noteq> s)"

instance
proof
  fix r s t :: rank
  show "(r < s) = (r \<le> s \<and> \<not> s \<le> r)" by (cases r; cases s) (auto simp: less_rank_def)
  show "r \<le> r" by (cases r) auto
  show "r \<le> s \<Longrightarrow> s \<le> t \<Longrightarrow> r \<le> t" by (cases r; cases s; cases t) auto
  show "r \<le> s \<Longrightarrow> s \<le> r \<Longrightarrow> r = s" by (cases r; cases s) auto
  show "r \<le> s \<or> s \<le> r" by (cases r; cases s) auto
qed

end

fun best_from :: "('a \<Rightarrow> rank) \<Rightarrow> 'a \<Rightarrow> 'a list \<Rightarrow> 'a" where
  "best_from f b [] = b"
| "best_from f b (x # xs) = best_from f (if f b < f x then x else b) xs"

fun best :: "('a \<Rightarrow> rank) \<Rightarrow> 'a list \<Rightarrow> 'a option" where
  "best f [] = None"
| "best f (x # xs) = Some (best_from f x xs)"

lemma best_from_spec: "best_from f b xs \<in> set (b # xs) \<and> (\<forall>x \<in> set (b # xs). f x \<le> f (best_from f b xs))"
proof (induction xs arbitrary: b)
  case (Cons x xs)
  show ?case using Cons[of x] Cons[of b] by (cases "f b < f x") (auto simp: not_less intro: order_trans less_imp_le)
qed simp

lemma best_Some: "best f xs = Some b \<Longrightarrow> b \<in> set xs \<and> (\<forall>x \<in> set xs. f x \<le> f b)"
  using best_from_spec[of f] by (cases xs) auto

lemma best_None [simp]: "best f xs = None \<longleftrightarrow> xs = []"
  by (cases xs) auto

lemma best_unique:
  assumes "inj_on f (set xs)" "b \<in> set xs" "\<forall>x \<in> set xs. f x \<le> f b"
  shows "best f xs = Some b"
proof (cases "best f xs")
  case None
  then show ?thesis using assms by auto
next
  case (Some c)
  then have "c \<in> set xs" "\<forall>x \<in> set xs. f x \<le> f c" using best_Some[OF Some] by auto
  then show ?thesis using assms Some by (metis inj_onD order_antisym)
qed

definition order_by :: "('a \<Rightarrow> 'k :: linorder) \<Rightarrow> 'a list \<Rightarrow> 'a list" where
  "order_by f xs = sort_key f xs"

text \<open>\<open>LIMIT ?\<close> with \<open>limit > 0 ? limit : -1\<close>.\<close>

definition limit_rows :: "int \<Rightarrow> 'a list \<Rightarrow> 'a list" where
  "limit_rows n xs = (if n > 0 then take (nat n) xs else xs)"

subsection \<open>Schedules\<close>

datatype schedule_type = OneShot | Recurring

record schedule =
  s_id :: string
  s_agent :: string
  s_tag :: string
  s_type :: schedule_type
  s_next_fire :: string
  s_cron :: string
  s_timezone :: string
  s_message :: string
  s_metadata :: string
  s_semantics :: string
  s_enabled :: bool
  s_created_at :: string
  s_last_fire :: string
  s_fire_count :: int
  s_max_fires :: int

text \<open>A row of \<open>schedules\<close>; columns that may be NULL are options.\<close>

record schedule_row =
  w_id :: string
  w_agent :: string
  w_tag :: string
  w_type :: string
  w_next_fire :: string
  w_cron :: "string option"
  w_timezone :: string
  w_message :: string
  w_metadata :: "string option"
  w_enabled :: int
  w_created_at :: string
  w_last_fire :: "string option"
  w_fire_count :: "int option"
  w_max_fires :: "int option"
  w_semantics :: "string option"

definition ParseType :: "string \<Rightarrow> schedule_type" where
  "ParseType s = (if s = ''recurring'' then Recurring else OneShot)"

definition TypeToString :: "schedule_type \<Rightarrow> string" where
  "TypeToString t = (if t = Recurring then ''recurring'' else ''one_shot'')"

definition or_default :: "'a \<Rightarrow> 'a option \<Rightarrow> 'a" where
  "or_default d x = (case x of None \<Rightarrow> d | Some y \<Rightarrow> y)"

definition RowToDescriptor :: "schedule_row \<Rightarrow> schedule" where
  "RowToDescriptor w =
     \<lparr>s_id = w_id w, s_agent = w_agent w, s_tag = w_tag w, s_type = ParseType (w_type w),
      s_next_fire = w_next_fire w, s_cron = or_default '''' (w_cron w), s_timezone = w_timezone w,
      s_message = w_message w, s_metadata = or_default '''' (w_metadata w),
      s_semantics = (let m = or_default ''at_least_once'' (w_semantics w) in
                     if m = '''' then ''at_least_once'' else m),
      s_enabled = (w_enabled w \<noteq> 0), s_created_at = w_created_at w,
      s_last_fire = or_default '''' (w_last_fire w), s_fire_count = or_default 0 (w_fire_count w),
      s_max_fires = or_default 0 (w_max_fires w)\<rparr>"

definition null_if :: "bool \<Rightarrow> 'a \<Rightarrow> 'a option" where
  "null_if b x = (if b then None else Some x)"

definition semantics_text :: "schedule \<Rightarrow> string" where
  "semantics_text s = (if s_semantics s = '''' then ''at_least_once'' else s_semantics s)"

text \<open>The columns an INSERT binds; the others take their defaults. \<open>newId\<close> is what
  \<open>GenerateId\<close> drew, \<open>nowIso\<close> the current time.\<close>

definition insert_row :: "string \<Rightarrow> string \<Rightarrow> schedule \<Rightarrow> schedule_row" where
  "insert_row newId nowIso s =
     \<lparr>w_id = (if s_id s = '''' then newId else s_id s), w_agent = s_agent s, w_tag = s_tag s,
      w_type = TypeToString (s_type s), w_next_fire = s_next_fire s, w_cron = Some (s_cron s),
      w_timezone = s_timezone s, w_message = s_message s, w_metadata = Some (s_metadata s),
      w_enabled = (if s_enabled s then 1 else 0),
      w_created_at = (if s_created_at s = '''' then nowIso else s_created_at s),
      w_last_fire = None, w_fire_count = Some 0,
      w_max_fires = null_if (s_max_fires s \<le> 0) (s_max_fires s), w_semantics = Some (semantics_text s)\<rparr>"

text \<open>\<open>ScheduleStore::Create\<close>: the primary key makes the INSERT fail on an id in use, and the
  result of \<open>ExecDML\<close> is not looked at.\<close>

definition Create :: "conn \<Rightarrow> string \<Rightarrow> string \<Rightarrow> schedule \<Rightarrow> schedule_row list
    \<Rightarrow> (string + unit) \<times> schedule_row list" where
  "Create c newId nowIso s rows =
     (if \<not> prepares c then (Inl (''failed to prepare schedule insert: '' @ err_msg c), rows)
      else let w = insert_row newId nowIso s in
        (Inr (), if writes c \<and> w_id w \<notin> set (map w_id rows) then rows @ [w] else rows))"

definition CreateAndReturnId :: "conn \<Rightarrow> string \<Rightarrow> string \<Rightarrow> schedule \<Rightarrow> schedule_row list
    \<Rightarrow> (string + string) \<times> schedule_row list" where
  "CreateAndReturnId c newId nowIso s rows =
     (let s' = (if s_id s = '''' then s\<lparr>s_id := newId\<rparr> else s)
      in case Create c newId nowIso s' rows of
           (Inl e, rows') \<Rightarrow> (Inl e, rows')
         | (Inr _, rows') \<Rightarrow> (Inr (s_id s'), rows'))"

definition Get :: "conn \<Rightarrow> string \<Rightarrow> schedule_row list \<Rightarrow> schedule option" where
  "Get c i rows =
     (if \<not> prepares c then None else map_option RowToDescriptor (List.find (\<lambda>w. w_id w = i) rows))"

definition List_schedules :: "conn \<Rightarrow> string \<Rightarrow> string \<Rightarrow> schedule_row list \<Rightarrow> schedule list" where
  "List_schedules c agent tag rows =
     (if \<not> prepares c then []
      else map RowToDescriptor (order_by w_next_fire
             (filter (\<lambda>w. w_agent w = agent \<and> (tag \<noteq> '''' \<longrightarrow> w_tag w = tag)) rows)))"

definition update_row :: "schedule \<Rightarrow> schedule_row \<Rightarrow> schedule_row" where
  "update_row s w =
     w\<lparr>w_agent := s_agent s, w_tag := s_tag s, w_type := TypeToString (s_type s),
       w_next_fire := s_next_fire s, w_cron := Some (s_cron s), w_timezone := s_timezone s,
       w_message := s_message s, w_metadata := Some (s_metadata s),
       w_enabled := (if s_enabled s then 1 else 0), w_last_fire := null_if (s_last_fire s = '''') (s_last_fire s),
       w_fire_count := Some (s_fire_count s), w_max_fires := null_if (s_max_fires s \<le> 0) (s_max_fires s),
       w_semantics := Some (semantics_text s)\<rparr>"

definition Update :: "conn \<Rightarrow> schedule \<Rightarrow> schedule_row list \<Rightarrow> (string + unit) \<times> schedule_row list" where
  "Update c s rows =
     (if \<not> prepares c then (Inl (''failed to prepare schedule update: '' @ err_msg c), rows)
      else (Inr (), if writes c then map (\<lambda>w. if w_id w = s_id s then update_row s w else w) rows else rows))"

definition Delete :: "conn \<Rightarrow> string \<Rightarrow> schedule_row list \<Rightarrow> (string + unit) \<times> schedule_row list" where
  "Delete c i rows =
     (if \<not> prepares c then (Inl (''failed to prepare schedule delete: '' @ err_msg c), rows)
      else let rows' = (if writes c then filter (\<lambda>w. w_id w \<noteq> i) rows else rows);
               changes = (if writes c then int (length rows - length rows') else stale_changes c)
        in (if changes = 0 then Inl (''schedule not found: '' @ i) else Inr (), rows'))"

text \<open>The comparison of \<open>next_fire\<close> with the bound is one of texts.\<close>

definition due_row :: "string \<Rightarrow> schedule_row \<Rightarrow> bool" where
  "due_row bound w = (w_enabled w = 1 \<and> w_next_fire w \<le> bound)"

definition GetDueSchedules :: "conn \<Rightarrow> string \<Rightarrow> nat \<Rightarrow> schedule_row list \<Rightarrow> schedule list" where
  "GetDueSchedules c bound limit rows =
     (if \<not> prepares c then []
      else map RowToDescriptor (take limit (order_by w_next_fire (filter (due_row bound) rows))))"

definition CountByAgent :: "conn \<Rightarrow> string \<Rightarrow> schedule_row list \<Rightarrow> int" where
  "CountByAgent c agent rows =
     (if \<not> prepares c then 0 else int (length (filter (\<lambda>w. w_agent w = agent \<and> w_enabled w = 1) rows)))"

subsection \<open>Reading back\<close>

text \<open>What a stored schedule reads back as: an id and a creation time are filled in, the fire
  history starts empty, no fire limit is 0 and no semantics is at least once.\<close>

definition stored :: "string \<Rightarrow> string \<Rightarrow> schedule \<Rightarrow> schedule" where
  "stored newId nowIso s =
     s\<lparr>s_id := (if s_id s = '''' then newId else s_id s),
       s_created_at := (if s_created_at s = '''' then nowIso else s_created_at s),
       s_last_fire := '''', s_fire_count := 0, s_max_fires := max 0 (s_max_fires s),
       s_semantics := semantics_text s\<rparr>"

lemma ParseType_TypeToString [simp]: "ParseType (TypeToString t) = t"
  by (cases t) (simp_all add: ParseType_def TypeToString_def)

lemma RowToDescriptor_insert: "RowToDescriptor (insert_row newId nowIso s) = stored newId nowIso s"
  by (cases s) (simp add: RowToDescriptor_def insert_row_def stored_def or_default_def null_if_def
      semantics_text_def Let_def)

lemma RowToDescriptor_update:
  "RowToDescriptor (update_row s w) =
     s\<lparr>s_id := w_id w, s_created_at := w_created_at w, s_max_fires := max 0 (s_max_fires s),
       s_semantics := semantics_text s\<rparr>"
  by (cases s) (simp add: RowToDescriptor_def update_row_def or_default_def null_if_def
      semantics_text_def Let_def)

lemma find_append_None: "List.find P xs = None \<Longrightarrow> List.find P (xs @ ys) = List.find P ys"
  by (induction xs) (auto split: if_splits)

lemma find_SomeD: "List.find P xs = Some x \<Longrightarrow> x \<in> set xs \<and> P x"
  by (induction xs) (auto split: if_splits)

lemma length_filter_less_iff:
  "length (filter (\<lambda>w. w_id w \<noteq> i) rows) < length rows \<longleftrightarrow> i \<in> set (map w_id rows)"
proof (induction rows)
  case (Cons w rows)
  then show ?case using length_filter_le[of "\<lambda>w. w_id w \<noteq> i" rows] by (auto simp: less_Suc_eq_le)
qed simp

lemma find_id_None: "i \<notin> set (map w_id rows) \<Longrightarrow> List.find (\<lambda>w. w_id w = i) rows = None"
  by (induction rows) auto

lemma id_insert [simp]: "w_id (insert_row newId nowIso s) = (if s_id s = '''' then newId else s_id s)"
  by (simp add: insert_row_def)

lemma id_update [simp]: "w_id (update_row s w) = w_id w"
  by (simp add: update_row_def)

lemma find_map_update:
  "i \<in> set (map w_id rows) \<Longrightarrow>
   \<exists>w. List.find (\<lambda>w. w_id w = i) (map (\<lambda>w. if w_id w = i then update_row s w else w) rows) = Some (update_row s w)
     \<and> List.find (\<lambda>w. w_id w = i) rows = Some w"
  by (induction rows) auto

lemma create_get:
  assumes c: "prepares c" "writes c"
    and r: "CreateAndReturnId c newId nowIso s rows = (Inr i, rows')" and i: "i \<notin> set (map w_id rows)"
  shows "Get c i rows' = Some (stored newId nowIso s) \<and> (\<forall>j. j \<noteq> i \<longrightarrow> Get c j rows' = Get c j rows)"
proof -
  define s' where "s' = (if s_id s = [] then s\<lparr>s_id := newId\<rparr> else s)"
  have w: "w_id (insert_row newId nowIso s') = s_id s'" by (simp add: s'_def)
  have e: "i = s_id s'" "rows' = rows @ [insert_row newId nowIso s']"
    using r i c w by (auto simp: CreateAndReturnId_def Create_def Let_def s'_def split: if_splits)
  have "stored newId nowIso s' = stored newId nowIso s"
    by (cases s) (simp add: stored_def s'_def semantics_text_def)
  moreover have "List.find (\<lambda>w. w_id w = i) rows' = Some (insert_row newId nowIso s')"
    using find_append_None[OF find_id_None[OF i]] w e by simp
  moreover have "List.find (\<lambda>w. w_id w = j) (rows @ [x]) = List.find (\<lambda>w. w_id w = j) rows" if "w_id x \<noteq> j" for j x
    using that by (induction rows) auto
  ultimately show ?thesis
    using c e w RowToDescriptor_insert[of newId nowIso s'] by (auto simp: Get_def)
qed

lemma update_get:
  assumes c: "prepares c" "writes c" and r: "Update c s rows = (r, rows')" and g: "Get c (s_id s) rows = Some old"
  shows "Get c (s_id s) rows' = Some (s\<lparr>s_created_at := s_created_at old, s_max_fires := max 0 (s_max_fires s),
        s_semantics := semantics_text s\<rparr>) \<and> (\<forall>j. j \<noteq> s_id s \<longrightarrow> Get c j rows' = Get c j rows)"
proof -
  have rows': "rows' = map (\<lambda>w. if w_id w = s_id s then update_row s w else w) rows"
    using r c by (auto simp: Update_def)
  obtain z where "List.find (\<lambda>w. w_id w = s_id s) rows = Some z" using g c by (auto simp: Get_def)
  then have "s_id s \<in> set (map w_id rows)" by (force dest: find_SomeD)
  then obtain w where w: "List.find (\<lambda>w. w_id w = s_id s) rows' = Some (update_row s w)"
    "List.find (\<lambda>w. w_id w = s_id s) rows = Some w"
    using find_map_update[of "s_id s" rows s] rows' by auto
  have "w_id w = s_id s" using find_SomeD[OF w(2)] by simp
  moreover have "s_created_at old = w_created_at w" using g w(2) c by (auto simp: Get_def RowToDescriptor_def)
  moreover have "s\<lparr>s_id := s_id s, s_created_at := d, s_max_fires := n, s_semantics := m\<rparr>
      = s\<lparr>s_created_at := d, s_max_fires := n, s_semantics := m\<rparr>" for d n m by (cases s) simp
  moreover have "List.find (\<lambda>w. w_id w = j) rows' = List.find (\<lambda>w. w_id w = j) rows" if "j \<noteq> s_id s" for j
    unfolding rows' using that by (induction rows) auto
  ultimately show ?thesis using w c by (auto simp: Get_def RowToDescriptor_update)
qed

lemma delete_get:
  assumes c: "prepares c" "writes c" and d: "Delete c i rows = (r, rows')"
  shows "Get c i rows' = None \<and> (r = Inr () \<longleftrightarrow> Get c i rows \<noteq> None) \<and> (\<forall>j. j \<noteq> i \<longrightarrow> Get c j rows' = Get c j rows)"
proof -
  have rows': "rows' = filter (\<lambda>w. w_id w \<noteq> i) rows" and r: "r = Inr () \<longleftrightarrow> length rows' < length rows"
    using d c length_filter_le[of "\<lambda>w. w_id w \<noteq> i" rows] by (auto simp: Delete_def Let_def split: if_splits)
  have "length rows' < length rows \<longleftrightarrow> i \<in> set (map w_id rows)"
    unfolding rows' by (rule length_filter_less_iff)
  moreover have "List.find (\<lambda>w. w_id w = i) rows = None \<longleftrightarrow> i \<notin> set (map w_id rows)"
    by (induction rows) auto
  moreover have "List.find (\<lambda>w. w_id w = j) rows' = List.find (\<lambda>w. w_id w = j) rows" if "j \<noteq> i" for j
    unfolding rows' using that by (induction rows) auto
  moreover have "List.find (\<lambda>w. w_id w = i) rows' = None" unfolding rows' by (induction rows) auto
  ultimately show ?thesis using r c by (auto simp: Get_def)
qed

text \<open>On a working connection, a schedule created under an unused id reads back with every
  field it was created with, an updated schedule reads back with every field of the update, and a
  deleted one is gone; other schedules are untouched.\<close>

lemma schedule_round_trip:
  assumes "prepares c" "writes c"
  shows "(CreateAndReturnId c newId nowIso s rows = (Inr i, rowsC) \<and> i \<notin> set (map w_id rows) \<longrightarrow>
      Get c i rowsC = Some (stored newId nowIso s) \<and> (\<forall>j. j \<noteq> i \<longrightarrow> Get c j rowsC = Get c j rows))
    \<and> (Update c s rows = (ru, rowsU) \<and> Get c (s_id s) rows = Some old \<longrightarrow>
      Get c (s_id s) rowsU = Some (s\<lparr>s_created_at := s_created_at old, s_max_fires := max 0 (s_max_fires s),
        s_semantics := semantics_text s\<rparr>) \<and> (\<forall>j. j \<noteq> s_id s \<longrightarrow> Get c j rowsU = Get c j rows))
    \<and> (Delete c i rows = (rd, rowsD) \<longrightarrow>
      Get c i rowsD = None \<and> (rd = Inr () \<longleftrightarrow> Get c i rows \<noteq> None) \<and> (\<forall>j. j \<noteq> i \<longrightarrow> Get c j rowsD = Get c j rows))"
  by (rule conjI, (rule impI, elim conjE, rule create_get[OF assms], assumption, assumption), rule conjI,
      (rule impI, elim conjE, rule update_get[OF assms], assumption, assumption), rule impI,
      rule delete_get[OF assms], assumption)

definition demo_schedule :: schedule where
  "demo_schedule =
     \<lparr>s_id = '''', s_agent = ''a'', s_tag = '''', s_type = OneShot, s_next_fire = ''2026-01-01T00:00:00Z'',
      s_cron = '''', s_timezone = ''UTC'', s_message = ''hi'', s_metadata = '''', s_semantics = '''',
      s_enabled = True, s_created_at = '''', s_last_fire = '''', s_fire_count = 0, s_max_fires = 1\<rparr>"

lemma schedule_round_trip_example:
  "\<exists>rows'. CreateAndReturnId healthy ''07'' ''now'' demo_schedule [] = (Inr ''07'', rows')
     \<and> Get healthy ''07'' rows' = Some (stored ''07'' ''now'' demo_schedule)
     \<and> Get healthy ''07'' (snd (Delete healthy ''07'' rows')) = None"
proof -
  have h: "prepares healthy" "writes healthy" by (simp_all add: healthy_def)
  obtain rows' where r: "CreateAndReturnId healthy ''07'' ''now'' demo_schedule [] = (Inr ''07'', rows')"
    by (simp add: CreateAndReturnId_def Create_def healthy_def demo_schedule_def Let_def)
  obtain d rows'' where d: "Delete healthy ''07'' rows' = (d, rows'')" by fastforce
  have g: "Get healthy ''07'' rows' = Some (stored ''07'' ''now'' demo_schedule)"
    using schedule_round_trip[OF h, THEN conjunct1, THEN mp, OF conjI[OF r]] by simp
  from schedule_round_trip[OF h, THEN conjunct2, THEN conjunct2, THEN mp, OF d]
  have "Get healthy ''07'' rows'' = None" by (rule conjunct1)
  then show ?thesis using r d g by simp
qed

text \<open>Creating a schedule under an id in use, or when the INSERT fails, reports success and
  returns the id, but the table is unchanged: the schedule is lost without an error.\<close>

lemma create_swallows_failure:
  assumes "prepares c" "s_id s \<in> set (map w_id rows) \<or> \<not> writes c" "s_id s \<noteq> ''''"
  shows "CreateAndReturnId c newId nowIso s rows = (Inr (s_id s), rows)"
  using assms by (auto simp: CreateAndReturnId_def Create_def Let_def)

lemma create_swallows_failure_example:
  "CreateAndReturnId (healthy\<lparr>writes := False\<rparr>) ''07'' ''now'' (demo_schedule\<lparr>s_id := ''x''\<rparr>) [] = (Inr ''x'', [])"
  using create_swallows_failure[of "healthy\<lparr>writes := False\<rparr>" "demo_schedule\<lparr>s_id := ''x''\<rparr>" "[]" "''07''" "''now''"]
  by (simp add: healthy_def)

lemma due_schedules_parts:
  assumes "prepares c"
  shows "set (GetDueSchedules c bound limit rows) \<subseteq> RowToDescriptor ` {w \<in> set rows. due_row bound w}"
    and "length (GetDueSchedules c bound limit rows) = min limit (length (filter (due_row bound) rows))"
    and "sorted (map s_next_fire (GetDueSchedules c bound limit rows))"
    and "w \<in> set rows \<Longrightarrow> due_row bound w \<Longrightarrow> RowToDescriptor w \<notin> set (GetDueSchedules c bound limit rows) \<Longrightarrow>
      d \<in> set (GetDueSchedules c bound limit rows) \<Longrightarrow> s_next_fire d \<le> w_next_fire w"
proof -
  define rs where "rs = order_by w_next_fire (filter (due_row bound) rows)"
  have g: "GetDueSchedules c bound limit rows = map RowToDescriptor (take limit rs)"
    using assms by (simp add: GetDueSchedules_def rs_def)
  have o: "set rs = {w \<in> set rows. due_row bound w}" "length rs = length (filter (due_row bound) rows)"
    "sorted (map w_next_fire rs)" by (auto simp: rs_def order_by_def)
  have nf: "map s_next_fire (map RowToDescriptor xs) = map w_next_fire xs" for xs by (simp add: RowToDescriptor_def)
  show "set (GetDueSchedules c bound limit rows) \<subseteq> RowToDescriptor ` {w \<in> set rows. due_row bound w}"
    unfolding g using o(1) set_take_subset[of limit rs] by auto
  show "length (GetDueSchedules c bound limit rows) = min limit (length (filter (due_row bound) rows))"
    unfolding g using o(2) by simp
  show "sorted (map s_next_fire (GetDueSchedules c bound limit rows))"
    unfolding g nf using sorted_wrt_take[OF o(3), of limit] by (simp add: take_map)
  show "s_next_fire d \<le> w_next_fire w"
    if w: "w \<in> set rows" "due_row bound w" "RowToDescriptor w \<notin> set (GetDueSchedules c bound limit rows)"
      and d: "d \<in> set (GetDueSchedules c bound limit rows)"
  proof -
    have "w \<in> set rs" "w \<notin> set (take limit rs)" using w o(1) unfolding g by auto
    then have "w \<in> set (drop limit rs)" by (metis UnE append_take_drop_id set_append)
    moreover obtain v where "v \<in> set (take limit rs)" "d = RowToDescriptor v" using d unfolding g by auto
    moreover have "sorted (map w_next_fire (take limit rs) @ map w_next_fire (drop limit rs))"
      using o(3) by (simp only: flip: map_append) simp
    ultimately show ?thesis by (auto simp: sorted_append RowToDescriptor_def)
  qed
qed

text \<open>The due schedules are those enabled rows whose next fire is at most the bound as text, the
  earliest ones up to the limit, in order; a row left out fires no earlier than any row returned.\<close>

lemma due_schedules:
  assumes "prepares c" "due = GetDueSchedules c bound limit rows"
  shows "set due \<subseteq> RowToDescriptor ` {w \<in> set rows. due_row bound w}
    \<and> length due = min limit (length (filter (due_row bound) rows))
    \<and> sorted (map s_next_fire due)
    \<and> (\<forall>w d. w \<in> set rows \<and> due_row bound w \<and> RowToDescriptor w \<notin> set due \<and> d \<in> set due \<longrightarrow>
        s_next_fire d \<le> w_next_fire w)"
  using due_schedules_parts[OF assms(1), where bound = bound and limit = limit and rows = rows] unfolding assms(2) by blast

lemma due_schedules_example:
  "length (GetDueSchedules healthy ''2026-06-01T00:00:00Z'' 250 [insert_row ''07'' ''now'' demo_schedule]) = 1"
  using due_schedules[of healthy _ "''2026-06-01T00:00:00Z''" 250 "[insert_row ''07'' ''now'' demo_schedule]"]
  by (simp add: healthy_def due_row_def insert_row_def demo_schedule_def less_char_def)

end
