(* ===== verification/TaskRuns.thy ===== *)
theory TaskRuns
  imports SchedStores
begin

text \<open>
  Fire claims and leases: \<open>src/kernel/scheduler/TaskRunStore.cpp\<close> and \<open>ScheduleLeaseStore.cpp\<close>.
  A claim row per window guards it against a second dispatch, its survivor among rows replicated
  from other nodes is the row with the greatest epoch, then id; a lease row per acquisition names
  the holder of a schedule, the effective one being greatest by epoch, expiry and id. The contract
  of a store that grants each key at most once is the locale \<open>claim_store\<close>.
\<close>

subsection \<open>Claims\<close>

record task_run =
  r_id :: int
  r_run_uuid :: string
  r_schedule_id :: string
  r_agent_id :: string
  r_node_id :: string
  r_triggered_by :: string
  r_scheduled_for :: string
  r_started :: ms
  r_finished :: ms
  r_outcome :: string
  r_error :: string
  r_epoch :: int
  r_fenced :: bool

record run_table =
  run_rows :: "task_run list"
  run_next_id :: int

definition of_uuid :: "string \<Rightarrow> run_table \<Rightarrow> task_run list" where
  "of_uuid u tab = filter (\<lambda>r. r_run_uuid r = u) (run_rows tab)"

definition run_rank :: "task_run \<Rightarrow> rank" where
  "run_rank r = Rank (r_epoch r) (r_id r) 0"

text \<open>The arguments of \<open>TryClaim\<close> beside the uuid.\<close>

record claim_args =
  c_schedule :: string
  c_agent :: string
  c_for :: string
  c_started :: ms
  c_node :: string
  c_epoch :: int

definition claim_row :: "int \<Rightarrow> string \<Rightarrow> claim_args \<Rightarrow> task_run" where
  "claim_row i u a =
     \<lparr>r_id = i, r_run_uuid = u, r_schedule_id = c_schedule a, r_agent_id = c_agent a, r_node_id = c_node a,
      r_triggered_by = ''schedule'', r_scheduled_for = c_for a, r_started = c_started a, r_finished = 0,
      r_outcome = ''running'', r_error = '''', r_epoch = c_epoch a, r_fenced = False\<rparr>"

definition TryClaim :: "conn \<Rightarrow> string \<Rightarrow> claim_args \<Rightarrow> run_table \<Rightarrow> bool \<times> run_table" where
  "TryClaim c u a tab =
     (if \<not> prepares c then (False, tab)
      else if \<not> writes c \<or> of_uuid u tab \<noteq> [] then (False, tab)
      else (True, tab\<lparr>run_rows := run_rows tab @ [claim_row (run_next_id tab) u a],
                      run_next_id := run_next_id tab + 1\<rparr>))"

definition GetByUuid :: "conn \<Rightarrow> string \<Rightarrow> run_table \<Rightarrow> task_run option" where
  "GetByUuid c u tab = (if \<not> prepares c then None else best run_rank (of_uuid u tab))"

definition map_rows :: "(task_run \<Rightarrow> task_run) \<Rightarrow> run_table \<Rightarrow> run_table" where
  "map_rows f tab = tab\<lparr>run_rows := map f (run_rows tab)\<rparr>"

definition fence_all :: "string \<Rightarrow> task_run \<Rightarrow> task_run" where
  "fence_all u r = (if r_run_uuid r = u then r\<lparr>r_fenced := True\<rparr> else r)"

definition TakeOverStaleClaim :: "conn \<Rightarrow> string \<Rightarrow> claim_args \<Rightarrow> ms \<Rightarrow> run_table \<Rightarrow> int \<times> run_table" where
  "TakeOverStaleClaim c u a staleBefore tab =
     (case GetByUuid c u tab of
        None \<Rightarrow> (0, tab)
      | Some cur \<Rightarrow>
          if r_outcome cur \<noteq> ''running'' \<or> r_started cur \<ge> staleBefore then (0, tab)
          else if \<not> prepares c \<or> \<not> writes c then (0, tab)
          else let newEpoch = r_epoch cur + 1;
                   (ok, tab') = TryClaim c u (a\<lparr>c_epoch := newEpoch\<rparr>) (map_rows (fence_all u) tab)
               in (if ok then newEpoch else 0, tab'))"

definition fence_loser :: "string \<Rightarrow> int option \<Rightarrow> task_run \<Rightarrow> task_run" where
  "fence_loser u winner r =
     (if r_run_uuid r = u \<and> \<not> r_fenced r \<and> winner \<noteq> None \<and> Some (r_id r) \<noteq> winner
      then r\<lparr>r_fenced := True\<rparr> else r)"

definition FenceRunUuid :: "conn \<Rightarrow> string \<Rightarrow> run_table \<Rightarrow> int \<times> run_table" where
  "FenceRunUuid c u tab =
     (if \<not> prepares c \<or> \<not> writes c then (0, tab)
      else let winner = map_option r_id (best run_rank (of_uuid u tab));
               f = fence_loser u winner;
               n = length (filter (\<lambda>r. f r \<noteq> r) (run_rows tab))
           in (if has_changes c then int n else 0, map_rows f tab))"

definition finish_row :: "string \<Rightarrow> string \<Rightarrow> string \<Rightarrow> ms \<Rightarrow> string \<Rightarrow> task_run \<Rightarrow> task_run" where
  "finish_row u outcome err t node r =
     (if r_run_uuid r = u \<and> (node \<noteq> '''' \<longrightarrow> r_node_id r = node)
      then r\<lparr>r_outcome := outcome, r_error := err, r_finished := t\<rparr> else r)"

definition Finish :: "conn \<Rightarrow> string \<Rightarrow> string \<Rightarrow> string \<Rightarrow> ms \<Rightarrow> string \<Rightarrow> run_table \<Rightarrow> bool \<times> run_table" where
  "Finish c u outcome err t node tab =
     (if \<not> prepares c then (False, tab)
      else (True, if writes c then map_rows (finish_row u outcome err t node) tab else tab))"

definition ListForSchedule :: "conn \<Rightarrow> int \<Rightarrow> string \<Rightarrow> int \<Rightarrow> run_table \<Rightarrow> task_run list" where
  "ListForSchedule c defaultLimit sched limit tab =
     (if \<not> prepares c then []
      else limit_rows (if limit < 0 then defaultLimit else limit)
             (order_by (\<lambda>r. - r_started r) (filter (\<lambda>r. r_schedule_id r = sched) (run_rows tab))))"

definition ListRecent :: "conn \<Rightarrow> int \<Rightarrow> string \<Rightarrow> int \<Rightarrow> run_table \<Rightarrow> task_run list" where
  "ListRecent c defaultLimit agent limit tab =
     (if \<not> prepares c then []
      else limit_rows (if limit < 0 then defaultLimit else limit)
             (order_by (\<lambda>r. - r_started r)
                (filter (\<lambda>r. agent \<noteq> '''' \<longrightarrow> r_agent_id r = agent) (run_rows tab))))"

subsection \<open>Leases\<close>

record lease =
  l_id :: int
  l_schedule :: string
  l_holder :: string
  l_epoch :: int
  l_acquired :: ms
  l_expires :: ms
  l_renewed :: ms

record lease_table =
  lease_rows :: "lease list"
  lease_next_id :: int

definition lease_rank :: "lease \<Rightarrow> rank" where
  "lease_rank l = Rank (l_epoch l) (l_expires l) (l_id l)"

text \<open>\<open>Acquire\<close> returns the lease it meant to insert even when no statement ran.\<close>

definition Acquire :: "conn \<Rightarrow> string \<Rightarrow> string \<Rightarrow> int \<Rightarrow> ms \<Rightarrow> ms \<Rightarrow> lease_table \<Rightarrow> lease \<times> lease_table" where
  "Acquire c sched holder epoch now ttl tab =
     (let l = \<lparr>l_id = 0, l_schedule = sched, l_holder = holder, l_epoch = epoch, l_acquired = now,
               l_expires = now + ttl, l_renewed = now\<rparr>
      in if \<not> prepares c \<or> \<not> writes c then (l, tab)
         else let l' = l\<lparr>l_id := lease_next_id tab\<rparr>
              in (l', tab\<lparr>lease_rows := lease_rows tab @ [l'], lease_next_id := lease_next_id tab + 1\<rparr>))"

definition Renew :: "conn \<Rightarrow> int \<Rightarrow> ms \<Rightarrow> ms \<Rightarrow> lease_table \<Rightarrow> bool \<times> lease_table" where
  "Renew c i now ttl tab =
     (if \<not> prepares c \<or> \<not> writes c then (False, tab)
      else (if has_changes c then (\<exists>l \<in> set (lease_rows tab). l_id l = i) else True,
            tab\<lparr>lease_rows := map (\<lambda>l. if l_id l = i then l\<lparr>l_expires := now + ttl, l_renewed := now\<rparr> else l)
                               (lease_rows tab)\<rparr>))"

definition Expire :: "conn \<Rightarrow> string \<Rightarrow> ms \<Rightarrow> lease_table \<Rightarrow> bool \<times> lease_table" where
  "Expire c sched now tab =
     (if \<not> prepares c \<or> \<not> writes c then (False, tab)
      else (True, tab\<lparr>lease_rows := map (\<lambda>l. if l_schedule l = sched \<and> l_expires l > now
                                              then l\<lparr>l_expires := now\<rparr> else l) (lease_rows tab)\<rparr>))"

definition of_schedule :: "string \<Rightarrow> lease_table \<Rightarrow> lease list" where
  "of_schedule sched tab = filter (\<lambda>l. l_schedule l = sched) (lease_rows tab)"

definition EffectiveLease :: "conn \<Rightarrow> string \<Rightarrow> lease_table \<Rightarrow> lease option" where
  "EffectiveLease c sched tab = (if \<not> prepares c then None else best lease_rank (of_schedule sched tab))"

definition ListRows :: "conn \<Rightarrow> string \<Rightarrow> lease_table \<Rightarrow> lease list" where
  "ListRows c sched tab =
     (if \<not> prepares c then []
      else order_by l_schedule (order_by (\<lambda>l. - l_epoch l) (order_by (\<lambda>l. - l_expires l)
             (filter (\<lambda>l. sched \<noteq> '''' \<longrightarrow> l_schedule l = sched) (lease_rows tab)))))"

subsection \<open>A store that grants each key once\<close>

locale claim_store =
  fixes claim :: "'k \<Rightarrow> 'a \<Rightarrow> 's \<Rightarrow> bool \<times> 's"
    and taken :: "'s \<Rightarrow> 'k set"
  assumes grant_fresh: "claim k a s = (True, s') \<Longrightarrow> k \<notin> taken s"
    and grant_takes: "claim k a s = (True, s') \<Longrightarrow> taken s' = insert k (taken s)"
    and refuse_keeps: "claim k a s = (False, s') \<Longrightarrow> s' = s"
begin

text \<open>The keys granted by a sequence of claims, in order.\<close>

fun grants :: "('k \<times> 'a) list \<Rightarrow> 's \<Rightarrow> 'k list \<times> 's" where
  "grants [] s = ([], s)"
| "grants ((k, a) # ks) s =
     (let (ok, s') = claim k a s; (gs, s'') = grants ks s' in (if ok then k # gs else gs, s''))"

lemma claim_taken: "claim k a s = (ok, s') \<Longrightarrow> taken s \<subseteq> taken s'"
  using grant_takes[of k a s s'] refuse_keeps[of k a s s'] by (cases ok) auto

lemma grants_once:
  "grants ks s = (gs, s') \<Longrightarrow> distinct gs \<and> set gs \<inter> taken s = {} \<and> taken s' = taken s \<union> set gs"
proof (induction ks arbitrary: s gs s')
  case Nil
  then show ?case by simp
next
  case (Cons x ks)
  obtain k a where x: "x = (k, a)" by (cases x)
  obtain ok s1 where c: "claim k a s = (ok, s1)" by fastforce
  obtain gs1 s2 where g: "grants ks s1 = (gs1, s2)" by fastforce
  note ih = Cons.IH[OF g]
  show ?case
  proof (cases ok)
    case True
    then show ?thesis using Cons.prems x c g ih grant_fresh[of k a s s1] grant_takes[of k a s s1] by auto
  next
    case False
    then show ?thesis using Cons.prems x c g ih refuse_keeps[of k a s s1] by auto
  qed
qed

end

definition claimed :: "run_table \<Rightarrow> string set" where
  "claimed tab = r_run_uuid ` set (run_rows tab)"

lemma of_uuid_empty: "of_uuid u tab = [] \<longleftrightarrow> u \<notin> claimed tab"
  by (auto simp: of_uuid_def claimed_def filter_empty_conv)

interpretation runs: claim_store "TryClaim c" claimed for c
  by unfold_locales (auto simp: TryClaim_def of_uuid_empty claimed_def claim_row_def split: if_splits)

text \<open>Over any sequence of claims on any connections, no window is granted twice, none is
  granted that a row already named, and the claimed windows are those named before and those
  granted.\<close>

lemma claims_granted_once:
  assumes "runs.grants c ks tab = (gs, tab')"
  shows "distinct gs \<and> set gs \<inter> claimed tab = {} \<and> claimed tab' = claimed tab \<union> set gs"
  using runs.grants_once[OF assms] .

definition demo_claim :: claim_args where
  "demo_claim = \<lparr>c_schedule = ''s'', c_agent = ''a'', c_for = ''w'', c_started = 1000, c_node = ''n1'', c_epoch = 0\<rparr>"

definition no_runs :: run_table where "no_runs = \<lparr>run_rows = [], run_next_id = 1\<rparr>"

lemma claims_granted_once_example:
  "fst (runs.grants healthy [(''s@w'', demo_claim), (''s@w'', demo_claim), (''s@v'', demo_claim)] no_runs) = [''s@w'', ''s@v'']
   \<and> distinct [''s@w'', ''s@v'']"
proof -
  have g: "fst (runs.grants healthy [(''s@w'', demo_claim), (''s@w'', demo_claim), (''s@v'', demo_claim)] no_runs) = [''s@w'', ''s@v'']"
    by (simp add: TryClaim_def healthy_def no_runs_def of_uuid_def claim_row_def)
  obtain tab' where "runs.grants healthy [(''s@w'', demo_claim), (''s@w'', demo_claim), (''s@v'', demo_claim)] no_runs
      = ([''s@w'', ''s@v''], tab')" using g by (metis prod.collapse)
  from claims_granted_once[OF this] g show ?thesis by simp
qed

subsection \<open>Fencing\<close>

definition ids_distinct :: "run_table \<Rightarrow> bool" where
  "ids_distinct tab = (distinct (map r_id (run_rows tab)))"

lemma run_rank_inj: "ids_distinct tab \<Longrightarrow> inj_on run_rank (set (of_uuid u tab))"
  by (auto simp: ids_distinct_def of_uuid_def run_rank_def distinct_map inj_on_def)

lemma best_set_eq:
  assumes "set xs = set ys" "inj_on f (set xs)"
  shows "best f xs = best f ys"
proof (cases "best f xs")
  case None
  then show ?thesis using assms by auto
next
  case (Some b)
  then show ?thesis using best_Some[OF Some] assms best_unique[of f ys b] by auto
qed

lemma survivor_id:
  assumes "ids_distinct tab" "best run_rank (of_uuid u tab) = Some b" "r \<in> set (run_rows tab)" "r_id r = r_id b"
  shows "r = b"
  using assms best_Some[OF assms(2)] by (auto simp: ids_distinct_def of_uuid_def distinct_map dest: inj_onD)

lemma fence_loser_keeps [simp]:
  "r_run_uuid (fence_loser u w r) = r_run_uuid r" "r_id (fence_loser u w r) = r_id r"
  "r_epoch (fence_loser u w r) = r_epoch r" "run_rank (fence_loser u w r) = run_rank r"
  by (simp_all add: fence_loser_def run_rank_def)

lemma best_map: "(\<And>x. f (g x) = f x) \<Longrightarrow> best f (map g xs) = map_option g (best f xs)"
proof (cases xs)
  case (Cons x xs')
  assume h: "\<And>x. f (g x) = f x"
  have "best_from f (g b) (map g ys) = g (best_from f b ys)" for b ys
    by (induction ys arbitrary: b) (auto simp: h)
  then show ?thesis using Cons by simp
qed simp

lemma of_uuid_map: "(\<And>r. r_run_uuid (f r) = r_run_uuid r) \<Longrightarrow> of_uuid u (map_rows f tab) = map f (of_uuid u tab)"
  by (simp add: of_uuid_def map_rows_def filter_map o_def)

lemma fence_keeps_survivor_parts:
  assumes "prepares c" "writes c" "ids_distinct tab" "FenceRunUuid c u tab = (n, tab')"
  shows "r \<in> set (run_rows tab') \<Longrightarrow> r_run_uuid r = u \<Longrightarrow> \<not> r_fenced r \<Longrightarrow> GetByUuid c u tab' = Some r"
    and "FenceRunUuid c u tab' = (0, tab')"
    and "set (run_rows tab2) = set (run_rows tab) \<Longrightarrow> FenceRunUuid c u tab2 = (n2, tab2') \<Longrightarrow>
      set (run_rows tab2') = set (run_rows tab')"
proof -
  define w where "w = map_option r_id (best run_rank (of_uuid u tab))"
  have tab': "tab' = map_rows (fence_loser u w) tab"
    using assms by (auto simp: FenceRunUuid_def Let_def w_def split: if_splits)
  have b: "best run_rank (of_uuid u tab') = map_option (fence_loser u w) (best run_rank (of_uuid u tab))"
    unfolding tab' by (subst of_uuid_map) (simp_all add: best_map)
  have idem: "fence_loser u w (fence_loser u w r) = fence_loser u w r" for r by (simp add: fence_loser_def)
  show "GetByUuid c u tab' = Some r" if r: "r \<in> set (run_rows tab')" "r_run_uuid r = u" "\<not> r_fenced r"
  proof -
    obtain q where q: "q \<in> set (run_rows tab)" "r = fence_loser u w q" using r(1) unfolding tab' by (auto simp: map_rows_def)
    have "q \<in> set (of_uuid u tab)" using q r(2) by (simp add: of_uuid_def)
    then obtain s where s: "best run_rank (of_uuid u tab) = Some s" by (cases "best run_rank (of_uuid u tab)") auto
    have "Some (r_id q) = w"
      using r q s by (auto simp: fence_loser_def w_def split: if_splits)
    then have "q = s" using survivor_id[OF assms(3) s q(1)] s by (simp add: w_def)
    then show ?thesis using b s q(2) assms(1) by (simp add: GetByUuid_def)
  qed
  have "map_option r_id (best run_rank (of_uuid u tab')) = w"
    unfolding b by (cases "best run_rank (of_uuid u tab)") (simp_all add: w_def)
  moreover have "fence_loser u w r = r" if "r \<in> set (run_rows tab')" for r
    using that idem unfolding tab' by (auto simp: map_rows_def)
  ultimately show "FenceRunUuid c u tab' = (0, tab')"
    using assms(1,2) by (simp add: FenceRunUuid_def map_rows_def filter_empty_conv map_idI)
  show "set (run_rows tab2') = set (run_rows tab')"
    if e: "set (run_rows tab2) = set (run_rows tab)" and f: "FenceRunUuid c u tab2 = (n2, tab2')"
  proof -
    have "set (of_uuid u tab2) = set (of_uuid u tab)" using e by (simp add: of_uuid_def)
    from best_set_eq[OF this[symmetric] run_rank_inj[OF assms(3)]]
    have "tab2' = map_rows (fence_loser u w) tab2"
      using f assms(1,2) by (auto simp: FenceRunUuid_def Let_def w_def split: if_splits)
    then show ?thesis unfolding tab' using e by (simp add: map_rows_def)
  qed
qed


definition demo_double :: run_table where
  "demo_double = \<lparr>run_rows = [claim_row 1 ''s@w'' demo_claim, claim_row 2 ''s@w'' (demo_claim\<lparr>c_node := ''n2''\<rparr>)],
                  run_next_id = 3\<rparr>"

lemmas run_eval = demo_double_def demo_claim_def claim_row_def map_rows_def of_uuid_def run_rank_def
  fence_loser_def less_rank_def healthy_def


lemma survivor_stays_claimed:
  assumes "GetByUuid c u tab = Some cur"
  shows "of_uuid u (map_rows (fence_all u) tab) \<noteq> []"
proof -
  have "of_uuid u tab \<noteq> []" using assms by (auto simp: GetByUuid_def split: if_splits)
  moreover have "of_uuid u (map_rows (fence_all u) tab) = map (fence_all u) (of_uuid u tab)"
    by (rule of_uuid_map) (simp add: fence_all_def)
  ultimately show ?thesis by simp
qed

lemma takeover_effect:
  assumes "prepares c" "writes c" "GetByUuid c u tab = Some cur" "r_outcome cur = ''running''" "r_started cur < staleBefore"
  shows "snd (TakeOverStaleClaim c u a staleBefore tab) = map_rows (fence_all u) tab"
  using survivor_stays_claimed[OF assms(3)] assms by (simp add: TakeOverStaleClaim_def TryClaim_def Let_def)

lemma takeover_never_succeeds_parts:
  shows "fst (TakeOverStaleClaim c u a staleBefore tab) = 0"
    and "prepares c \<Longrightarrow> writes c \<Longrightarrow> GetByUuid c u tab = Some cur \<Longrightarrow> r_outcome cur = ''running'' \<Longrightarrow>
      r_started cur < staleBefore \<Longrightarrow>
      snd (TakeOverStaleClaim c u a staleBefore tab) = map_rows (fence_all u) tab"
  using survivor_stays_claimed[of c u tab] takeover_effect
  by (auto simp: TakeOverStaleClaim_def TryClaim_def Let_def split: option.split)

text \<open>Taking over a stale claim never succeeds. The INSERT requires that no row of the window
  exists, and the stale row is one; what remains is the window with every row fenced.\<close>

lemma takeover_never_succeeds:
  "fst (TakeOverStaleClaim c u a staleBefore tab) = 0
   \<and> (\<forall>cur. prepares c \<and> writes c \<and> GetByUuid c u tab = Some cur \<and> r_outcome cur = ''running''
        \<and> r_started cur < staleBefore \<longrightarrow>
      snd (TakeOverStaleClaim c u a staleBefore tab) = map_rows (fence_all u) tab)"
  using takeover_never_succeeds_parts by blast

definition demo_stale :: run_table where
  "demo_stale = \<lparr>run_rows = [claim_row 1 ''s@w'' demo_claim], run_next_id = 2\<rparr>"

lemma takeover_never_succeeds_example:
  "TakeOverStaleClaim healthy ''s@w'' demo_claim 5000 demo_stale
   = (0, \<lparr>run_rows = [(claim_row 1 ''s@w'' demo_claim)\<lparr>r_fenced := True\<rparr>], run_next_id = 2\<rparr>)"
proof -
  have g: "GetByUuid healthy ''s@w'' demo_stale = Some (claim_row 1 ''s@w'' demo_claim)"
    by (simp add: GetByUuid_def healthy_def demo_stale_def of_uuid_def claim_row_def)
  have "snd (TakeOverStaleClaim healthy ''s@w'' demo_claim 5000 demo_stale) = map_rows (fence_all ''s@w'') demo_stale"
    using takeover_never_succeeds[of healthy "''s@w''" demo_claim 5000 demo_stale] g
    by (simp_all add: healthy_def claim_row_def demo_claim_def)
  then show ?thesis using takeover_never_succeeds[of healthy "''s@w''" demo_claim 5000 demo_stale]
    by (simp add: prod_eq_iff map_rows_def demo_stale_def fence_all_def claim_row_def)
qed

end
