(* ===== verification/Scheduler.thy ===== *)
theory Scheduler
  imports Cron TaskRuns
begin

text \<open>
  \<open>src/kernel/scheduler/Scheduler.cpp\<close>: creating and updating schedules, the lease gate
  \<open>LeaseEpochForDispatch\<close>, and the pass \<open>ProcessDueSchedules\<close> over the due schedules. The peer
  callbacks and the fire callback are fields of the configuration, the clock an argument (\<open>t0\<close> at
  the start of a pass, \<open>clk id\<close> while that schedule is processed). A pass returns the fires in
  order and whether an exception or trap ended it: what the statements before it did stays.
\<close>

subsection \<open>Configuration and state\<close>

record lease_peers =
  lp_peers :: int
  lp_anyAcked :: bool
  lp_allDown :: bool

record claim_peers =
  cp_peers :: int
  cp_confirmedMine :: bool
  cp_showsOther :: bool
  cp_allDown :: bool

record fire_event =
  e_schedule :: string
  e_tag :: string
  e_message :: string
  e_metadata :: string
  e_agent :: string

record sched_cfg =
  m_nodeId :: string
  m_claimVisibilityMs :: ms
  m_leaseTtlMs :: ms
  m_leaseRenewEveryMs :: ms
  m_leaseGraceMs :: ms
  m_leaseRetryEveryMs :: ms
  m_maxSchedulesPerAgent :: nat
  m_leaseAckFn :: "(string \<Rightarrow> int \<Rightarrow> lease_peers) option"
  m_claimAckFn :: "(string \<Rightarrow> claim_peers) option"
  m_fireCallback :: "(fire_event \<Rightarrow> string) option"

definition no_lease_peers :: lease_peers where
  "no_lease_peers = \<lparr>lp_peers = 0, lp_anyAcked = False, lp_allDown = False\<rparr>"

definition no_claim_peers :: claim_peers where
  "no_claim_peers = \<lparr>cp_peers = 0, cp_confirmedMine = False, cp_showsOther = False, cp_allDown = False\<rparr>"

definition default_sched_cfg :: "string \<Rightarrow> sched_cfg" where
  "default_sched_cfg node =
     \<lparr>m_nodeId = node, m_claimVisibilityMs = 25000, m_leaseTtlMs = 60000, m_leaseRenewEveryMs = 20000,
      m_leaseGraceMs = 30000, m_leaseRetryEveryMs = 3000, m_maxSchedulesPerAgent = 50,
      m_leaseAckFn = None, m_claimAckFn = None, m_fireCallback = None\<rparr>"

definition SetLeaseTtlMs :: "ms \<Rightarrow> sched_cfg \<Rightarrow> sched_cfg" where
  "SetLeaseTtlMs t cfg = cfg\<lparr>m_leaseTtlMs := t, m_leaseRenewEveryMs := (if t > 3 then t div 3 else 1)\<rparr>"

record sched_state =
  m_store :: "schedule_row list"
  m_runs :: run_table
  m_leases :: lease_table
  m_leaseAttemptMs :: "string \<rightharpoonup> ms"
  m_pauseLogMs :: "string \<rightharpoonup> ms"

definition kDueBatchLimit :: nat where "kDueBatchLimit = 250"

subsection \<open>Creating and changing schedules\<close>

datatype create_result = Created string | Refused string

text \<open>The \<open>next_fire\<close> of a new schedule: a relative time, a cron expression or kept as it is.\<close>

definition resolve_next_fire :: "ms \<Rightarrow> schedule \<Rightarrow> (string + schedule) outcome" where
  "resolve_next_fire now s =
     (let next = s_next_fire s in
      if starts_with ''in '' next \<or> starts_with ''tomorrow'' next then
        (let parsed = ParseRelativeTime now next
         in if parsed = '''' then Ret (Inl (''failed to parse relative time: '' @ next))
            else Ret (Inr (s\<lparr>s_next_fire := parsed\<rparr>)))
      else if CHR ''*'' \<in> set next \<or> length (filter (\<lambda>c. c = CHR '' '') next) \<ge> 3 then
        bind_outcome (ComputeNextFireImpl now next '''') (\<lambda>first.
          if first = '''' then Ret (Inl (''failed to compute first fire from cron: '' @ next))
          else Ret (Inr (s\<lparr>s_cron := next, s_type := Recurring, s_next_fire := first\<rparr>)))
      else Ret (Inr s))"

definition Scheduler_Create :: "conn \<Rightarrow> sched_cfg \<Rightarrow> string \<Rightarrow> ms \<Rightarrow> schedule \<Rightarrow> schedule_row list
    \<Rightarrow> (create_result \<times> schedule_row list) outcome" where
  "Scheduler_Create c cfg newId now s rows =
     (if m_maxSchedulesPerAgent cfg > 0
         \<and> CountByAgent c (s_agent s) rows \<ge> int (m_maxSchedulesPerAgent cfg)
      then Ret (Refused (''schedule limit reached for agent ('' @ dec (m_maxSchedulesPerAgent cfg) @ '' max)''), rows)
      else bind_outcome (resolve_next_fire now s) (\<lambda>r.
        case r of
          Inl e \<Rightarrow> Ret (Refused e, rows)
        | Inr s1 \<Rightarrow>
            let s2 = (if s_type s1 = OneShot \<and> s_max_fires s1 \<le> 0 then s1\<lparr>s_max_fires := 1\<rparr> else s1)
            in case CreateAndReturnId c newId (IsoFromUnixMs now) s2 rows of
                 (Inl e, rows') \<Rightarrow> Ret (Refused e, rows')
               | (Inr i, rows') \<Rightarrow> Ret (if i = '''' then Refused '''' else Created i, rows')))"

definition Scheduler_Update :: "conn \<Rightarrow> ms \<Rightarrow> schedule \<Rightarrow> schedule_row list
    \<Rightarrow> ((string + unit) \<times> schedule_row list) outcome" where
  "Scheduler_Update c now s rows =
     (if s_type s = Recurring \<and> s_cron s \<noteq> ''''
      then bind_outcome (ComputeNextFireImpl now (s_cron s) (IsoFromUnixMs now)) (\<lambda>next.
             Ret (Update c (s\<lparr>s_next_fire := next\<rparr>) rows))
      else Ret (Update c s rows))"

definition Cancel :: "conn \<Rightarrow> string \<Rightarrow> schedule_row list \<Rightarrow> (string + unit) \<times> schedule_row list" where
  "Cancel c i rows = Delete c i rows"

definition ReleaseLease :: "conn \<Rightarrow> string \<Rightarrow> ms \<Rightarrow> sched_state \<Rightarrow> bool \<times> sched_state" where
  "ReleaseLease c i now st = (let (ok, ls) = Expire c i now (m_leases st) in (ok, st\<lparr>m_leases := ls\<rparr>))"

subsection \<open>The lease gate\<close>

definition grant_new :: "conn \<Rightarrow> sched_cfg \<Rightarrow> string \<Rightarrow> int \<Rightarrow> ms \<Rightarrow> sched_state \<Rightarrow> int option \<times> sched_state" where
  "grant_new c cfg i epoch now st =
     (let (l, ls) = Acquire c i (m_nodeId cfg) epoch now (m_leaseTtlMs cfg) (m_leases st)
      in (Some (l_epoch l), st\<lparr>m_leases := ls\<rparr>))"

definition LeaseEpochForDispatch :: "conn \<Rightarrow> sched_cfg \<Rightarrow> ms \<Rightarrow> string \<Rightarrow> sched_state \<Rightarrow> int option \<times> sched_state" where
  "LeaseEpochForDispatch c cfg now i st =
     (let mine = (case m_leaseAttemptMs st i of None \<Rightarrow> False | Some t \<Rightarrow> now - t < m_leaseRetryEveryMs cfg);
          eff = EffectiveLease c i (m_leases st)
      in if mine then
           (case eff of
              Some l \<Rightarrow> (if l_holder l = m_nodeId cfg \<and> l_expires l > now then Some (l_epoch l) else None, st)
            | None \<Rightarrow> (None, st))
         else
           let st1 = st\<lparr>m_leaseAttemptMs := (m_leaseAttemptMs st)(i \<mapsto> now)\<rparr>;
               ps = (case m_leaseAckFn cfg of
                       None \<Rightarrow> no_lease_peers
                     | Some f \<Rightarrow> f i (case eff of Some l \<Rightarrow> l_epoch l | None \<Rightarrow> 0));
               noPeers = (lp_peers ps = 0)
           in case eff of
                None \<Rightarrow> grant_new c cfg i 1 now st1
              | Some l \<Rightarrow>
                  let iHold = (l_holder l = m_nodeId cfg); valid = (l_expires l > now);
                      ok = (noPeers \<or> lp_anyAcked ps \<or> lp_allDown ps)
                  in if iHold \<and> valid then
                       (if now \<ge> l_renewed l + m_leaseRenewEveryMs cfg \<and> ok then
                          (case Renew c (l_id l) now (m_leaseTtlMs cfg) (m_leases st1) of
                             (True, ls) \<Rightarrow> (Some (l_epoch l), st1\<lparr>m_leases := ls\<rparr>)
                           | (False, ls) \<Rightarrow> (None, st1\<lparr>m_leases := ls\<rparr>))
                        else (Some (l_epoch l), st1))
                     else if iHold \<and> \<not> valid then
                       (if ok then grant_new c cfg i (l_epoch l + 1) now st1
                        else (None, (case m_pauseLogMs st1 i of
                                None \<Rightarrow> st1\<lparr>m_pauseLogMs := (m_pauseLogMs st1)(i \<mapsto> now)\<rparr>
                              | Some t \<Rightarrow> if now - t > 10000
                                  then st1\<lparr>m_pauseLogMs := (m_pauseLogMs st1)(i \<mapsto> now)\<rparr> else st1)))
                     else if \<not> valid \<and> l_expires l + m_leaseGraceMs cfg < now \<and> (noPeers \<or> lp_allDown ps)
                       then grant_new c cfg i (l_epoch l + 1) now st1
                     else (None, st1))"

subsection \<open>One due schedule\<close>

definition event_of :: "schedule \<Rightarrow> fire_event" where
  "event_of s = \<lparr>e_schedule = s_id s, e_tag = s_tag s, e_message = s_message s,
                 e_metadata = s_metadata s, e_agent = s_agent s\<rparr>"

definition fire :: "sched_cfg \<Rightarrow> schedule \<Rightarrow> string" where
  "fire cfg s = (case m_fireCallback cfg of None \<Rightarrow> ''no_callback'' | Some f \<Rightarrow> f (event_of s))"

definition window_of :: "string \<Rightarrow> schedule \<Rightarrow> string" where
  "window_of nowIso s = (if s_next_fire s = '''' then nowIso else s_next_fire s)"

definition run_uuid_of :: "string \<Rightarrow> schedule \<Rightarrow> string" where
  "run_uuid_of nowIso s = s_id s @ ''@'' @ window_of nowIso s"

definition claim_args_of :: "sched_cfg \<Rightarrow> string \<Rightarrow> ms \<Rightarrow> schedule \<Rightarrow> int \<Rightarrow> claim_args" where
  "claim_args_of cfg nowIso now s epoch =
     \<lparr>c_schedule = s_id s, c_agent = s_agent s, c_for = window_of nowIso s, c_started = now,
      c_node = m_nodeId cfg, c_epoch = epoch\<rparr>"

text \<open>What the claim phase decides: leave the schedule for a later pass, only advance it, or fire
  it and advance.\<close>

datatype decision = Pause | AdvanceOnly | Dispatch

definition stale_before :: "sched_cfg \<Rightarrow> ms \<Rightarrow> ms" where
  "stale_before cfg now = now - (2 * m_claimVisibilityMs cfg + m_leaseGraceMs cfg)"

definition decide_leased :: "conn \<Rightarrow> sched_cfg \<Rightarrow> string \<Rightarrow> ms \<Rightarrow> schedule \<Rightarrow> sched_state \<Rightarrow> decision \<times> sched_state" where
  "decide_leased c cfg nowIso now s st =
     (let u = run_uuid_of nowIso s;
          cs = (case m_claimAckFn cfg of None \<Rightarrow> no_claim_peers | Some f \<Rightarrow> f u)
      in case GetByUuid c u (m_runs st) of
           None \<Rightarrow>
             (case LeaseEpochForDispatch c cfg now (s_id s) st of
                (None, st1) \<Rightarrow> (Pause, st1)
              | (Some epoch, st1) \<Rightarrow>
                  let (_, runs') = TryClaim c u (claim_args_of cfg nowIso now s epoch) (m_runs st1)
                  in (Pause, st1\<lparr>m_runs := runs'\<rparr>))
         | Some r \<Rightarrow>
             if r_node_id r = m_nodeId cfg \<and> \<not> r_fenced r then
               (if r_outcome r \<noteq> ''running'' then (AdvanceOnly, st)
                else if now - r_started r > m_claimVisibilityMs cfg then
                  (if cp_showsOther cs then (Pause, st)
                   else if cp_peers cs = 0 \<or> cp_allDown cs \<or> cp_confirmedMine cs then (Dispatch, st)
                   else (Pause, st))
                else (Pause, st))
             else if cp_allDown cs \<and> r_outcome r = ''running'' \<and> r_started r < stale_before cfg now then
               (let (_, runs') = TakeOverStaleClaim c u (claim_args_of cfg nowIso now s 0)
                                   (stale_before cfg now) (m_runs st)
                in (Pause, st\<lparr>m_runs := runs'\<rparr>))
             else (Pause, st))"

definition decide_once :: "conn \<Rightarrow> sched_cfg \<Rightarrow> string \<Rightarrow> ms \<Rightarrow> schedule \<Rightarrow> sched_state \<Rightarrow> decision \<times> sched_state" where
  "decide_once c cfg nowIso now s st =
     (let u = run_uuid_of nowIso s;
          (claimed, runs') = TryClaim c u (claim_args_of cfg nowIso now s 0) (m_runs st);
          st1 = st\<lparr>m_runs := runs'\<rparr>
      in if \<not> claimed \<and> GetByUuid c u runs' = None then (Pause, st1)
         else (if claimed then Dispatch else AdvanceOnly, st1))"

definition decide :: "conn \<Rightarrow> sched_cfg \<Rightarrow> string \<Rightarrow> ms \<Rightarrow> schedule \<Rightarrow> sched_state \<Rightarrow> decision \<times> sched_state" where
  "decide c cfg nowIso now s st =
     (if s_semantics s = ''lease_required'' then decide_leased c cfg nowIso now s st
      else decide_once c cfg nowIso now s st)"

text \<open>The schedule after its fire; \<open>cronNow\<close> is the clock read by \<open>ComputeNextFireImpl\<close>.\<close>

definition advanced :: "string \<Rightarrow> ms \<Rightarrow> schedule \<Rightarrow> schedule outcome" where
  "advanced nowIso cronNow s =
     (let u = s\<lparr>s_last_fire := nowIso, s_fire_count := s_fire_count s + 1\<rparr>
      in if s_type s = OneShot then Ret (u\<lparr>s_enabled := False\<rparr>)
         else if s_max_fires s > 0 \<and> s_fire_count u \<ge> s_max_fires s then Ret (u\<lparr>s_enabled := False\<rparr>)
         else bind_outcome (ComputeNextFireImpl cronNow (s_cron s) nowIso) (\<lambda>next. Ret (u\<lparr>s_next_fire := next\<rparr>)))"

record pass_result =
  p_state :: sched_state
  p_fired :: "string list"
  p_crashed :: bool

definition dispatch :: "conn \<Rightarrow> sched_cfg \<Rightarrow> string \<Rightarrow> ms \<Rightarrow> schedule \<Rightarrow> sched_state \<Rightarrow> sched_state" where
  "dispatch c cfg nowIso now s st =
     st\<lparr>m_runs := snd (Finish c (run_uuid_of nowIso s) (fire cfg s) '''' now (m_nodeId cfg) (m_runs st))\<rparr>"

definition process_one :: "conn \<Rightarrow> sched_cfg \<Rightarrow> string \<Rightarrow> ms \<Rightarrow> schedule \<Rightarrow> sched_state \<Rightarrow> pass_result" where
  "process_one c cfg nowIso now s st =
     (case decide c cfg nowIso now s st of
        (Pause, st1) \<Rightarrow> \<lparr>p_state = st1, p_fired = [], p_crashed = False\<rparr>
      | (d, st1) \<Rightarrow>
          let st2 = (if d = Dispatch then dispatch c cfg nowIso now s st1 else st1);
              fired = (if d = Dispatch then [run_uuid_of nowIso s] else [])
          in case advanced nowIso now s of
               Ret s' \<Rightarrow> \<lparr>p_state = st2\<lparr>m_store := snd (Update c s' (m_store st2))\<rparr>, p_fired = fired, p_crashed = False\<rparr>
             | _ \<Rightarrow> \<lparr>p_state = st2, p_fired = fired, p_crashed = True\<rparr>)"

fun process_all :: "conn \<Rightarrow> sched_cfg \<Rightarrow> string \<Rightarrow> (string \<Rightarrow> ms) \<Rightarrow> schedule list \<Rightarrow> sched_state \<Rightarrow> pass_result" where
  "process_all c cfg nowIso clk [] st = \<lparr>p_state = st, p_fired = [], p_crashed = False\<rparr>"
| "process_all c cfg nowIso clk (s # ss) st =
     (let p = process_one c cfg nowIso (clk (s_id s)) s st
      in if p_crashed p then p
         else let q = process_all c cfg nowIso clk ss (p_state p)
              in q\<lparr>p_fired := p_fired p @ p_fired q\<rparr>)"

definition ProcessDueSchedules :: "conn \<Rightarrow> sched_cfg \<Rightarrow> ms \<Rightarrow> (string \<Rightarrow> ms) \<Rightarrow> sched_state \<Rightarrow> pass_result" where
  "ProcessDueSchedules c cfg t0 clk st =
     (let nowIso = IsoFromUnixMs t0
      in process_all c cfg nowIso clk (GetDueSchedules c nowIso kDueBatchLimit (m_store st)) st)"

subsection \<open>A window fires once\<close>

text \<open>How a run table may change under the node: windows stay claimed, and a running claim of this
  node is an old one or names a window nobody had claimed.\<close>

definition sound_change :: "string \<Rightarrow> run_table \<Rightarrow> run_table \<Rightarrow> bool" where
  "sound_change node t t' =
     (claimed t \<subseteq> claimed t' \<and>
      (\<forall>r \<in> set (run_rows t'). r_node_id r = node \<and> r_outcome r = ''running'' \<longrightarrow>
         r_run_uuid r \<notin> claimed t \<or>
         (\<exists>q \<in> set (run_rows t). r_run_uuid q = r_run_uuid r \<and> r_node_id q = node \<and> r_outcome q = ''running'')))"

definition settled :: "string \<Rightarrow> string list \<Rightarrow> run_table \<Rightarrow> bool" where
  "settled node log t =
     (distinct log \<and> (\<forall>u \<in> set log. u \<in> claimed t \<and>
        (\<forall>r \<in> set (run_rows t). r_run_uuid r = u \<and> r_node_id r = node \<longrightarrow> r_outcome r \<noteq> ''running'')))"

lemma settled_sound: "settled node log t \<Longrightarrow> sound_change node t t' \<Longrightarrow> settled node log t'"
  unfolding settled_def sound_change_def by (fastforce)

lemma sound_refl [simp]: "sound_change node t t"
  by (auto simp: sound_change_def)

lemma sound_TryClaim: "TryClaim c u a t = (ok, t') \<Longrightarrow> sound_change node t t'"
  by (auto simp: TryClaim_def sound_change_def claimed_def claim_row_def of_uuid_empty split: if_splits)

lemma map_rows_claimed: "(\<And>r. r_run_uuid (f r) = r_run_uuid r) \<Longrightarrow> claimed (map_rows f t) = claimed t"
  by (auto simp: claimed_def map_rows_def image_image)

lemma fence_all_keeps [simp]:
  "r_run_uuid (fence_all u r) = r_run_uuid r" "r_node_id (fence_all u r) = r_node_id r"
  "r_outcome (fence_all u r) = r_outcome r" "r_started (fence_all u r) = r_started r"
  by (simp_all add: fence_all_def)

lemma takeover_cases:
  "snd (TakeOverStaleClaim c u a b t) = t \<or> snd (TakeOverStaleClaim c u a b t) = map_rows (fence_all u) t"
proof (cases "snd (TakeOverStaleClaim c u a b t) = t")
  case False
  then obtain cur where "GetByUuid c u t = Some cur" "r_outcome cur = ''running''" "r_started cur < b"
    "prepares c" "writes c"
    by (auto simp: TakeOverStaleClaim_def split: option.splits if_splits)
  then show ?thesis using takeover_effect[of c u t cur b a] by simp
qed simp

lemma sound_takeover: "TakeOverStaleClaim c u a b t = (n, t') \<Longrightarrow> sound_change node t t'"
  using takeover_cases[of c u a b t] by (auto simp: sound_change_def map_rows_claimed) (auto simp: map_rows_def)

lemma GetByUuid_Some: "GetByUuid c u t = Some r \<Longrightarrow> r \<in> set (run_rows t) \<and> r_run_uuid r = u \<and> prepares c"
  using best_Some[of run_rank "of_uuid u t" r] by (auto simp: GetByUuid_def of_uuid_def split: if_splits)

lemma grant_frame [simp]:
  "m_runs (snd (grant_new c cfg i e now st)) = m_runs st" "m_store (snd (grant_new c cfg i e now st)) = m_store st"
  by (simp_all add: grant_new_def split: prod.split)

lemma gate_frame:
  "m_runs (snd (LeaseEpochForDispatch c cfg now i st)) = m_runs st
   \<and> m_store (snd (LeaseEpochForDispatch c cfg now i st)) = m_store st"
proof (cases "EffectiveLease c i (m_leases st)")
  case None
  then show ?thesis by (simp add: LeaseEpochForDispatch_def Let_def)
next
  case (Some l)
  then show ?thesis by (simp add: LeaseEpochForDispatch_def Let_def split: prod.split bool.split option.split)
qed

lemmas gate_simps [simp] = gate_frame[THEN conjunct1] gate_frame[THEN conjunct2]

lemma decide_sound:
  assumes "decide c cfg nowIso now s st = (d, st1)"
  shows "sound_change node (m_runs st) (m_runs st1)"
proof (cases "s_semantics s = ''lease_required''")
  case True
  obtain e st2 where g: "LeaseEpochForDispatch c cfg now (s_id s) st = (e, st2)" by fastforce
  then have "m_runs st2 = m_runs st" using gate_frame[of c cfg now "s_id s" st] by simp
  then show ?thesis using assms True g
    by (auto simp: decide_def decide_leased_def Let_def intro: sound_TryClaim sound_takeover
        split: option.splits if_splits prod.splits)
next
  case False
  then show ?thesis using assms
    by (auto simp: decide_def decide_once_def Let_def intro: sound_TryClaim split: if_splits prod.splits)
qed

text \<open>A window chosen for dispatch has a running claim of this node and was not dispatched before.\<close>

lemma decide_fresh:
  assumes d: "decide c cfg nowIso now s st = (Dispatch, st1)" and st: "settled (m_nodeId cfg) log (m_runs st)"
  shows "run_uuid_of nowIso s \<notin> set log \<and> run_uuid_of nowIso s \<in> claimed (m_runs st1) \<and> prepares c"
proof (cases "s_semantics s = ''lease_required''")
  case True
  then obtain r where r: "GetByUuid c (run_uuid_of nowIso s) (m_runs st) = Some r" "r_node_id r = m_nodeId cfg"
    "r_outcome r = ''running''" "st1 = st"
    using d by (auto simp: decide_def decide_leased_def Let_def split: option.splits if_splits prod.splits)
  have "run_uuid_of nowIso s \<in> claimed (m_runs st)"
    using GetByUuid_Some[OF r(1)] unfolding claimed_def by force
  then show ?thesis using st GetByUuid_Some[OF r(1)] r(2-4) by (auto simp: settled_def)
next
  case False
  then have t: "TryClaim c (run_uuid_of nowIso s) (claim_args_of cfg nowIso now s 0) (m_runs st) = (True, m_runs st1)"
    using d by (auto simp: decide_def decide_once_def Let_def split: if_splits prod.splits)
  then show ?thesis using st runs.grant_fresh[OF t] runs.grant_takes[OF t]
    by (auto simp: settled_def TryClaim_def split: if_splits)
qed

lemma finish_row_keeps [simp]: "r_run_uuid (finish_row u o1 e t n r) = r_run_uuid r" "r_node_id (finish_row u o1 e t n r) = r_node_id r"
  by (simp_all add: finish_row_def)

lemma settled_finish:
  assumes "settled node log t" "u \<notin> set log" "u \<in> claimed t" "out \<noteq> ''running''" "prepares c" "writes c"
  shows "settled node (log @ [u]) (snd (Finish c u out err now node t))"
proof -
  have t': "snd (Finish c u out err now node t) = map_rows (finish_row u out err now node) t"
    using assms by (simp add: Finish_def)
  have c: "claimed (map_rows (finish_row u out err now node) t) = claimed t"
    by (rule map_rows_claimed) simp
  have "r_outcome (finish_row u out err now node r) \<noteq> ''running''"
    if "r \<in> set (run_rows t)" "r_run_uuid r \<in> set (log @ [u])" "r_node_id r = node" for r
    using assms(1,4) that by (auto simp: settled_def finish_row_def)
  then show ?thesis unfolding t' settled_def c using assms(1-3)
    by (auto simp: settled_def map_rows_def)
qed

definition finishes :: "sched_cfg \<Rightarrow> bool" where
  "finishes cfg = (\<forall>s. fire cfg s \<noteq> ''running'')"

lemma settled_one:
  assumes "settled (m_nodeId cfg) log (m_runs st)" "writes c" "finishes cfg"
  shows "settled (m_nodeId cfg) (log @ p_fired (process_one c cfg nowIso now s st))
    (m_runs (p_state (process_one c cfg nowIso now s st)))"
proof -
  obtain d st1 where d: "decide c cfg nowIso now s st = (d, st1)" by fastforce
  have s1: "settled (m_nodeId cfg) log (m_runs st1)" using settled_sound[OF assms(1) decide_sound[OF d]] .
  have up: "m_runs (x\<lparr>m_store := y\<rparr>) = m_runs x" for x y by simp
  show ?thesis
  proof (cases d)
    case Dispatch
    note f = decide_fresh[OF d[unfolded Dispatch] assms(1)]
    have "settled (m_nodeId cfg) (log @ [run_uuid_of nowIso s]) (m_runs (dispatch c cfg nowIso now s st1))"
      using settled_finish[OF s1, of "run_uuid_of nowIso s" "fire cfg s" c] f assms(2,3)
      by (simp add: dispatch_def finishes_def)
    then show ?thesis using d Dispatch unfolding process_one_def by (auto simp: Let_def split: outcome.split)
  qed (use s1 d in \<open>auto simp: process_one_def Let_def split: outcome.split\<close>)
qed

lemma settled_all:
  assumes "settled (m_nodeId cfg) log (m_runs st)" "writes c" "finishes cfg"
  shows "settled (m_nodeId cfg) (log @ p_fired (process_all c cfg nowIso clk ss st)) (m_runs (p_state (process_all c cfg nowIso clk ss st)))"
  using assms(1)
proof (induction ss arbitrary: st log)
  case (Cons s ss)
  note settled_one[OF Cons.prems assms(2,3), of nowIso "clk (s_id s)" s]
  then  show ?case using Cons.IH[of "log @ p_fired (process_one c cfg nowIso (clk (s_id s)) s st)"]
    by (auto simp: Let_def)
qed simp

text \<open>The life of a node: passes with any clock, peers and callback, broken off at any point by
  the end of the process, and between them any change of the other tables and sound changes of
  the claims (rows replicated from other nodes, fencing, retries).\<close>

inductive node_run :: "string \<Rightarrow> sched_state \<Rightarrow> string list \<Rightarrow> bool" for node where
  start: "node_run node st []"
| pass: "node_run node st log \<Longrightarrow> m_nodeId cfg = node \<Longrightarrow> writes c \<Longrightarrow> finishes cfg \<Longrightarrow>
    p = ProcessDueSchedules c cfg t0 clk st \<Longrightarrow> node_run node (p_state p) (log @ p_fired p)"
| other: "node_run node st log \<Longrightarrow> sound_change node (m_runs st) (m_runs st') \<Longrightarrow> node_run node st' log"

inductive_cases node_run_start: "node_run node st []"


definition demo_state :: "schedule_row list \<Rightarrow> sched_state" where
  "demo_state rows = \<lparr>m_store = rows, m_runs = no_runs, m_leases = \<lparr>lease_rows = [], lease_next_id = 1\<rparr>,
                      m_leaseAttemptMs = Map.empty, m_pauseLogMs = Map.empty\<rparr>"

definition demo_row :: schedule_row where
  "demo_row = insert_row ''07'' ''now'' demo_schedule"

text \<open>One pass in the year 2026 fires the schedule of 1 January; a second pass fires nothing.\<close>

lemma demo_pass: "p_fired (ProcessDueSchedules healthy (default_sched_cfg ''n'') 1783060800000 (\<lambda>_. 1783060800000) (demo_state [demo_row]))
    = [''07@2026-01-01T00:00:00Z'']"
  by code_simp


subsection \<open>Leases\<close>

text \<open>Rows have their own ids, below the next one, and their own epoch within a schedule.\<close>

definition leases_ok :: "lease_table \<Rightarrow> bool" where
  "leases_ok t =
     (distinct (map l_id (lease_rows t)) \<and> (\<forall>l \<in> set (lease_rows t). l_id l < lease_next_id t) \<and>
      inj_on (\<lambda>l. (l_schedule l, l_epoch l)) (set (lease_rows t)))"

definition top_lease :: "lease_table \<Rightarrow> string \<Rightarrow> lease \<Rightarrow> bool" where
  "top_lease t i l =
     (l \<in> set (lease_rows t) \<and> l_schedule l = i \<and>
      (\<forall>k \<in> set (lease_rows t). l_schedule k = i \<and> k \<noteq> l \<longrightarrow> l_epoch k < l_epoch l))"

lemma effective_top:
  assumes "top_lease t i l" "prepares c"
  shows "EffectiveLease c i t = Some l"
proof -
  obtain b where b: "best lease_rank (of_schedule i t) = Some b"
    using assms by (cases "best lease_rank (of_schedule i t)") (auto simp: top_lease_def of_schedule_def filter_empty_conv)
  have "b = l"
  proof (rule ccontr)
    assume "b \<noteq> l"
    then have "l_epoch b < l_epoch l" "lease_rank l \<le> lease_rank b"
      using best_Some[OF b] assms(1) by (auto simp: top_lease_def of_schedule_def)
    then show False by (simp add: lease_rank_def)
  qed
  then show ?thesis using b assms(2) by (simp add: EffectiveLease_def)
qed

lemma top_effective:
  assumes "EffectiveLease c i t = Some l" "leases_ok t"
  shows "top_lease t i l"
proof -
  have b: "l \<in> set (of_schedule i t)" "\<forall>k \<in> set (of_schedule i t). lease_rank k \<le> lease_rank l"
    using best_Some[of lease_rank "of_schedule i t" l] assms(1) by (auto simp: EffectiveLease_def split: if_splits)
  have "l_epoch k < l_epoch l" if "k \<in> set (lease_rows t)" "l_schedule k = i" "k \<noteq> l" for k
  proof -
    have "l_epoch k \<le> l_epoch l" using b(2) that by (auto simp: of_schedule_def lease_rank_def)
    moreover have "l_epoch k \<noteq> l_epoch l"
      using assms(2) b(1) that by (auto simp: leases_ok_def of_schedule_def dest: inj_onD)
    ultimately show ?thesis by simp
  qed
  then show ?thesis using b(1) by (auto simp: top_lease_def of_schedule_def)
qed

lemma acquire_top:
  assumes "leases_ok t" "prepares c" "writes c" "Acquire c i h e now ttl t = (l, t')"
    and "\<forall>k \<in> set (lease_rows t). l_schedule k = i \<longrightarrow> l_epoch k < e"
  shows "top_lease t' i l \<and> leases_ok t' \<and> l_holder l = h \<and> l_epoch l = e \<and> l_expires l = now + ttl"
proof -
  have l: "l = \<lparr>l_id = lease_next_id t, l_schedule = i, l_holder = h, l_epoch = e, l_acquired = now,
      l_expires = now + ttl, l_renewed = now\<rparr>"
    and t': "t' = t\<lparr>lease_rows := lease_rows t @ [l], lease_next_id := lease_next_id t + 1\<rparr>"
    using assms by (auto simp: Acquire_def Let_def)
  have "inj_on (\<lambda>l. (l_schedule l, l_epoch l)) (set (lease_rows t @ [l]))"
    using assms(1,5) l by (auto simp: leases_ok_def)
  moreover have "distinct (map l_id (lease_rows t @ [l]))" "\<forall>k \<in> set (lease_rows t @ [l]). l_id k < lease_next_id t + 1"
    using assms(1) l by (fastforce simp: leases_ok_def)+
  ultimately show ?thesis using assms(5) unfolding top_lease_def leases_ok_def t' by (auto simp: l)
qed

lemma grant_top:
  assumes "leases_ok (m_leases st)" "prepares c" "writes c" "0 < m_leaseTtlMs cfg"
    and "grant_new c cfg i e now st = (Some e', st')"
    and "\<forall>k \<in> set (lease_rows (m_leases st)). l_schedule k = i \<longrightarrow> l_epoch k < e"
  shows "\<exists>l. top_lease (m_leases st') i l \<and> leases_ok (m_leases st') \<and> l_holder l = m_nodeId cfg
      \<and> l_epoch l = e' \<and> now < l_expires l"
proof -
  obtain l t' where a: "Acquire c i (m_nodeId cfg) e now (m_leaseTtlMs cfg) (m_leases st) = (l, t')" by fastforce
  have "e' = l_epoch l" "m_leases st' = t'" using assms(5) a by (auto simp: grant_new_def)
  then show ?thesis using acquire_top[OF assms(1-3) a assms(6)] assms(4) by auto
qed

lemma renew_top:
  assumes "leases_ok t" "top_lease t i l" "Renew c (l_id l) now ttl t = (True, t')"
  shows "top_lease t' i (l\<lparr>l_expires := now + ttl, l_renewed := now\<rparr>) \<and> leases_ok t'"
proof -
  define f where "f = (\<lambda>k::lease. if l_id k = l_id l then k\<lparr>l_expires := now + ttl, l_renewed := now\<rparr> else k)"
  have t': "t' = t\<lparr>lease_rows := map f (lease_rows t)\<rparr>"
    using assms(3) by (auto simp: Renew_def f_def split: if_splits)
  have f: "l_id (f k) = l_id k" "l_schedule (f k) = l_schedule k" "l_epoch (f k) = l_epoch k" for k
    by (simp_all add: f_def)
  have "f l = l\<lparr>l_expires := now + ttl, l_renewed := now\<rparr>" by (simp add: f_def)
  moreover have "top_lease t' i (f l)"
    using assms(2) f unfolding top_lease_def t' by auto
  moreover have "leases_ok t'" using assms(1) f unfolding leases_ok_def t'
    by (auto simp: inj_on_def o_def)
  ultimately show ?thesis by simp
qed

lemma gate_cases:
  assumes g: "LeaseEpochForDispatch c cfg now i st = (Some e, st')"
    and eff: "EffectiveLease c i (m_leases st) = Some l"
  obtains (kept) "m_leases st' = m_leases st" "l_holder l = m_nodeId cfg" "now < l_expires l" "e = l_epoch l"
    | (renewed) "Renew c (l_id l) now (m_leaseTtlMs cfg) (m_leases st) = (True, m_leases st')"
        "l_holder l = m_nodeId cfg" "e = l_epoch l"
    | (new) st1 where "m_leases st1 = m_leases st" "grant_new c cfg i (l_epoch l + 1) now st1 = (Some e, st')"
proof -
  define mine where "mine = (case m_leaseAttemptMs st i of None \<Rightarrow> False | Some t \<Rightarrow> now - t < m_leaseRetryEveryMs cfg)"
  define ps where "ps = (case m_leaseAckFn cfg of None \<Rightarrow> no_lease_peers | Some f \<Rightarrow> f i (l_epoch l))"
  define st1 where "st1 = st\<lparr>m_leaseAttemptMs := (m_leaseAttemptMs st)(i \<mapsto> now)\<rparr>"
  have st1: "m_leases st1 = m_leases st" by (simp add: st1_def)
  note gate = g[unfolded LeaseEpochForDispatch_def Let_def eff option.case, folded mine_def ps_def, folded st1_def]
  show ?thesis
  proof (cases "\<not> mine \<and> l_holder l = m_nodeId cfg \<and> now < l_expires l")
    case True
    obtain b ls where r: "Renew c (l_id l) now (m_leaseTtlMs cfg) (m_leases st1) = (b, ls)" by fastforce
    show ?thesis
    proof (cases "m_leases st' = m_leases st")
      case same: True
      then show ?thesis using gate True kept r by (cases b) (auto split: if_splits)
    next
      case False
      then show ?thesis using gate True renewed r st1 by (cases b) (auto split: if_splits)
    qed
  next
    case False
    show ?thesis
    proof (cases mine)
      case True
      then have "m_leases st' = m_leases st \<and> l_holder l = m_nodeId cfg \<and> now < l_expires l \<and> e = l_epoch l"
        using gate by (simp split: if_splits)
      then show ?thesis using kept by blast
    next
      case fresh: False
      have "grant_new c cfg i (l_epoch l + 1) now st1 = (Some e, st')"
        using gate False fresh by (cases "l_holder l = m_nodeId cfg") (simp_all split: if_splits)
      then show ?thesis by (rule new[OF st1])
    qed
  qed
qed



text \<open>When the INSERT of a lease fails, or no statement can be prepared, the gate still grants
  epoch 1 and leaves no lease behind, to any node that asks: the failure opens the gate.\<close>

lemma lease_fails_open:
  assumes "m_leaseAttemptMs st i = None" "\<not> prepares c \<or> \<not> writes c \<and> EffectiveLease c i (m_leases st) = None"
  shows "fst (LeaseEpochForDispatch c cfg now i st) = Some 1
    \<and> m_leases (snd (LeaseEpochForDispatch c cfg now i st)) = m_leases st"
proof -
  have e: "EffectiveLease c i (m_leases st) = None" using assms(2) by (auto simp: EffectiveLease_def)
  have "Acquire c i (m_nodeId cfg) 1 now (m_leaseTtlMs cfg) (m_leases st) =
    (\<lparr>l_id = 0, l_schedule = i, l_holder = m_nodeId cfg, l_epoch = 1, l_acquired = now,
      l_expires = now + m_leaseTtlMs cfg, l_renewed = now\<rparr>, m_leases st)"
    using assms(2) by (auto simp: Acquire_def Let_def)
  then show ?thesis using assms(1) e by (simp add: LeaseEpochForDispatch_def grant_new_def Let_def)
qed

lemma lease_fails_open_example:
  "fst (LeaseEpochForDispatch (healthy\<lparr>writes := False\<rparr>) (default_sched_cfg ''a'') 0 ''s'' (demo_state [])) = Some 1
   \<and> fst (LeaseEpochForDispatch (healthy\<lparr>writes := False\<rparr>) (default_sched_cfg ''b'') 0 ''s'' (demo_state [])) = Some 1"
  using lease_fails_open[of "demo_state []" "''s''" "healthy\<lparr>writes := False\<rparr>"]
  by (simp add: demo_state_def healthy_def EffectiveLease_def of_schedule_def)

subsection \<open>A window that fails over is lost\<close>

definition all_fenced :: "string \<Rightarrow> run_table \<Rightarrow> bool" where
  "all_fenced u t = (u \<in> claimed t \<and> (\<forall>r \<in> set (run_rows t). r_run_uuid r = u \<longrightarrow> r_fenced r))"

text \<open>A sequence of passes on one store, by any nodes.\<close>

fun passes :: "(conn \<times> sched_cfg \<times> ms \<times> (string \<Rightarrow> ms)) list \<Rightarrow> sched_state \<Rightarrow> string list" where
  "passes [] st = []"
| "passes ((c, cfg, t0, clk) # ps) st =
     (let p = ProcessDueSchedules c cfg t0 clk st in p_fired p @ passes ps (p_state p))"

lemma fenced_TryClaim: "all_fenced u t \<Longrightarrow> TryClaim c v a t = (ok, t') \<Longrightarrow> all_fenced u t'"
  by (auto simp: TryClaim_def all_fenced_def claimed_def claim_row_def of_uuid_empty split: if_splits)

lemma fenced_takeover: "all_fenced u t \<Longrightarrow> TakeOverStaleClaim c v a b t = (n, t') \<Longrightarrow> all_fenced u t'"
  using takeover_cases[of c v a b t]
  by (auto simp: all_fenced_def map_rows_claimed) (auto simp: map_rows_def fence_all_def split: if_splits)

lemma fenced_dispatch: "all_fenced u (m_runs st) \<Longrightarrow> all_fenced u (m_runs (dispatch c cfg nowIso now s st))"
proof -
  assume f: "all_fenced u (m_runs st)"
  have k: "r_fenced (finish_row v o1 e t n r) = r_fenced r" for v o1 e t n r by (simp add: finish_row_def)
  show ?thesis using f
    by (auto simp: dispatch_def Finish_def all_fenced_def map_rows_claimed) (auto simp: map_rows_def k)
qed

lemma fenced_decide:
  assumes "all_fenced u (m_runs st)" "decide c cfg nowIso now s st = (d, st1)"
  shows "all_fenced u (m_runs st1) \<and> (run_uuid_of nowIso s = u \<longrightarrow> d \<noteq> Dispatch)
    \<and> (run_uuid_of nowIso s = u \<and> s_semantics s = ''lease_required'' \<longrightarrow> d = Pause \<and> m_store st1 = m_store st)"
proof (cases "s_semantics s = ''lease_required''")
  case True
  obtain e st2 where g: "LeaseEpochForDispatch c cfg now (s_id s) st = (e, st2)" by fastforce
  then have s2: "m_runs st2 = m_runs st" "m_store st2 = m_store st"
    using gate_frame[of c cfg now "s_id s" st] by simp_all
  have "r_fenced r" if "GetByUuid c u (m_runs st) = Some r" for r
    using GetByUuid_Some[OF that] assms(1) by (auto simp: all_fenced_def)
  moreover have "TryClaim c u a t = (False, t)" if "u \<in> claimed t" for a t
    using that by (simp add: TryClaim_def of_uuid_empty)
  ultimately show ?thesis using assms True g s2
    by (auto simp: decide_def decide_leased_def Let_def dest: fenced_TryClaim fenced_takeover
        split: option.splits if_splits prod.splits)
next
  case False
  obtain ok runs' where t: "TryClaim c (run_uuid_of nowIso s) (claim_args_of cfg nowIso now s 0) (m_runs st) = (ok, runs')"
    by fastforce
  have "all_fenced u runs'" using fenced_TryClaim[OF assms(1) t] .
  moreover have "run_uuid_of nowIso s = u \<Longrightarrow> \<not> ok"
    using assms(1) t by (auto simp: TryClaim_def of_uuid_empty all_fenced_def split: if_splits)
  ultimately show ?thesis using assms(2) False t
    by (auto simp: decide_def decide_once_def Let_def split: if_splits)
qed

lemma fence_all_fences: "u \<in> claimed t \<Longrightarrow> all_fenced u (map_rows (fence_all u) t)"
proof -
  assume u: "u \<in> claimed t"
  have "claimed (map_rows (fence_all u) t) = claimed t" by (rule map_rows_claimed) simp
  moreover have "r_fenced r" if "r \<in> set (run_rows (map_rows (fence_all u) t))" "r_run_uuid r = u" for r
  proof -
    have "r \<in> fence_all u ` set (run_rows t)" using that(1) by (simp add: map_rows_def)
    then obtain q where "r = fence_all u q" by blast
    then show ?thesis using that(2) by (simp add: fence_all_def split: if_splits)
  qed
  ultimately show ?thesis using u by (simp add: all_fenced_def)
qed

lemma fenced_one:
  assumes "all_fenced u (m_runs st)"
  shows "all_fenced u (m_runs (p_state (process_one c cfg nowIso now s st))) \<and> u \<notin> set (p_fired (process_one c cfg nowIso now s st))"
proof -
  obtain d st1 where d: "decide c cfg nowIso now s st = (d, st1)" by fastforce
  note f = fenced_decide[OF assms d]
  then have "all_fenced u (m_runs (dispatch c cfg nowIso now s st1))" using fenced_dispatch by blast
  then show ?thesis using f d by (cases d) (auto simp: process_one_def Let_def split: outcome.split)
qed

lemma fenced_all:
  "all_fenced u (m_runs st) \<Longrightarrow>
   all_fenced u (m_runs (p_state (process_all c cfg nowIso clk ss st))) \<and> u \<notin> set (p_fired (process_all c cfg nowIso clk ss st))"
proof (induction ss arbitrary: st)
  case (Cons s ss)
  then show ?case using fenced_one[OF Cons.prems, of c cfg nowIso "clk (s_id s)" s] by (auto simp: Let_def)
qed simp

lemma fenced_passes: "all_fenced u (m_runs st) \<Longrightarrow> u \<notin> set (passes ps st)"
proof (induction ps st rule: passes.induct)
  case (2 c cfg t0 clk ps st)
  then show ?case using fenced_all[OF 2(2)] by (auto simp: Let_def ProcessDueSchedules_def)
qed simp

text \<open>When the holder of a claimed window died and the takeover branch runs, no pass of any node
  fires that window again, and the schedule stays where it is, due forever.\<close>

lemma takeover_loses_window:
  assumes h: "prepares c" "writes c" "s_semantics s = ''lease_required''"
    and r: "GetByUuid c (run_uuid_of nowIso s) (m_runs st) = Some r"
      "r_node_id r \<noteq> m_nodeId cfg" "r_outcome r = ''running''" "r_started r < stale_before cfg now"
    and peers: "m_claimAckFn cfg = Some f" "cp_allDown (f (run_uuid_of nowIso s))"
  defines "p \<equiv> process_one c cfg nowIso now s st"
  shows "p_fired p = [] \<and> m_store (p_state p) = m_store st
    \<and> run_uuid_of nowIso s \<notin> set (passes ps (p_state p))
    \<and> (\<forall>c2 cfg2 now2. let q = process_one c2 cfg2 nowIso now2 s (p_state p) in
         p_fired q = [] \<and> m_store (p_state q) = m_store st)"
proof -
  define u where "u = run_uuid_of nowIso s"
  obtain n runs' where t: "TakeOverStaleClaim c u (claim_args_of cfg nowIso now s 0) (stale_before cfg now) (m_runs st) = (n, runs')"
    by fastforce
  have d: "decide c cfg nowIso now s st = (Pause, st\<lparr>m_runs := runs'\<rparr>)"
    using h r peers t by (simp add: decide_def decide_leased_def Let_def u_def[symmetric])
  then have p: "p = \<lparr>p_state = st\<lparr>m_runs := runs'\<rparr>, p_fired = [], p_crashed = False\<rparr>"
    unfolding p_def process_one_def by simp
  have "runs' = map_rows (fence_all u) (m_runs st)"
    using takeover_effect[OF h(1,2) r(1)[folded u_def] r(3,4), of "claim_args_of cfg nowIso now s 0"] t by simp
  moreover have "u \<in> claimed (m_runs st)" using GetByUuid_Some[OF r(1)] by (force simp: claimed_def u_def)
  ultimately have f: "all_fenced u (m_runs (p_state p))"
    using fence_all_fences unfolding p by simp
  have "p_fired q = [] \<and> m_store (p_state q) = m_store st"
    if q: "q = process_one c2 cfg2 nowIso now2 s (p_state p)" for q c2 cfg2 now2
  proof -
    obtain d2 st2 where d2: "decide c2 cfg2 nowIso now2 s (p_state p) = (d2, st2)" by fastforce
    then have "d2 = Pause" "m_store st2 = m_store (p_state p)"
      using fenced_decide[OF f d2] h(3) by (auto simp: u_def)
    then show ?thesis unfolding q process_one_def d2 by (simp add: p)
  qed
  then have late: "\<forall>c2 cfg2 now2. let q = process_one c2 cfg2 nowIso now2 s (p_state p) in
      p_fired q = [] \<and> m_store (p_state q) = m_store st"
    unfolding Let_def by blast
  have "p_fired p = []" "m_store (p_state p) = m_store st" unfolding p by simp_all
  then show ?thesis using fenced_passes[OF f, of ps] late unfolding u_def by blast
qed

definition demo_leased :: schedule where
  "demo_leased = demo_schedule\<lparr>s_id := ''s'', s_semantics := ''lease_required'', s_next_fire := ''w''\<rparr>"

definition demo_survivor :: sched_cfg where
  "demo_survivor = (default_sched_cfg ''n2'')\<lparr>m_claimAckFn := Some (\<lambda>_. no_claim_peers\<lparr>cp_peers := 1, cp_allDown := True\<rparr>)\<rparr>"

lemma takeover_loses_window_example:
  "''s@w'' \<notin> set (passes [(healthy, demo_survivor, 2000000, \<lambda>_. 2000000)]
     (p_state (process_one healthy demo_survivor ''now'' 1000000 demo_leased ((demo_state [])\<lparr>m_runs := demo_stale\<rparr>))))"
proof -
  have u: "run_uuid_of ''now'' demo_leased = ''s@w''"
    by (simp add: run_uuid_of_def window_of_def demo_leased_def)
  have g: "GetByUuid healthy (run_uuid_of ''now'' demo_leased) (m_runs ((demo_state [])\<lparr>m_runs := demo_stale\<rparr>))
      = Some (claim_row 1 ''s@w'' demo_claim)"
    unfolding u by (simp add: GetByUuid_def healthy_def demo_stale_def of_uuid_def claim_row_def)
  have k: "m_claimAckFn demo_survivor = Some (\<lambda>_. no_claim_peers\<lparr>cp_peers := 1, cp_allDown := True\<rparr>)"
    by (simp add: demo_survivor_def)
  have side: "prepares healthy" "writes healthy" "s_semantics demo_leased = ''lease_required''"
    "r_node_id (claim_row 1 ''s@w'' demo_claim) \<noteq> m_nodeId demo_survivor"
    "r_outcome (claim_row 1 ''s@w'' demo_claim) = ''running''"
    "r_started (claim_row 1 ''s@w'' demo_claim) < stale_before demo_survivor 1000000"
    by (simp_all add: healthy_def demo_leased_def claim_row_def demo_claim_def demo_survivor_def
        default_sched_cfg_def stale_before_def)
  show ?thesis
    using takeover_loses_window[OF side(1-3) g side(4-6) k, of "[(healthy, demo_survivor, 2000000, \<lambda>_. 2000000)]"]
    unfolding u by simp
qed

subsection \<open>Firing and advancing\<close>

lemma claimed_survivor: "u \<in> claimed t \<Longrightarrow> prepares c \<Longrightarrow> GetByUuid c u t \<noteq> None"
  by (simp add: GetByUuid_def of_uuid_empty)

lemma claimed_refused: "u \<in> claimed t \<Longrightarrow> TryClaim c u x t = (False, t)"
  by (simp add: TryClaim_def of_uuid_empty)

lemma advanced_fields:
  assumes "advanced nowIso now s = Ret s'"
  shows "s_id s' = s_id s" "s_fire_count s' = s_fire_count s + 1" "s_last_fire s' = nowIso"
  using assms by (cases "ComputeNextFireImpl now (s_cron s) nowIso"; auto simp: advanced_def Let_def split: if_splits)+

lemma due_run:
  assumes c: "prepares c" "writes c" and s: "s_semantics s \<noteq> ''lease_required''" "Get c (s_id s) (m_store st) = Some s"
    and a: "advanced nowIso now s = Ret s'"
  shows "p_fired (process_one c cfg nowIso now s st)
      = (if run_uuid_of nowIso s \<in> claimed (m_runs st) then [] else [run_uuid_of nowIso s])"
    and "run_uuid_of nowIso s \<in> claimed (m_runs (p_state (process_one c cfg nowIso now s st)))
      \<and> \<not> p_crashed (process_one c cfg nowIso now s st)"
    and "Get c (s_id s) (m_store (p_state (process_one c cfg nowIso now s st)))
      = Some (s'\<lparr>s_created_at := s_created_at s, s_max_fires := max 0 (s_max_fires s'), s_semantics := semantics_text s'\<rparr>)"
proof -
  define u where "u = run_uuid_of nowIso s"
  obtain ok runs' where t: "TryClaim c u (claim_args_of cfg nowIso now s 0) (m_runs st) = (ok, runs')" by fastforce
  have ok: "ok \<longleftrightarrow> u \<notin> claimed (m_runs st)" and cl: "u \<in> claimed runs'"
    using t c by (auto simp: TryClaim_def of_uuid_empty claimed_def claim_row_def split: if_splits)
  have d: "decide c cfg nowIso now s st = (if ok then Dispatch else AdvanceOnly, st\<lparr>m_runs := runs'\<rparr>)"
    using s t claimed_survivor[OF cl c(1)] by (simp add: decide_def decide_once_def u_def Let_def)
  have store: "m_store (dispatch c cfg nowIso now s x) = m_store x" for x by (simp add: dispatch_def)
  have cl2: "u \<in> claimed (m_runs (dispatch c cfg nowIso now s (st\<lparr>m_runs := runs'\<rparr>)))"
    using cl by (simp add: dispatch_def Finish_def map_rows_claimed)
  obtain r rows' where upd: "Update c s' (m_store st) = (r, rows')" by fastforce
  show "p_fired (process_one c cfg nowIso now s st)
      = (if run_uuid_of nowIso s \<in> claimed (m_runs st) then [] else [run_uuid_of nowIso s])"
    using ok unfolding process_one_def d by (simp add: a u_def Let_def)
  show "run_uuid_of nowIso s \<in> claimed (m_runs (p_state (process_one c cfg nowIso now s st)))
      \<and> \<not> p_crashed (process_one c cfg nowIso now s st)"
    using cl cl2 unfolding process_one_def d by (simp add: a u_def Let_def)
  have "m_store (p_state (process_one c cfg nowIso now s st)) = rows'"
    using upd unfolding process_one_def d by (simp add: a Let_def store)
  then show "Get c (s_id s) (m_store (p_state (process_one c cfg nowIso now s st)))
      = Some (s'\<lparr>s_created_at := s_created_at s, s_max_fires := max 0 (s_max_fires s'), s_semantics := semantics_text s'\<rparr>)"
    using update_get[OF c upd, of s] s(2) advanced_fields[OF a] by simp
qed

lemma due_schedule_fires_parts:
  assumes c: "prepares c" "writes c" and s: "s_semantics s \<noteq> ''lease_required''" "Get c (s_id s) (m_store st) = Some s"
    and a: "advanced nowIso now s = Ret s'" and p: "p = process_one c cfg nowIso now s st"
  shows "p_fired p = (if run_uuid_of nowIso s \<in> claimed (m_runs st) then [] else [run_uuid_of nowIso s])"
    and "\<exists>d. Get c (s_id s) (m_store (p_state p)) = Some d \<and> s_fire_count d = s_fire_count s + 1 \<and> s_last_fire d = nowIso
        \<and> s_enabled d = s_enabled s' \<and> s_next_fire d = s_next_fire s'"
    and "s_next_fire s \<noteq> '''' \<Longrightarrow> advanced nowIso2 now2 s = Ret s2 \<Longrightarrow>
      q = process_one c cfg2 nowIso2 now2 s ((p_state p)\<lparr>m_store := m_store st\<rparr>) \<Longrightarrow>
      p_fired q = [] \<and> Get c (s_id s) (m_store (p_state q)) \<noteq> Some s"
proof -
  note r = due_run[OF c s a, of cfg, folded p]
  show "p_fired p = (if run_uuid_of nowIso s \<in> claimed (m_runs st) then [] else [run_uuid_of nowIso s])" by (rule r(1))
  show "\<exists>d. Get c (s_id s) (m_store (p_state p)) = Some d \<and> s_fire_count d = s_fire_count s + 1 \<and> s_last_fire d = nowIso
        \<and> s_enabled d = s_enabled s' \<and> s_next_fire d = s_next_fire s'"
    using r(3) advanced_fields[OF a] by simp
  show "p_fired q = [] \<and> Get c (s_id s) (m_store (p_state q)) \<noteq> Some s"
    if n: "s_next_fire s \<noteq> ''''" "advanced nowIso2 now2 s = Ret s2"
      and q: "q = process_one c cfg2 nowIso2 now2 s ((p_state p)\<lparr>m_store := m_store st\<rparr>)"
  proof -
    have u2: "run_uuid_of nowIso2 s = run_uuid_of nowIso s" using n(1) by (simp add: run_uuid_of_def window_of_def)
    have g: "Get c (s_id s) (m_store ((p_state p)\<lparr>m_store := m_store st\<rparr>)) = Some s" using s(2) by simp
    note r2 = due_run[OF c s(1) g n(2), of cfg2, folded q]
    have "s_fire_count s2 \<noteq> s_fire_count s" using advanced_fields[OF n(2)] by simp
    then have "s2\<lparr>s_created_at := x, s_max_fires := y, s_semantics := z\<rparr> \<noteq> s" for x y z
      by (cases s2; cases s) simp
    then show ?thesis using r2(1,3) r(2) u2 by simp
  qed
qed

text \<open>C15: on a working store, a due schedule that needs no lease fires exactly when its window is
  unclaimed, and its row then carries the fire: one more fire counted, and disabled, or due at the
  computed next fire. When the process ended between the fire and that update, the next pass over
  the same window fires nothing and makes the update.\<close>

theorem due_schedule_fires:
  assumes c: "prepares c" "writes c" and s: "s_semantics s \<noteq> ''lease_required''" "Get c (s_id s) (m_store st) = Some s"
    and a: "advanced nowIso now s = Ret s'" and p: "p = process_one c cfg nowIso now s st"
  shows "p_fired p = (if run_uuid_of nowIso s \<in> claimed (m_runs st) then [] else [run_uuid_of nowIso s])
    \<and> (\<exists>d. Get c (s_id s) (m_store (p_state p)) = Some d \<and> s_fire_count d = s_fire_count s + 1 \<and> s_last_fire d = nowIso
        \<and> s_enabled d = s_enabled s' \<and> s_next_fire d = s_next_fire s')
    \<and> (\<forall>cfg2 nowIso2 now2 s2 q. s_next_fire s \<noteq> '''' \<and> advanced nowIso2 now2 s = Ret s2
        \<and> q = process_one c cfg2 nowIso2 now2 s ((p_state p)\<lparr>m_store := m_store st\<rparr>) \<longrightarrow>
      p_fired q = [] \<and> Get c (s_id s) (m_store (p_state q)) \<noteq> Some s)"
  using due_schedule_fires_parts(1,2)[OF assms] due_schedule_fires_parts(3)[OF assms] by blast

theorem due_schedule_fires_witness:
  "p_fired (process_one healthy (default_sched_cfg ''n'') ''now'' 0 (RowToDescriptor demo_row) (demo_state [demo_row]))
   = [''07@2026-01-01T00:00:00Z'']"
proof -
  define s where "s = RowToDescriptor demo_row"
  have s: "s_semantics s \<noteq> ''lease_required''" "s_id s = ''07''" "s_type s = OneShot" "s_next_fire s = ''2026-01-01T00:00:00Z''"
    by (simp_all add: s_def demo_row_def RowToDescriptor_insert stored_def semantics_text_def demo_schedule_def)
  have g: "Get healthy (s_id s) (m_store (demo_state [demo_row])) = Some s"
    using s(2) by (simp add: Get_def healthy_def demo_state_def demo_row_def s_def demo_schedule_def)
  obtain s' where a: "advanced ''now'' 0 s = Ret s'" using s(3) by (simp add: advanced_def)
  have "claimed (m_runs (demo_state [demo_row])) = {}" by (simp add: claimed_def demo_state_def no_runs_def)
  then show ?thesis using due_schedule_fires[OF _ _ s(1) g a refl, of "default_sched_cfg ''n''"] s
    by (simp add: healthy_def run_uuid_of_def window_of_def flip: s_def)
qed

lemma empty_next_fire_fires_every_pass_parts:
  assumes e: "length (words (s_cron s)) < 5" "s_cron s \<noteq> ''''" "s_type s = Recurring"
    and c: "prepares c" "writes c" and r: "clock_range t" "1000 \<le> t"
  shows "Scheduler_Update c t s rows = Ret (Update c (s\<lparr>s_next_fire := ''''\<rparr>) rows)"
    and "due_row bound (update_row (s\<lparr>s_next_fire := ''''\<rparr>) w) \<longleftrightarrow> s_enabled s"
    and "s_next_fire s = '''' \<Longrightarrow> s_semantics s \<noteq> ''lease_required'' \<Longrightarrow> s_max_fires s \<le> 0 \<Longrightarrow>
      Get c (s_id s) (m_store st) = Some s \<Longrightarrow> s_id s @ ''@'' @ IsoFromUnixMs t \<notin> claimed (m_runs st) \<Longrightarrow>
      (let p = process_one c cfg (IsoFromUnixMs t) t s st in
       p_fired p = [s_id s @ ''@'' @ IsoFromUnixMs t] \<and>
       (\<exists>d. Get c (s_id s) (m_store (p_state p)) = Some d \<and> s_next_fire d = '''' \<and> s_enabled d = s_enabled s))"
proof -
  have m: "CronMatches (s_cron s) x = Ret False" for x
    using e(1) by (simp add: CronMatches_def CronMatchesExpr_def Let_def)
  have ne: "s_cron s \<noteq> ''* * * * *''"
  proof
    assume "s_cron s = ''* * * * *''"
    moreover have "length (words ''* * * * *'') = 5" by code_simp
    ultimately show False using e(1) by simp
  qed
  have n: "ComputeNextFireImpl now (s_cron s) (IsoFromUnixMs t) = Ret ''''" for now
  proof -
    have "cron_scan (s_cron s) x y = Ret ''''" for x y by (simp add: cron_scan_Ret misses_def m)
    then show ?thesis using e(2) ne r by (simp add: ComputeNextFireImpl_def iso_round_trip)
  qed
  show "Scheduler_Update c t s rows = Ret (Update c (s\<lparr>s_next_fire := ''''\<rparr>) rows)"
    using e n by (simp add: Scheduler_Update_def)
  show "due_row bound (update_row (s\<lparr>s_next_fire := ''''\<rparr>) w) \<longleftrightarrow> s_enabled s"
    by (simp add: due_row_def update_row_def)
  show "let p = process_one c cfg (IsoFromUnixMs t) t s st in
       p_fired p = [s_id s @ ''@'' @ IsoFromUnixMs t] \<and>
       (\<exists>d. Get c (s_id s) (m_store (p_state p)) = Some d \<and> s_next_fire d = '''' \<and> s_enabled d = s_enabled s)"
    if h: "s_next_fire s = ''''" "s_semantics s \<noteq> ''lease_required''" "s_max_fires s \<le> 0"
      "Get c (s_id s) (m_store st) = Some s" "s_id s @ ''@'' @ IsoFromUnixMs t \<notin> claimed (m_runs st)"
  proof -
    have u: "run_uuid_of (IsoFromUnixMs t) s = s_id s @ ''@'' @ IsoFromUnixMs t"
      using h(1) by (simp add: run_uuid_of_def window_of_def)
    define s' where "s' = s\<lparr>s_last_fire := IsoFromUnixMs t, s_fire_count := s_fire_count s + 1, s_next_fire := ''''\<rparr>"
    have a: "advanced (IsoFromUnixMs t) t s = Ret s'" using e h n by (simp add: advanced_def s'_def)
    show ?thesis using due_run(1)[OF c h(2,4) a, of cfg] due_run(3)[OF c h(2,4) a, of cfg] h(5)
      unfolding u Let_def by (simp add: s'_def)
  qed
qed

text \<open>A recurring schedule whose cron text has not five or six fields never matches; updating it
  stores an empty next fire, which is due at every time, and from then on every pass at a new
  second fires it and stores the empty next fire again.\<close>

lemma empty_next_fire_fires_every_pass:
  assumes "length (words (s_cron s)) < 5" "s_cron s \<noteq> ''''" "s_type s = Recurring"
    and "prepares c" "writes c" and "clock_range t" "1000 \<le> t"
  shows "Scheduler_Update c t s rows = Ret (Update c (s\<lparr>s_next_fire := ''''\<rparr>) rows)
    \<and> (\<forall>bound w. due_row bound (update_row (s\<lparr>s_next_fire := ''''\<rparr>) w) \<longleftrightarrow> s_enabled s)
    \<and> (s_next_fire s = '''' \<and> s_semantics s \<noteq> ''lease_required'' \<and> s_max_fires s \<le> 0
        \<and> Get c (s_id s) (m_store st) = Some s \<and> s_id s @ ''@'' @ IsoFromUnixMs t \<notin> claimed (m_runs st) \<longrightarrow>
      (let p = process_one c cfg (IsoFromUnixMs t) t s st in
       p_fired p = [s_id s @ ''@'' @ IsoFromUnixMs t] \<and>
       (\<exists>d. Get c (s_id s) (m_store (p_state p)) = Some d \<and> s_next_fire d = '''' \<and> s_enabled d = s_enabled s)))"
  using empty_next_fire_fires_every_pass_parts[OF assms] by blast

text \<open>A next fire given with a time offset is compared as if it had none: whatever the offset
  says, the schedule is due from the second its local time names in UTC.\<close>

lemma due_ignores_offset:
  assumes "clock_range a" "clock_range b" "d = CHR ''+'' \<or> d = CHR ''-''"
    and "w_next_fire w @ ''Z'' = IsoFromUnixMs a"
  shows "due_row (IsoFromUnixMs b) (w\<lparr>w_next_fire := w_next_fire w @ d # offset_digits\<rparr>)
    \<longleftrightarrow> w_enabled w = 1 \<and> a div 1000 \<le> b div 1000"
proof -
  define p q where "p = put_time (gmtime_r (a div 1000))" and "q = put_time (gmtime_r (b div 1000))"
  have iso: "IsoFromUnixMs a = p @ ''Z''" "IsoFromUnixMs b = q @ ''Z''"
    using assms(1,2) by (simp_all add: IsoFromUnixMs_def to_time_t_def clock_range_def p_def q_def)
  have r: "0 \<le> x div 1000 \<and> x div 1000 < 253402300800" if "clock_range x" for x
    using that by (auto simp: clock_range_def)
  have l: "length p = length q"
    using year_range[of "a div 1000"] year_range[of "b div 1000"] r[OF assms(1)] r[OF assms(2)]
    by (simp add: p_def q_def length_put_time)
  have "w_next_fire w = p" using assms(4) iso(1) by simp
  moreover have "d # offset_digits < ''Z''" using assms(3) by (auto simp: less_char_def)
  then have "p @ d # offset_digits \<le> q @ ''Z'' \<longleftrightarrow> p @ ''Z'' \<le> q @ ''Z''"
    using append_le_iff[OF l] by simp
  ultimately show ?thesis using iso_le_iff[OF assms(1,2)] iso by (auto simp: due_row_def)
qed

text \<open>Nine o'clock in a zone two hours east is seven o'clock in UTC, but the schedule is not due
  before nine.\<close>

lemma due_ignores_offset_example:
  "\<not> due_row (IsoFromUnixMs 1778400000000) (demo_row\<lparr>w_next_fire := ''2026-05-10T09:00:00+02:00''\<rparr>)
   \<and> IsoFromUnixMs 1778400000000 = ''2026-05-10T08:00:00Z''"
proof -
  have i: "IsoFromUnixMs 1778403600000 = ''2026-05-10T09:00:00Z''" "IsoFromUnixMs 1778400000000 = ''2026-05-10T08:00:00Z''"
    by code_simp+
  have r: "clock_range 1778403600000" "clock_range 1778400000000" by (simp_all add: clock_range_def)
  from due_ignores_offset[OF r, of "CHR ''+''" "demo_row\<lparr>w_next_fire := ''2026-05-10T09:00:00''\<rparr>" "''02:00''"] i
  show ?thesis by simp
qed

lemma empty_next_fire_fires_every_pass_example:
  "p_fired (process_one healthy (default_sched_cfg ''n'') (IsoFromUnixMs 1783060800000) 1783060800000
      (RowToDescriptor (demo_row\<lparr>w_type := ''recurring'', w_next_fire := '''', w_cron := Some ''0 9 *'', w_max_fires := None\<rparr>))
      (demo_state [demo_row\<lparr>w_type := ''recurring'', w_next_fire := '''', w_cron := Some ''0 9 *'', w_max_fires := None\<rparr>]))
    = [''07@2026-07-03T06:40:00Z'']"
proof -
  define w where "w = demo_row\<lparr>w_type := ''recurring'', w_next_fire := '''', w_cron := Some ''0 9 *'', w_max_fires := None\<rparr>"
  define s where "s = RowToDescriptor w"
  have s: "s_id s = ''07''" "s_cron s = ''0 9 *''" "s_type s = Recurring" "s_next_fire s = ''''"
    "s_semantics s \<noteq> ''lease_required''" "s_max_fires s \<le> 0"
    by (simp_all add: s_def w_def RowToDescriptor_def demo_row_def insert_row_def demo_schedule_def or_default_def
        ParseType_def semantics_text_def Let_def)
  have e: "length (words (s_cron s)) < 5" unfolding s(2) by code_simp
  have g: "Get healthy (s_id s) (m_store (demo_state [w])) = Some s"
    unfolding s(1) by (simp add: Get_def healthy_def demo_state_def s_def w_def demo_row_def demo_schedule_def)
  have iso: "IsoFromUnixMs 1783060800000 = ''2026-07-03T06:40:00Z''" by code_simp
  have "claimed (m_runs (demo_state [w])) = {}" by (simp add: claimed_def demo_state_def no_runs_def)
  then have n: "s_id s @ ''@'' @ IsoFromUnixMs 1783060800000 \<notin> claimed (m_runs (demo_state [w]))" by simp
  have "p_fired (process_one healthy (default_sched_cfg ''n'') (IsoFromUnixMs 1783060800000) 1783060800000 s (demo_state [w]))
      = [s_id s @ ''@'' @ IsoFromUnixMs 1783060800000]"
    using empty_next_fire_fires_every_pass[OF e _ s(3), of healthy 1783060800000 "[]" "demo_state [w]" "default_sched_cfg ''n''"] s(2,4-6) g n
    by (simp add: healthy_def clock_range_def Let_def)
  then show ?thesis unfolding iso s(1) by (simp add: s_def w_def)
qed

end
