(* ===== verification/Json.thy ===== *)
theory Json
  imports Text
begin

text \<open>
  JSON values as the sources see them through jsoncpp: the value tree \<open>Json::Value\<close> and the
  accessors the sources call on it, with the exception (\<open>Json::LogicError\<close>) each one documents
  for a value of another type. Reading and writing the text itself is the library's, so a text
  that is only parsed is represented by what \<open>parseFromStream\<close> makes of it (\<open>None\<close>: it fails).
\<close>

text \<open>\<open>JInt\<close> holds the numbers \<open>isIntegral\<close> accepts, \<open>JReal\<close> the others, as the integer they
  truncate to and the text they print as. An object has each name at most once.\<close>

datatype json = JNull | JBool bool | JInt int | JReal int string | JStr string
  | JArr "json list" | JObj "(string \<times> json) list"

definition int_text :: "int \<Rightarrow> string" where
  "int_text i = (if i < 0 then ''-'' @ dec (nat (- i)) else dec (nat i))"

definition isObject :: "json \<Rightarrow> bool" where
  "isObject j = (case j of JObj _ \<Rightarrow> True | _ \<Rightarrow> False)"

definition isArray :: "json \<Rightarrow> bool" where
  "isArray j = (case j of JArr _ \<Rightarrow> True | _ \<Rightarrow> False)"

definition isString :: "json \<Rightarrow> bool" where
  "isString j = (case j of JStr _ \<Rightarrow> True | _ \<Rightarrow> False)"

definition isNumeric :: "json \<Rightarrow> bool" where
  "isNumeric j = (case j of JInt _ \<Rightarrow> True | JReal _ _ \<Rightarrow> True | _ \<Rightarrow> False)"

fun asString :: "json \<Rightarrow> string outcome" where
  "asString JNull = Ret ''''"
| "asString (JBool b) = Ret (if b then ''true'' else ''false'')"
| "asString (JInt i) = Ret (int_text i)"
| "asString (JReal _ s) = Ret s"
| "asString (JStr s) = Ret s"
| "asString (JArr _) = Throw"
| "asString (JObj _) = Throw"

text \<open>\<open>asInt64\<close>, \<open>asUInt64\<close> and \<open>asInt\<close> differ in the range they accept.\<close>

fun as_number :: "int \<Rightarrow> int \<Rightarrow> json \<Rightarrow> int outcome" where
  "as_number lo hi JNull = Ret 0"
| "as_number lo hi (JBool b) = Ret (of_bool b)"
| "as_number lo hi (JInt i) = (if lo \<le> i \<and> i \<le> hi then Ret i else Throw)"
| "as_number lo hi (JReal i _) = (if lo \<le> i \<and> i \<le> hi then Ret i else Throw)"
| "as_number lo hi (JStr _) = Throw"
| "as_number lo hi (JArr _) = Throw"
| "as_number lo hi (JObj _) = Throw"

abbreviation asInt64 :: "json \<Rightarrow> int outcome" where
  "asInt64 \<equiv> as_number (- (2 ^ 63)) (2 ^ 63 - 1)"

abbreviation asUInt64 :: "json \<Rightarrow> int outcome" where
  "asUInt64 \<equiv> as_number 0 (2 ^ 64 - 1)"

abbreviation asInt :: "json \<Rightarrow> int outcome" where
  "asInt \<equiv> as_number (- (2 ^ 31)) (2 ^ 31 - 1)"

fun asBool :: "json \<Rightarrow> bool outcome" where
  "asBool JNull = Ret False"
| "asBool (JBool b) = Ret b"
| "asBool (JInt i) = Ret (i \<noteq> 0)"
| "asBool (JReal _ _) = Ret True"
| "asBool _ = Throw"

text \<open>\<open>isMember\<close> and \<open>operator[]\<close> take an object or null and throw on any other value; a missing
  member reads as null.\<close>

fun isMember :: "json \<Rightarrow> string \<Rightarrow> bool outcome" where
  "isMember JNull k = Ret False"
| "isMember (JObj m) k = Ret (map_of m k \<noteq> None)"
| "isMember _ k = Throw"

fun member :: "json \<Rightarrow> string \<Rightarrow> json outcome" where
  "member JNull k = Ret JNull"
| "member (JObj m) k = Ret (case map_of m k of None \<Rightarrow> JNull | Some v \<Rightarrow> v)"
| "member _ k = Throw"

definition member_string :: "json \<Rightarrow> string \<Rightarrow> string outcome" where
  "member_string j k = bind_outcome (member j k) asString"

definition member_int64 :: "json \<Rightarrow> string \<Rightarrow> int outcome" where
  "member_int64 j k = bind_outcome (member j k) asInt64"

lemma isMember_obj [simp]: "isMember (JObj m) k = Ret (k \<in> fst ` set m)"
  by (auto simp: map_of_eq_None_iff)

declare isMember.simps(2) [simp del]

lemma dec_not_sign: "dec n \<noteq> CHR ''-'' # xs"
proof
  assume "dec n = CHR ''-'' # xs"
  then have "is_digit (CHR ''-'')" using dec_digits[of n] by simp
  then show False by (simp add: is_digit_def)
qed

lemma dec_inj: "dec m = dec n \<Longrightarrow> m = n"
  by (metis digits_val_dec)

lemma int_text_inj: "int_text i = int_text j \<Longrightarrow> i = j"
  by (auto simp: int_text_def dec_not_sign dest: dec_inj split: if_splits)
    (metis dec_not_sign)+

end
