(* ===== verification/IdRanges.thy ===== *)
theory IdRanges
  imports SchedStores Json "HOL-Library.AList"
begin

text \<open>
  Node-scoped id ranges (\<open>src/kernel/data/IdRanges.cpp\<close>): the list of replicated tables, the
  surrogate key of the one table with a composite key, and the seeding of the id sequences of both
  SQL dialects. What a dialect's seeding of one table promises is the locale \<open>id_seeder\<close>; the
  loop over the tables and the disjointness of the ranges of two nodes rest on it.
\<close>

subsection \<open>Replicated tables\<close>

definition AgentGlobalTables :: "string list" where
  "AgentGlobalTables =
     [''memory_layers'', ''observations'', ''layer_perspectives'', ''memory_mutations'', ''memory_files'',
      ''memory_file_chunks'', ''ontology_entities'', ''ontology_properties'', ''ontology_mutations'',
      ''diary_entries'', ''schedules'', ''task_runs'', ''schedule_leases'', ''agent_config'',
      ''api_package_secrets'']"

definition CompositeKeyTables :: "string list" where
  "CompositeKeyTables = [''agent_config'']"

definition IsCompositeKeyTable :: "string \<Rightarrow> bool" where
  "IsCompositeKeyTable t = (t \<in> set CompositeKeyTables)"

definition IsAgentGlobalTable :: "string \<Rightarrow> bool" where
  "IsAgentGlobalTable t = (t \<in> set AgentGlobalTables)"

subsection \<open>Composite keys\<close>

text \<open>The unit separator between the two halves.\<close>

definition US :: char where
  "US = CHR 0x1F"

text \<open>The key split at its first separator.\<close>

definition split_key :: "string \<Rightarrow> (string \<times> string) option" where
  "split_key k = (if US \<in> set k then Some (before US k, after US k) else None)"

definition pair_json :: "string \<times> string \<Rightarrow> json" where
  "pair_json ab = JObj [(''agent_id'', JStr (fst ab)), (''key'', JStr (snd ab))]"

text \<open>\<open>print_json\<close> and \<open>parse_json\<close> are the JSON library's.\<close>

definition CompositeKeyToJson :: "(json \<Rightarrow> string) \<Rightarrow> string \<Rightarrow> string" where
  "CompositeKeyToJson print_json k = (case split_key k of None \<Rightarrow> k | Some ab \<Rightarrow> print_json (pair_json ab))"

definition JsonToCompositeKey :: "(string \<Rightarrow> json option) \<Rightarrow> string \<Rightarrow> string outcome" where
  "JsonToCompositeKey parse_json p =
     (if p = '''' \<or> hd p \<noteq> CHR ''{'' then Ret p
      else case parse_json p of
             None \<Rightarrow> Ret p
           | Some v \<Rightarrow>
               if \<not> isObject v \<or> isMember v ''agent_id'' \<noteq> Ret True \<or> isMember v ''key'' \<noteq> Ret True then Ret p
               else bind_outcome (member_string v ''agent_id'') (\<lambda>a.
                    bind_outcome (member_string v ''key'') (\<lambda>k. Ret (a @ US # k))))"

lemma split_key_join: "split_key k = Some (a, b) \<Longrightarrow> k = a @ US # b"
proof (induction k arbitrary: a)
  case (Cons c k)
  then show ?case by (cases "c = US") (auto simp: split_key_def before_def after_def split: if_splits)
qed (simp add: split_key_def)

lemma split_key_of: "US \<notin> set a \<Longrightarrow> split_key (a @ US # b) = Some (a, b)"
  by (induction a) (auto simp: split_key_def before_def after_def)

subsection \<open>Seeding\<close>

definition kMaxNodeId :: u64 where
  "kMaxNodeId = push_bit 20 1 - 1"

definition node_seed :: "u64 \<Rightarrow> u64" where
  "node_seed n = push_bit 40 n"

text \<open>\<open>sqlite_sequence\<close>, absent on a fresh database; \<open>layers\<close> says whether \<open>memory_layers\<close> is
  there to take the throwaway insert.\<close>

record sqlite_seqs =
  seq_table :: "(string \<times> int) list option"
  layers :: bool

definition EnsureSqliteSequenceTable :: "conn \<Rightarrow> sqlite_seqs \<Rightarrow> bool \<times> sqlite_seqs" where
  "EnsureSqliteSequenceTable c s =
     (if prepares c \<and> seq_table s \<noteq> None then (True, s)
      else if \<not> prepares c \<or> \<not> layers s then (False, s)
      else if writes c then (True, s\<lparr>seq_table := Some [(''memory_layers'', 1)]\<rparr>)
      else (False, s))"

definition SeedSqlite :: "conn \<Rightarrow> string \<Rightarrow> int \<Rightarrow> sqlite_seqs \<Rightarrow> bool \<times> sqlite_seqs" where
  "SeedSqlite c table seed s0 =
     (case EnsureSqliteSequenceTable c s0 of
        (False, s) \<Rightarrow> (False, s)
      | (True, s) \<Rightarrow>
          if \<not> prepares c then (False, s)
          else let rows = or_default [] (seq_table s);
                   row = map_of rows table
               in if row \<noteq> None \<and> the row \<ge> seed then (True, s)
                  else if writes c
                       then (True, s\<lparr>seq_table := Some (AList.update table seed rows)\<rparr>)
                       else (True, s))"

text \<open>A PostgreSQL database: per table the type of its id column (\<open>None\<close>: no such table) and its
  id sequence (\<open>None\<close>: none), as \<open>last_value\<close> and \<open>is_called\<close>. \<open>execs\<close> says whether the DDL
  statements succeed.\<close>

record pg_seqs =
  id_type :: "(string \<times> string) list"
  pg_seq :: "(string \<times> (int \<times> bool)) list"

definition WidenIdColumnIfInt4 :: "conn \<Rightarrow> bool \<Rightarrow> string \<Rightarrow> pg_seqs \<Rightarrow> bool \<times> pg_seqs" where
  "WidenIdColumnIfInt4 c execs table s =
     (if \<not> prepares c then (False, s)
      else case map_of (id_type s) table of
             None \<Rightarrow> (True, s)
           | Some ty \<Rightarrow>
               if ty \<noteq> ''integer'' then (True, s)
               else if \<not> execs then (False, s)
               else (True, s\<lparr>id_type := AList.update table ''bigint'' (id_type s)\<rparr>))"

definition SeedPostgres :: "conn \<Rightarrow> bool \<Rightarrow> string \<Rightarrow> int \<Rightarrow> pg_seqs \<Rightarrow> bool \<times> pg_seqs" where
  "SeedPostgres c execs table seed s0 =
     (case WidenIdColumnIfInt4 c execs table s0 of
        (False, s) \<Rightarrow> (False, s)
      | (True, s) \<Rightarrow>
          if \<not> prepares c then (False, s)
          else case map_of (pg_seq s) table of
                 None \<Rightarrow> (True, s)
               | Some (lastv, called) \<Rightarrow>
                   let nxt = (if called then lastv + 1 else lastv)
                   in if nxt \<ge> seed then (True, s)
                      else if execs
                           then (True, s\<lparr>pg_seq := AList.update table (seed + 1, False) (pg_seq s)\<rparr>)
                           else (False, s))"

text \<open>The loop over the tables; \<open>task_runs\<close> is seeded a second time after it.\<close>

datatype seqs = Sqlite sqlite_seqs | Postgres pg_seqs

fun seed_table :: "conn \<Rightarrow> bool \<Rightarrow> string \<Rightarrow> int \<Rightarrow> seqs \<Rightarrow> bool \<times> seqs" where
  "seed_table c execs t n (Sqlite s) = map_prod id Sqlite (SeedSqlite c t n s)"
| "seed_table c execs t n (Postgres s) = map_prod id Postgres (SeedPostgres c execs t n s)"

fun seed_tables :: "conn \<Rightarrow> bool \<Rightarrow> int \<Rightarrow> string list \<Rightarrow> seqs \<Rightarrow> int \<times> seqs" where
  "seed_tables c execs n [] s = (0, s)"
| "seed_tables c execs n (t # ts) s =
     (let (ok, s') = seed_table c execs t n s;
          (k, s'') = seed_tables c execs n ts s'
      in ((if ok then 1 else 0) + k, s''))"

definition SeedAgentGlobalIdRanges ::
    "conn \<Rightarrow> bool \<Rightarrow> u64 \<Rightarrow> seqs option \<Rightarrow> int \<times> string \<times> seqs option" where
  "SeedAgentGlobalIdRanges c execs nodeId store =
     (case store of
        None \<Rightarrow> (-1, ''null data store'', None)
      | Some s \<Rightarrow>
          if nodeId = 0 then (0, '''', Some s)
          else if nodeId > kMaxNodeId
               then (-1, ''node id out of range [1, '' @ dec (unat kMaxNodeId) @ '']'', Some s)
          else let (raised, s') = seed_tables c execs (sint (node_seed nodeId))
                                    (AgentGlobalTables @ [''task_runs'']) s
               in (raised, '''', Some s'))"

subsection \<open>The ids a sequence hands out\<close>

text \<open>What SQLite's AUTOINCREMENT and PostgreSQL's \<open>nextval\<close> allocate for an insert without id.\<close>

definition sqlite_next :: "sqlite_seqs \<Rightarrow> string \<Rightarrow> int" where
  "sqlite_next s t = or_default 0 (map_of (or_default [] (seq_table s)) t) + 1"

definition pg_next :: "pg_seqs \<Rightarrow> string \<Rightarrow> int" where
  "pg_next s t = (case map_of (pg_seq s) t of None \<Rightarrow> 1 | Some (l, called) \<Rightarrow> if called then l + 1 else l)"

fun next_id :: "seqs \<Rightarrow> string \<Rightarrow> int" where
  "next_id (Sqlite s) t = sqlite_next s t"
| "next_id (Postgres s) t = pg_next s t"

fun allocate :: "string \<Rightarrow> seqs \<Rightarrow> seqs" where
  "allocate t (Sqlite s) =
     Sqlite (s\<lparr>seq_table := Some (AList.update t (sqlite_next s t) (or_default [] (seq_table s)))\<rparr>)"
| "allocate t (Postgres s) = Postgres (s\<lparr>pg_seq := AList.update t (pg_next s t, True) (pg_seq s)\<rparr>)"

fun ids :: "string \<Rightarrow> nat \<Rightarrow> seqs \<Rightarrow> int list" where
  "ids t 0 s = []"
| "ids t (Suc k) s = next_id s t # ids t k (allocate t s)"

text \<open>A table whose ids come from a sequence.\<close>

fun sequenced :: "seqs \<Rightarrow> string \<Rightarrow> bool" where
  "sequenced (Sqlite s) t = (layers s \<or> seq_table s \<noteq> None)"
| "sequenced (Postgres s) t = (map_of (pg_seq s) t \<noteq> None)"

lemma or_default_simps [simp]: "or_default d None = d" "or_default d (Some x) = x"
  by (simp_all add: or_default_def)

lemma next_id_allocate: "next_id (allocate t s) t = next_id s t + 1"
  by (cases s) (auto simp: sqlite_next_def pg_next_def update_conv')

lemma ids_range: "ids t k s = map (\<lambda>i. next_id s t + int i) [0..<k]"
proof (induction k arbitrary: s)
  case (Suc k)
  have "map (\<lambda>i. next_id s t + int i) [0..<Suc k] = next_id s t # map (\<lambda>i. next_id s t + int (Suc i)) [0..<k]"
    by (subst upt_conv_Cons) (auto simp: map_Suc_upt [symmetric] simp del: upt_Suc)
  then show ?case using Suc by (simp add: next_id_allocate algebra_simps)
qed simp

subsection \<open>What seeding promises\<close>

text \<open>Raise-only, never past the first id of the range, and other tables keep their sequences.\<close>

locale id_seeder =
  fixes seed1 :: "string \<Rightarrow> int \<Rightarrow> 's \<Rightarrow> bool \<times> 's"
    and nxt :: "'s \<Rightarrow> string \<Rightarrow> int"
    and seq_of :: "'s \<Rightarrow> string \<Rightarrow> bool"
  assumes raises: "0 < n \<Longrightarrow> nxt s t' \<le> nxt (snd (seed1 t n s)) t'"
    and capped: "0 < n \<Longrightarrow> nxt s t' \<le> n + 1 \<Longrightarrow> nxt (snd (seed1 t n s)) t' \<le> n + 1"
    and seeds: "0 < n \<Longrightarrow> seq_of s t \<Longrightarrow> n \<le> nxt (snd (seed1 t n s)) t"
    and keeps: "seq_of s t' \<Longrightarrow> seq_of (snd (seed1 t n s)) t'"
begin

fun seed_list :: "int \<Rightarrow> string list \<Rightarrow> 's \<Rightarrow> 's" where
  "seed_list n [] s = s"
| "seed_list n (t # ts) s = seed_list n ts (snd (seed1 t n s))"

lemma seed_list_raises: "0 < n \<Longrightarrow> nxt s t \<le> nxt (seed_list n ts s) t"
  by (induction ts arbitrary: s) (auto intro: order_trans[OF raises])

lemma seed_list_capped: "0 < n \<Longrightarrow> nxt s t \<le> n + 1 \<Longrightarrow> nxt (seed_list n ts s) t \<le> n + 1"
  by (induction ts arbitrary: s) (auto intro: capped)

lemma seed_list_seeds: "0 < n \<Longrightarrow> seq_of s t \<Longrightarrow> t \<in> set ts \<Longrightarrow> n \<le> nxt (seed_list n ts s) t"
  by (induction ts arbitrary: s) (auto intro: order_trans[OF seeds seed_list_raises] keeps)

end

lemma SeedSqlite_next:
  "0 \<le> n \<Longrightarrow> sqlite_next (snd (SeedSqlite healthy t n s)) t'
   = (if \<not> layers s \<and> seq_table s = None then 1
      else let old = (if seq_table s = None \<and> t' = ''memory_layers'' then 2 else sqlite_next s t')
           in if t' = t then max old (n + 1) else old)"
  by (auto simp: SeedSqlite_def EnsureSqliteSequenceTable_def healthy_def sqlite_next_def update_conv' Let_def
      or_default_def max_def split: if_splits option.splits)

lemma SeedSqlite_keeps:
  "layers (snd (SeedSqlite c t n s)) = layers s \<and>
   (seq_table s \<noteq> None \<longrightarrow> seq_table (snd (SeedSqlite c t n s)) \<noteq> None) \<and>
   (layers s \<and> prepares c \<and> writes c \<longrightarrow> seq_table (snd (SeedSqlite c t n s)) \<noteq> None)"
  by (auto simp: SeedSqlite_def EnsureSqliteSequenceTable_def Let_def)

lemma SeedPostgres_next:
  "pg_next (snd (SeedPostgres healthy True t n s)) t'
   = (if t' = t \<and> map_of (pg_seq s) t \<noteq> None \<and> pg_next s t < n then n + 1 else pg_next s t')"
  by (auto simp: SeedPostgres_def WidenIdColumnIfInt4_def healthy_def pg_next_def update_conv' Let_def
      split: option.splits if_splits)

lemma SeedPostgres_keeps:
  "map_of (pg_seq s) t' \<noteq> None \<Longrightarrow> map_of (pg_seq (snd (SeedPostgres c e t n s))) t' \<noteq> None"
  by (auto simp: SeedPostgres_def WidenIdColumnIfInt4_def update_conv' Let_def split: option.splits if_splits)

interpretation sq: id_seeder "SeedSqlite healthy" sqlite_next "\<lambda>s t. layers s \<or> seq_table s \<noteq> None"
proof unfold_locales
  fix n t t' and s :: sqlite_seqs
  assume n: "(0::int) < n"
  show "sqlite_next s t' \<le> sqlite_next (snd (SeedSqlite healthy t n s)) t'"
    using n by (auto simp: SeedSqlite_next Let_def) (simp_all add: sqlite_next_def or_default_def)
  show "sqlite_next s t' \<le> n + 1 \<Longrightarrow> sqlite_next (snd (SeedSqlite healthy t n s)) t' \<le> n + 1"
    using n by (auto simp: SeedSqlite_next Let_def)
  show "layers s \<or> seq_table s \<noteq> None \<Longrightarrow> n \<le> sqlite_next (snd (SeedSqlite healthy t n s)) t"
    using n by (auto simp: SeedSqlite_next Let_def)
next
  fix t n and s :: sqlite_seqs
  assume "layers s \<or> seq_table s \<noteq> None"
  then show "layers (snd (SeedSqlite healthy t n s)) \<or> seq_table (snd (SeedSqlite healthy t n s)) \<noteq> None"
    using SeedSqlite_keeps[of healthy t n s] by auto
qed

interpretation pg: id_seeder "SeedPostgres healthy True" pg_next "\<lambda>s t. map_of (pg_seq s) t \<noteq> None"
proof unfold_locales
  fix n t t' and s :: pg_seqs
  assume n: "(0::int) < n"
  show "pg_next s t' \<le> pg_next (snd (SeedPostgres healthy True t n s)) t'"
    unfolding SeedPostgres_next by auto
  show "pg_next s t' \<le> n + 1 \<Longrightarrow> pg_next (snd (SeedPostgres healthy True t n s)) t' \<le> n + 1"
    unfolding SeedPostgres_next by auto
  show "map_of (pg_seq s) t \<noteq> None \<Longrightarrow> n \<le> pg_next (snd (SeedPostgres healthy True t n s)) t"
    unfolding SeedPostgres_next by auto
next
  fix t t' n and s :: pg_seqs
  show "map_of (pg_seq s) t' \<noteq> None \<Longrightarrow> map_of (pg_seq (snd (SeedPostgres healthy True t n s))) t' \<noteq> None"
    by (rule SeedPostgres_keeps)
qed

text \<open>Either dialect.\<close>

lemma seed_table_cases:
  "snd (seed_table c e t n (Sqlite s)) = Sqlite (snd (SeedSqlite c t n s))"
  "snd (seed_table c e t n (Postgres p)) = Postgres (snd (SeedPostgres c e t n p))"
  by (simp_all add: split_beta)

interpretation both: id_seeder "seed_table healthy True" next_id sequenced
proof unfold_locales
  fix n t t' and s :: seqs
  show "0 < n \<Longrightarrow> next_id s t' \<le> next_id (snd (seed_table healthy True t n s)) t'"
    using sq.raises pg.raises by (cases s) (auto simp del: seed_table.simps simp: seed_table_cases)
  show "0 < n \<Longrightarrow> next_id s t' \<le> n + 1 \<Longrightarrow> next_id (snd (seed_table healthy True t n s)) t' \<le> n + 1"
    using sq.capped pg.capped by (cases s) (auto simp del: seed_table.simps simp: seed_table_cases)
  show "0 < n \<Longrightarrow> sequenced s t \<Longrightarrow> n \<le> next_id (snd (seed_table healthy True t n s)) t"
    using sq.seeds pg.seeds by (cases s) (auto simp del: seed_table.simps simp: seed_table_cases)
  show "sequenced s t' \<Longrightarrow> sequenced (snd (seed_table healthy True t n s)) t'"
    using sq.keeps pg.keeps by (cases s) (auto simp del: seed_table.simps simp: seed_table_cases)
qed

lemma seed_tables_list: "snd (seed_tables healthy True n ts s) = both.seed_list n ts s"
  by (induction ts arbitrary: s) (auto simp: split_beta)

text \<open>The seeds of the admissible nodes lie \<open>2\<^sup>40\<close> apart, far inside a signed 64-bit integer.\<close>

lemma node_seed_val: "n \<le> kMaxNodeId \<Longrightarrow> sint (node_seed n) = int (unat n) * 2 ^ 40"
proof -
  assume "n \<le> kMaxNodeId"
  moreover have "unat kMaxNodeId = 2 ^ 20 - 1" by (simp add: kMaxNodeId_def)
  ultimately have n: "unat n < 2 ^ 20" by (simp add: word_le_nat_alt)
  have "unat (node_seed n) = unat n * unat (2 ^ 40 :: u64) mod 2 ^ 64"
    unfolding node_seed_def push_bit_eq_mult by (simp only: unat_word_ariths len_num0 len_bit0 len_num1) simp
  also have "\<dots> = unat n * 2 ^ 40" using n by simp
  finally have u: "unat (node_seed n) = unat n * 2 ^ 40" .
  then have "unat (node_seed n) < 2 ^ 63" using n by simp
  then have "int (unat (node_seed n)) < int (2 ^ 63)" by (rule of_nat_less_iff[THEN iffD2])
  then have b: "uint (node_seed n) < 2 ^ 63" by simp
  have "- (2 ^ 63) \<le> uint (node_seed n)" by (rule order_trans[OF _ unsigned_greater_eq]) simp
  then have "sint (node_seed n) = int (unat (node_seed n))"
    using b by (simp add: sint_uint signed_take_bit_int_eq_self)
  then show ?thesis using u by simp
qed

lemma seeded:
  assumes "SeedAgentGlobalIdRanges healthy True n (Some s) = (k, e, Some s')" "0 < n" "n \<le> kMaxNodeId"
  shows "s' = both.seed_list (int (unat n) * 2 ^ 40) (AgentGlobalTables @ [''task_runs'']) s"
  using assms node_seed_val[of n] seed_tables_list[of "int (unat n) * 2 ^ 40" "AgentGlobalTables @ [''task_runs'']" s]
  by (auto simp: SeedAgentGlobalIdRanges_def split: prod.splits if_splits)

lemma seeded_ids:
  assumes run: "SeedAgentGlobalIdRanges healthy True n (Some s) = (k, e, Some s')" "0 < n" "n \<le> kMaxNodeId"
    and t: "t \<in> set AgentGlobalTables" "sequenced s t" and low: "next_id s t \<le> int (unat n) * 2 ^ 40 + 1"
    and i: "i \<in> set (ids t m s')" "m < 2 ^ 40"
  shows "int (unat n) * 2 ^ 40 \<le> i \<and> i < (int (unat n) + 1) * 2 ^ 40"
proof -
  have "unat n \<noteq> 0" using run(2) by (metis unsigned_0 unsigned_word_eqI word_gt_0)
  then have pos: "0 < int (unat n) * 2 ^ 40" by (simp del: of_nat_unat)
  note s' = seeded[OF run]
  have "int (unat n) * 2 ^ 40 \<le> next_id s' t"
    unfolding s' using both.seed_list_seeds[OF pos t(2)] t(1) by simp
  moreover have "next_id s' t \<le> int (unat n) * 2 ^ 40 + 1"
    unfolding s' using both.seed_list_capped[OF pos low] .
  ultimately show ?thesis using i by (auto simp: ids_range)
qed


definition fresh_sqlite :: seqs where
  "fresh_sqlite = Sqlite \<lparr>seq_table = None, layers = True\<rparr>"

definition fresh_postgres :: seqs where
  "fresh_postgres = Postgres \<lparr>id_type = [(''schedule_leases'', ''integer'')], pg_seq = [(''schedule_leases'', (1, False))]\<rparr>"


text \<open>A composite key written as a JSON object reads back as the same key, whatever its two halves
  hold (the first separator is the one that splits it); the JSON library is assumed to read back the
  object it printed, printing it without a leading blank.\<close>

lemma composite_key_roundtrip:
  assumes "split_key k = Some ab"
    and "print_json (pair_json ab) = CHR ''{'' # r"
    and "parse_json (print_json (pair_json ab)) = Some (pair_json ab)"
  shows "JsonToCompositeKey parse_json (CompositeKeyToJson print_json k) = Ret k"
  using assms split_key_join[of k "fst ab" "snd ab"]
  by (simp add: JsonToCompositeKey_def CompositeKeyToJson_def isObject_def member_string_def pair_json_def)

definition show_pair :: "json \<Rightarrow> string" where
  "show_pair j = (case j of JObj [(_, JStr a), (_, JStr b)] \<Rightarrow> CHR ''{'' # a @ US # b | _ \<Rightarrow> '''')"

definition read_pair :: "string \<Rightarrow> json option" where
  "read_pair s = map_option pair_json (split_key (tl s))"

lemma composite_key_roundtrip_example:
  "JsonToCompositeKey read_pair (CompositeKeyToJson show_pair (''cto'' @ US # ''model'')) = Ret (''cto'' @ US # ''model'')"
proof (rule composite_key_roundtrip)
  show s: "split_key (''cto'' @ US # ''model'') = Some (''cto'', ''model'')" by (rule split_key_of) (simp add: US_def)
  show "show_pair (pair_json (''cto'', ''model'')) = CHR ''{'' # ''cto'' @ US # ''model''"
    by (simp add: show_pair_def pair_json_def)
  then show "read_pair (show_pair (pair_json (''cto'', ''model''))) = Some (pair_json (''cto'', ''model''))"
    using s by (simp add: read_pair_def)
qed

text \<open>The result counts the tables whose seeding did not fail, raised or not, so seeding a second
  time reports as many tables as the first time, and a failed write is counted too.\<close>

lemma SeedSqlite_ok: "prepares c \<Longrightarrow> seq_table s \<noteq> None \<Longrightarrow> fst (SeedSqlite c t n s)"
  by (auto simp: SeedSqlite_def EnsureSqliteSequenceTable_def Let_def)

lemma seed_count_constant:
  assumes "prepares c" "seq_table s \<noteq> None"
  shows "fst (seed_tables c e n ts (Sqlite s)) = int (length ts)"
  using assms
proof (induction ts arbitrary: s)
  case (Cons t ts)
  obtain ok s' where r: "SeedSqlite c t n s = (ok, s')" by fastforce
  then have "ok" "seq_table s' \<noteq> None"
    using SeedSqlite_ok[OF Cons.prems, of t n] SeedSqlite_keeps[of c t n s] Cons.prems by auto
  then show ?case using Cons.IH[OF Cons.prems(1), of s'] r by (simp add: split_beta)
qed simp

end
