(* ===== verification/SyncStore.thy ===== *)
theory SyncStore
  imports IdRanges
begin

text \<open>
  Replication of the agent-global tables (\<open>src/kernel/data/SyncStore.cpp\<close>): the change triggers
  that record every write in an outbox and stamp the row with (milliseconds, node), the
  last-writer-wins application of a peer's record, the peer cursors, the digests, and the schema
  set-up with its row-id migration. The triggers are the SQL the code installs, translated.
  What the SQL engine adds is data of a table: the affinity of a column (\<open>None\<close>: datatype
  mismatch), its default, and the other constraints a row must satisfy.
\<close>

subsection \<open>Rows\<close>

datatype sqlval = SNull | SInt int | SReal int string | SText string

type_synonym row = "(string \<times> sqlval) list"

definition get :: "string \<Rightarrow> row \<Rightarrow> sqlval" where
  "get c r = or_default SNull (map_of r c)"

text \<open>What \<open>json_object\<close> makes of a column.\<close>

fun json_of :: "sqlval \<Rightarrow> json" where
  "json_of SNull = JNull"
| "json_of (SInt i) = JInt i"
| "json_of (SReal i s) = JReal i s"
| "json_of (SText s) = JStr s"

record table =
  t_cols :: "string list"
  t_rows :: "(string \<times> row) list"
  t_seq :: "int option"
  t_triggers :: bool
  t_affinity :: "string \<Rightarrow> sqlval \<Rightarrow> sqlval option"
  t_default :: "string \<Rightarrow> sqlval"
  t_accepts :: "row list \<Rightarrow> row \<Rightarrow> bool"

text \<open>The row identity of the triggers: \<open>CAST(id AS TEXT)\<close>, or both halves of a composite key.\<close>

fun cast_text :: "sqlval \<Rightarrow> string option" where
  "cast_text SNull = None"
| "cast_text (SInt i) = Some (int_text i)"
| "cast_text (SReal i s) = Some s"
| "cast_text (SText s) = Some s"

definition row_key :: "string \<Rightarrow> row \<Rightarrow> string option" where
  "row_key t r =
     (if IsCompositeKeyTable t
      then (case (cast_text (get ''agent_id'' r), cast_text (get ''key'' r)) of
              (Some a, Some k) \<Rightarrow> Some (a @ US # k) | _ \<Rightarrow> None)
      else cast_text (get ''id'' r))"

subsection \<open>The state of a node\<close>

record outbox_record =
  outbox_id :: int
  origin_node :: int
  table_name :: string
  rec_key :: string
  rec_op :: string
  payload :: "json option"
  unix_ms :: ms

text \<open>A row of \<open>sync_control\<close>; the four \<open>apply_\<close> columns are set and cleared together.\<close>

record apply_ctx =
  apply_table :: string
  apply_row_id :: string
  apply_origin :: int
  apply_ms :: ms

record control =
  ctl_node :: int
  ctl_apply :: "apply_ctx option"

type_synonym version = "ms \<times> int"

text \<open>\<open>outbox_type\<close> and \<open>versions_type\<close> are the declared types of the row-id columns, \<open>None\<close> when
  the table does not exist.\<close>

record sync =
  node_id :: int
  controls :: "control list"
  tables :: "(string \<times> table) list"
  versions :: "((string \<times> string) \<times> version) list"
  outbox :: "outbox_record list"
  next_outbox :: int
  cursors :: "(int \<times> int) list"
  outbox_type :: "string option"
  versions_type :: "string option"
  synced_tables :: "string list"
  notified :: "(string \<times> string) list"

subsection \<open>Triggers\<close>

text \<open>The stamp: the published one on the row being applied, else the clock and the node.\<close>

definition matches_ctx :: "control \<Rightarrow> string \<Rightarrow> string \<Rightarrow> apply_ctx option" where
  "matches_ctx ctl t k =
     (case ctl_apply ctl of
        Some a \<Rightarrow> if apply_table a = t \<and> apply_row_id a = k then Some a else None
      | None \<Rightarrow> None)"

definition stamp :: "control \<Rightarrow> ms \<Rightarrow> string \<Rightarrow> string \<Rightarrow> version" where
  "stamp ctl now t k =
     (case matches_ctx ctl t k of Some a \<Rightarrow> (apply_ms a, apply_origin a) | None \<Rightarrow> (now, ctl_node ctl))"

text \<open>A firing writes the outbox row, then the version row with the same stamp. Without a control
  row the origin is NULL, which the outbox refuses, and the statement that fired it fails.\<close>

definition fire_trigger :: "ms \<Rightarrow> string \<Rightarrow> string \<Rightarrow> string \<Rightarrow> json \<Rightarrow> sync \<Rightarrow> sync option" where
  "fire_trigger now t k op p s =
     (case controls s of
        [] \<Rightarrow> None
      | ctl # _ \<Rightarrow>
          if outbox_type s = None \<or> versions_type s = None then None
          else let (m, n) = stamp ctl now t k
               in Some (s\<lparr>outbox := outbox s @ [\<lparr>outbox_id = next_outbox s, origin_node = n, table_name = t,
                                                 rec_key = k, rec_op = op, payload = Some p, unix_ms = m\<rparr>],
                          next_outbox := next_outbox s + 1,
                          versions := AList.update (t, k) (m, n) (versions s)\<rparr>))"

definition upsert_payload :: "row \<Rightarrow> json" where
  "upsert_payload r = JObj (map (\<lambda>(c, v). (c, json_of v)) r)"

definition delete_payload :: "string \<Rightarrow> row \<Rightarrow> json" where
  "delete_payload t r =
     JObj (map (\<lambda>c. (c, json_of (get c r))) (if IsCompositeKeyTable t then [''agent_id'', ''key''] else [''id'']))"

text \<open>\<open>INSERT ... ON CONFLICT (key) DO UPDATE\<close> of the given columns, with its trigger. \<open>None\<close>: the
  statement fails and nothing is changed.\<close>

fun coerce :: "(string \<Rightarrow> sqlval \<Rightarrow> sqlval option) \<Rightarrow> row \<Rightarrow> row option" where
  "coerce aff [] = Some []"
| "coerce aff ((c, v) # r) =
     (case (aff c v, coerce aff r) of (Some w, Some r') \<Rightarrow> Some ((c, w) # r') | _ \<Rightarrow> None)"

definition with_defaults :: "table \<Rightarrow> row \<Rightarrow> row" where
  "with_defaults tab vals =
     map (\<lambda>c. (c, case map_of vals c of Some v \<Rightarrow> v | None \<Rightarrow> t_default tab c)) (t_cols tab)"

definition overwrite :: "row \<Rightarrow> row \<Rightarrow> row" where
  "overwrite vals old = map (\<lambda>(c, v). (c, or_default v (map_of vals c))) old"

definition number_row :: "table \<Rightarrow> row \<Rightarrow> row" where
  "number_row tab r =
     (case (get ''id'' r, t_seq tab) of
        (SNull, Some n) \<Rightarrow> overwrite [(''id'', SInt (n + 1))] r
      | _ \<Rightarrow> r)"

text \<open>AUTOINCREMENT never hands out an id below one the table has held.\<close>

definition seq_after :: "row \<Rightarrow> int option \<Rightarrow> int option" where
  "seq_after r sq = (case (sq, get ''id'' r) of (Some n, SInt i) \<Rightarrow> Some (max n i) | _ \<Rightarrow> sq)"

definition put_table :: "string \<Rightarrow> table \<Rightarrow> sync \<Rightarrow> sync" where
  "put_table t tab s = s\<lparr>tables := AList.update t tab (tables s)\<rparr>"

definition write_row :: "ms \<Rightarrow> string \<Rightarrow> row \<Rightarrow> sync \<Rightarrow> sync option" where
  "write_row now t vals s =
     (case map_of (tables s) t of
        None \<Rightarrow> None
      | Some tab \<Rightarrow>
          (case coerce (t_affinity tab) vals of
             None \<Rightarrow> None
           | Some vs \<Rightarrow>
               let new = number_row tab (with_defaults tab vs)
               in case row_key t new of
                    None \<Rightarrow> None
                  | Some k \<Rightarrow>
                      let r = (case map_of (t_rows tab) k of None \<Rightarrow> new | Some old \<Rightarrow> overwrite vs old);
                          others = map snd (AList.delete k (t_rows tab));
                          s' = put_table t (tab\<lparr>t_rows := AList.update k r (t_rows tab),
                                                t_seq := seq_after r (t_seq tab)\<rparr>) s
                      in if \<not> t_accepts tab others new \<or> \<not> t_accepts tab others r then None
                         else if t_triggers tab then fire_trigger now t k ''upsert'' (upsert_payload r) s'
                         else Some s'))"

fun fire_all :: "ms \<Rightarrow> string \<Rightarrow> string \<Rightarrow> (string \<times> json) list \<Rightarrow> sync \<Rightarrow> sync option" where
  "fire_all now t op [] s = Some s"
| "fire_all now t op ((k, p) # ks) s =
     (case fire_trigger now t k op p s of None \<Rightarrow> None | Some s' \<Rightarrow> fire_all now t op ks s')"

definition delete_rows :: "ms \<Rightarrow> string \<Rightarrow> (row \<Rightarrow> bool) \<Rightarrow> sync \<Rightarrow> sync option" where
  "delete_rows now t P s =
     (case map_of (tables s) t of
        None \<Rightarrow> None
      | Some tab \<Rightarrow>
          let gone = filter (\<lambda>(k, r). P r) (t_rows tab);
              s' = put_table t (tab\<lparr>t_rows := filter (\<lambda>(k, r). \<not> P r) (t_rows tab)\<rparr>) s
          in if t_triggers tab then fire_all now t ''delete'' (map (\<lambda>(k, r). (k, delete_payload t r)) gone) s'
             else Some s')"

subsection \<open>Set-up and migration\<close>

text \<open>Rebuilding a table with a new row-id type, over a catalog of tables with that type and their
  rows; \<open>rebuild_conn\<close> says which statement succeeds.\<close>

record rebuild_conn =
  x_drop_tmp :: bool
  x_create :: bool
  x_copy :: bool
  x_drop_old :: bool
  x_rename :: bool
  x_err :: string

type_synonym 'a catalog = "(string \<times> string \<times> 'a list) list"

definition RebuildSqliteTableWide ::
    "rebuild_conn \<Rightarrow> string \<Rightarrow> string \<Rightarrow> string \<Rightarrow> 'a catalog \<Rightarrow> bool \<times> string \<times> 'a catalog" where
  "RebuildSqliteTableWide x ddl ty tbl cat =
     (let tmp = tbl @ ''__p2a_tmp''
      in if \<not> contains tbl ddl then (False, ''ddl does not name the table'', cat)
         else if \<not> x_drop_tmp x then (False, ''drop tmp failed: '' @ x_err x, cat)
         else let c1 = AList.delete tmp cat
         in if \<not> x_create x then (False, ''create tmp failed: '' @ x_err x, c1)
         else case map_of cat tbl of
                None \<Rightarrow> (False, ''copy rows failed: '' @ x_err x, c1)
              | Some (_, rows) \<Rightarrow>
                  if \<not> x_copy x then (False, ''copy rows failed: '' @ x_err x, c1)
                  else let c3 = AList.update tmp (ty, rows) c1
                  in if \<not> x_drop_old x then (False, ''drop old failed: '' @ x_err x, c3)
                  else let c4 = AList.delete tbl c3
                  in if \<not> x_rename x then (False, ''rename failed: '' @ x_err x, c4)
                  else (True, '''', AList.update tbl (ty, rows) (AList.delete tmp c4)))"

definition outbox_ddl :: string where
  "outbox_ddl = ''CREATE TABLE sync_outbox (id INTEGER PRIMARY KEY AUTOINCREMENT, origin_node INTEGER NOT NULL, '' @
     ''table_name TEXT NOT NULL, row_id TEXT NOT NULL, op TEXT NOT NULL, payload TEXT NOT NULL, unix_ms INTEGER NOT NULL)''"

definition versions_ddl :: string where
  "versions_ddl = ''CREATE TABLE sync_row_versions (table_name TEXT NOT NULL, row_id TEXT NOT NULL, '' @
     ''last_ms INTEGER NOT NULL, last_node INTEGER NOT NULL, PRIMARY KEY (table_name, row_id))''"

definition catalog_of :: "string \<Rightarrow> string option \<Rightarrow> 'a list \<Rightarrow> 'a catalog" where
  "catalog_of t ty rows = (case ty of None \<Rightarrow> [] | Some y \<Rightarrow> [(t, y, rows)])"

definition from_catalog :: "string \<Rightarrow> 'a catalog \<Rightarrow> string option \<times> 'a list" where
  "from_catalog t cat = (case map_of cat t of None \<Rightarrow> (None, []) | Some (y, rows) \<Rightarrow> (Some y, rows))"

definition rebuild_outbox :: "rebuild_conn \<Rightarrow> sync \<Rightarrow> sync" where
  "rebuild_outbox x s =
     (let (_, _, cat) = RebuildSqliteTableWide x outbox_ddl ''TEXT'' ''sync_outbox''
                          (catalog_of ''sync_outbox'' (outbox_type s) (outbox s));
          (ty, rows) = from_catalog ''sync_outbox'' cat
      in s\<lparr>outbox_type := ty, outbox := rows\<rparr>)"

definition rebuild_versions :: "rebuild_conn \<Rightarrow> sync \<Rightarrow> sync" where
  "rebuild_versions x s =
     (let (_, _, cat) = RebuildSqliteTableWide x versions_ddl ''TEXT'' ''sync_row_versions''
                          (catalog_of ''sync_row_versions'' (versions_type s) (versions s));
          (ty, rows) = from_catalog ''sync_row_versions'' cat
      in s\<lparr>versions_type := ty, versions := rows\<rparr>)"

text \<open>\<open>m_drop_control\<close>, \<open>m_alter\<close>: whether these statements succeed. PostgreSQL types are spelled
  \<open>text\<close>; on it \<open>sync_control\<close> is altered in place.\<close>

record migrate_conn =
  m_pg :: bool
  m_prepares :: bool
  m_outbox :: rebuild_conn
  m_versions :: rebuild_conn
  m_drop_control :: bool
  m_alter :: bool

definition to_text :: "bool \<Rightarrow> string option \<Rightarrow> string option" where
  "to_text ok ty = (if ok then map_option (\<lambda>_. ''text'') ty else ty)"

definition needMigrate :: "migrate_conn \<Rightarrow> sync \<Rightarrow> bool" where
  "needMigrate x s = (m_prepares x \<and> (case outbox_type s of None \<Rightarrow> False | Some ty \<Rightarrow> ty \<noteq> ''TEXT''))"

definition MigrateRowIdsIfNeeded :: "migrate_conn \<Rightarrow> sync \<Rightarrow> sync" where
  "MigrateRowIdsIfNeeded x s =
     (if m_pg x then s\<lparr>outbox_type := to_text (m_alter x) (outbox_type s),
                       versions_type := to_text (m_alter x) (versions_type s)\<rparr>
      else if \<not> needMigrate x s then s
      else let s1 = rebuild_versions (m_versions x) (rebuild_outbox (m_outbox x) s)
           in if m_drop_control x then s1\<lparr>controls := []\<rparr> else s1)"

text \<open>Reading the columns runs the migration again on SQLite.\<close>

definition ReadTableColumns :: "migrate_conn \<Rightarrow> string \<Rightarrow> sync \<Rightarrow> string list \<times> sync" where
  "ReadTableColumns x t s =
     (let cols = (case map_of (tables s) t of None \<Rightarrow> [] | Some tab \<Rightarrow> t_cols tab)
      in if \<not> m_prepares x then ([], s)
         else if m_pg x then (cols, s)
         else (cols, MigrateRowIdsIfNeeded x s))"

definition InstallTriggersFor ::
    "migrate_conn \<Rightarrow> (string \<Rightarrow> bool) \<Rightarrow> string \<Rightarrow> string \<Rightarrow> sync \<Rightarrow> bool \<times> string \<times> sync" where
  "InstallTriggersFor x execs err t s =
     (if \<not> IsAgentGlobalTable t then (False, ''not an agent-global table'', s)
      else let (cols, s1) = ReadTableColumns x t s
           in if cols = [] then (False, ''table does not exist yet'', s1)
              else case (map_of (tables s1) t, execs t) of
                     (Some tab, True) \<Rightarrow> (True, '''', put_table t (tab\<lparr>t_triggers := True\<rparr>) s1)
                   | _ \<Rightarrow> (False, err, s1))"

fun install_all ::
    "migrate_conn \<Rightarrow> (string \<Rightarrow> bool) \<Rightarrow> string \<Rightarrow> string list \<Rightarrow> sync \<Rightarrow> nat \<times> sync" where
  "install_all x execs err [] s = (0, s)"
| "install_all x execs err (t # ts) s =
     (case InstallTriggersFor x execs err t s of
        (False, _, s1) \<Rightarrow> install_all x execs err ts s1
      | (True, _, s1) \<Rightarrow>
          (let (n, s2) = install_all x execs err ts (s1\<lparr>synced_tables := synced_tables s1 @ [t]\<rparr>)
           in (Suc n, s2)))"

text \<open>\<open>INSERT ... ON CONFLICT (node_id) DO NOTHING\<close>; the rows of \<open>sync_control\<close> stand in the order
  of their primary key, and the triggers read the first.\<close>

definition insert_control :: "int \<Rightarrow> control list \<Rightarrow> control list" where
  "insert_control n cs =
     (if \<exists>c \<in> set cs. ctl_node c = n then cs else insort_key ctl_node \<lparr>ctl_node = n, ctl_apply = None\<rparr> cs)"

definition text_type :: "migrate_conn \<Rightarrow> string option \<Rightarrow> string option" where
  "text_type x ty = (if ty = None then Some (if m_pg x then ''text'' else ''TEXT'') else ty)"

definition EnsureSchema ::
    "conn \<Rightarrow> migrate_conn \<Rightarrow> (string \<Rightarrow> bool) \<Rightarrow> sync option \<Rightarrow> bool \<times> string \<times> sync option" where
  "EnsureSchema c x execs st =
     (case st of
        None \<Rightarrow> (False, ''null store'', None)
      | Some s \<Rightarrow>
          let s1 = s\<lparr>outbox_type := text_type x (outbox_type s), versions_type := text_type x (versions_type s)\<rparr>;
              s2 = (if prepares c \<and> writes c then s1\<lparr>controls := insert_control (node_id s1) (controls s1)\<rparr> else s1);
              s3 = MigrateRowIdsIfNeeded x s2;
              (installed, s4) = install_all x execs (err_msg c) AgentGlobalTables s3
          in if installed = 0 then (False, ''no agent-global tables found '' @ map char_of [226, 128, 148 :: nat] @ '' install after stores'', Some s4)
             else (True, '''', Some s4))"

subsection \<open>Outbox, cursors and digests\<close>

definition FetchOutboxSince :: "conn \<Rightarrow> int \<Rightarrow> int \<Rightarrow> sync \<Rightarrow> outbox_record list" where
  "FetchOutboxSince c since limit s =
     (if \<not> prepares c then []
      else let rs = order_by outbox_id (filter (\<lambda>r. outbox_id r > since) (outbox s))
           in if limit < 0 then rs else take (nat limit) rs)"

definition MaxOutboxId :: "conn \<Rightarrow> sync \<Rightarrow> int" where
  "MaxOutboxId c s = (if \<not> prepares c \<or> outbox s = [] then 0 else foldr (max \<circ> outbox_id) (tl (outbox s)) (outbox_id (hd (outbox s))))"

definition GetPeerCursor :: "conn \<Rightarrow> int \<Rightarrow> sync \<Rightarrow> int" where
  "GetPeerCursor c p s = (if \<not> prepares c then 0 else or_default 0 (map_of (cursors s) p))"

definition SetPeerCursor :: "conn \<Rightarrow> int \<Rightarrow> int \<Rightarrow> sync \<Rightarrow> bool \<times> sync" where
  "SetPeerCursor c p n s =
     (if \<not> prepares c \<or> \<not> writes c then (False, s) else (True, s\<lparr>cursors := AList.update p n (cursors s)\<rparr>))"

definition ClearTableVersions :: "conn \<Rightarrow> string \<Rightarrow> sync \<Rightarrow> sync" where
  "ClearTableVersions c t s =
     (if prepares c \<and> writes c then s\<lparr>versions := filter (\<lambda>((u, k), v). u \<noteq> t) (versions s)\<rparr> else s)"

record digest =
  dg_table :: string
  dg_count :: int
  dg_max :: int
  dg_sum :: int

text \<open>\<open>COALESCE(MAX(id), 0)\<close> read as an integer; \<open>to_int\<close> is the engine's conversion of a text. A
  text is above every number.\<close>

definition max_id :: "(string \<Rightarrow> int) \<Rightarrow> string \<Rightarrow> row list \<Rightarrow> int" where
  "max_id to_int t rows =
     (let texts = (if IsCompositeKeyTable t then List.map_filter (row_key t) rows
                   else List.map_filter (\<lambda>r. case get ''id'' r of SText s \<Rightarrow> Some s | _ \<Rightarrow> None) rows);
          nums = List.map_filter (\<lambda>r. case get ''id'' r of SInt i \<Rightarrow> Some i | _ \<Rightarrow> None) rows
      in if texts \<noteq> [] then to_int (foldr max (tl texts) (hd texts))
         else if nums = [] then 0 else foldr max (tl nums) (hd nums))"

definition TableDigests :: "conn \<Rightarrow> (string \<Rightarrow> int) \<Rightarrow> sync \<Rightarrow> digest list" where
  "TableDigests c to_int s =
     List.map_filter
       (\<lambda>t. case map_of (tables s) t of
              None \<Rightarrow> None
            | Some tab \<Rightarrow>
                if \<not> prepares c then None
                else Some \<lparr>dg_table = t, dg_count = int (length (t_rows tab)),
                           dg_max = max_id to_int t (map snd (t_rows tab)),
                           dg_sum = sum_list (map (\<lambda>((u, k), (m, n)). if u = t then m else 0) (versions s))\<rparr>)
       AgentGlobalTables"

subsection \<open>Applying a peer's change\<close>

definition FenceRows :: "conn \<Rightarrow> ms \<Rightarrow> string \<Rightarrow> sync \<Rightarrow> sync" where
  "FenceRows c now u s =
     (case map_of (tables s) ''task_runs'' of
        None \<Rightarrow> s
      | Some tab \<Rightarrow>
          if \<not> prepares c \<or> \<not> writes c then s
          else let of_run = filter (\<lambda>(k, r). get ''run_uuid'' r = SText u) (t_rows tab);
                   rank_of = (\<lambda>(k, r). case (get ''epoch'' r, get ''id'' r) of
                                 (SInt e, SInt i) \<Rightarrow> Rank 1 e i | (_, SInt i) \<Rightarrow> Rank 0 0 i | _ \<Rightarrow> Rank 0 0 0);
                   winner = map_option (\<lambda>(k, r). get ''id'' r) (best rank_of of_run);
                   losers = filter (\<lambda>(k, r). get ''fenced'' r = SInt 0 \<and> Some (get ''id'' r) \<noteq> winner) of_run;
                   fence = overwrite [(''fenced'', SInt 1)];
                   s' = put_table ''task_runs''
                          (tab\<lparr>t_rows := map (\<lambda>(k, r). if (k, r) \<in> set losers then (k, fence r) else (k, r)) (t_rows tab)\<rparr>) s
               in if t_triggers tab
                  then or_default s (fire_all now ''task_runs'' ''upsert'' (map (\<lambda>(k, r). (k, upsert_payload (fence r))) losers) s')
                  else s')"

text \<open>An exception of \<open>asString\<close> leaves the functions below with the state as it then is.\<close>

definition FenceTaskRun :: "conn \<Rightarrow> ms \<Rightarrow> json option \<Rightarrow> sync \<Rightarrow> unit outcome \<times> sync" where
  "FenceTaskRun c now p s =
     (case p of
        None \<Rightarrow> (Ret (), s)
      | Some root \<Rightarrow>
          if \<not> isObject root \<or> isMember root ''run_uuid'' \<noteq> Ret True then (Ret (), s)
          else case member_string root ''run_uuid'' of
                 Ret u \<Rightarrow> (Ret (), FenceRows c now u s)
               | Throw \<Rightarrow> (Throw, s)
               | Trap \<Rightarrow> (Trap, s))"

fun bind_value :: "json \<Rightarrow> sqlval outcome" where
  "bind_value JNull = Ret SNull"
| "bind_value (JInt i) = bind_outcome (asInt64 (JInt i)) (\<lambda>n. Ret (SInt n))"
| "bind_value (JReal i s) = Ret (SReal i s)"
| "bind_value (JStr s) = Ret (SText s)"
| "bind_value (JBool b) = Ret (SInt (of_bool b))"
| "bind_value j = bind_outcome (asString j) (\<lambda>s. Ret (SText s))"

fun bind_all :: "json \<Rightarrow> string list \<Rightarrow> row outcome" where
  "bind_all root [] = Ret []"
| "bind_all root (c # cs) =
     bind_outcome (bind_outcome (member root c) bind_value) (\<lambda>v.
     bind_outcome (bind_all root cs) (\<lambda>r. Ret ((c, v) # r)))"

definition key_columns :: "string \<Rightarrow> string list" where
  "key_columns t = (if IsCompositeKeyTable t then [''agent_id'', ''key''] else [''id''])"

text \<open>The connection during one application; the outcome of each statement that can fail.\<close>

record apply_conn =
  a_lookup :: bool
  a_context :: bool
  a_migrate :: migrate_conn
  a_row :: conn
  a_reset :: bool
  a_fence :: conn

definition ApplyDelete :: "apply_conn \<Rightarrow> ms \<Rightarrow> outbox_record \<Rightarrow> sync \<Rightarrow> bool outcome \<times> sync" where
  "ApplyDelete c now r s =
     (let t = table_name r;
          run = (\<lambda>P. if \<not> prepares (a_row c) \<or> \<not> writes (a_row c) then (Ret False, s)
                     else case delete_rows now t P s of None \<Rightarrow> (Ret False, s) | Some s' \<Rightarrow> (Ret True, s'))
      in if IsCompositeKeyTable t
         then (case split_key (rec_key r) of
                 None \<Rightarrow> (Ret False, s)
               | Some (a, k) \<Rightarrow> run (\<lambda>w. get ''agent_id'' w = SText a \<and> get ''key'' w = SText k))
         else case map_of (tables s) t of
                None \<Rightarrow> (Ret False, s)
              | Some tab \<Rightarrow> run (\<lambda>w. get ''id'' w \<noteq> SNull \<and> t_affinity tab ''id'' (SText (rec_key r)) = Some (get ''id'' w)))"

definition ApplyUpsert :: "apply_conn \<Rightarrow> ms \<Rightarrow> outbox_record \<Rightarrow> sync \<Rightarrow> bool outcome \<times> sync" where
  "ApplyUpsert c now r s =
     (let t = table_name r; keys = key_columns t
      in case payload r of
           None \<Rightarrow> (Ret False, s)
         | Some root \<Rightarrow>
             if \<not> isObject root \<or> (\<exists>k \<in> set keys. isMember root k \<noteq> Ret True) then (Ret False, s)
             else let (tableCols, s1) = ReadTableColumns (a_migrate c) t s;
                      cols = filter (\<lambda>k. isMember root k = Ret True) tableCols
                  in if cols = [] then (Ret False, s1)
                     else if \<not> prepares (a_row c) \<or> \<not> set keys \<subseteq> set tableCols \<or> set cols \<subseteq> set keys
                          then (Ret False, s1)
                     else case bind_all root cols of
                            Throw \<Rightarrow> (Throw, s1)
                          | Trap \<Rightarrow> (Trap, s1)
                          | Ret vals \<Rightarrow>
                              if \<not> writes (a_row c) then (Ret False, s1)
                              else case write_row now t vals s1 of
                                     None \<Rightarrow> (Ret False, s1)
                                   | Some s2 \<Rightarrow> (Ret True, s2))"

definition local_version :: "apply_conn \<Rightarrow> string \<Rightarrow> string \<Rightarrow> sync \<Rightarrow> version" where
  "local_version c t k s =
     (if a_lookup c \<and> versions_type s \<noteq> None then or_default (-1, -1) (map_of (versions s) (t, k)) else (-1, -1))"

definition version_rank :: "version \<Rightarrow> rank" where
  "version_rank v = Rank (fst v) (snd v) 0"

definition publish :: "apply_ctx option \<Rightarrow> sync \<Rightarrow> sync" where
  "publish a s = s\<lparr>controls := map (\<lambda>ctl. ctl\<lparr>ctl_apply := a\<rparr>) (controls s)\<rparr>"

definition skipped :: "outbox_record \<Rightarrow> version \<Rightarrow> int \<Rightarrow> bool" where
  "skipped r loc self =
     (version_rank (unix_ms r, origin_node r) \<le> version_rank loc \<and>
      \<not> (rec_op r = ''delete'' \<and> (unix_ms r, origin_node r) = loc \<and> fst loc \<ge> 0 \<and> origin_node r \<noteq> self))"

definition ApplyRemoteChange :: "apply_conn \<Rightarrow> ms \<Rightarrow> outbox_record \<Rightarrow> sync \<Rightarrow> bool outcome \<times> sync" where
  "ApplyRemoteChange c now r s =
     (if \<not> IsAgentGlobalTable (table_name r) then (Ret False, s)
      else if rec_op r \<noteq> ''upsert'' \<and> rec_op r \<noteq> ''delete'' then (Ret False, s)
      else if skipped r (local_version c (table_name r) (rec_key r) s) (node_id s) then (Ret False, s)
      else let ctx = \<lparr>apply_table = table_name r, apply_row_id = rec_key r, apply_origin = origin_node r,
                       apply_ms = unix_ms r\<rparr>;
               s1 = (if a_context c then publish (Some ctx) s else s);
               (res, s2) = (if rec_op r = ''delete'' then ApplyDelete c now r s1 else ApplyUpsert c now r s1)
           in case res of
                Throw \<Rightarrow> (Throw, s2)
              | Trap \<Rightarrow> (Trap, s2)
              | Ret ok \<Rightarrow>
                  let s3 = (if a_reset c then publish None s2 else s2)
                  in if \<not> ok then (Ret False, s3)
                     else let (f, s4) = (if table_name r = ''task_runs'' then FenceTaskRun (a_fence c) now (payload r) s3
                                         else (Ret (), s3))
                          in case f of
                               Ret _ \<Rightarrow> (Ret True, s4\<lparr>notified := notified s4 @ [(table_name r, rec_key r)]\<rparr>)
                             | Throw \<Rightarrow> (Throw, s4)
                             | Trap \<Rightarrow> (Trap, s4))"

subsection \<open>What an application does\<close>

definition ok_conn :: apply_conn where
  "ok_conn = \<lparr>a_lookup = True, a_context = True,
     a_migrate = \<lparr>m_pg = False, m_prepares = True, m_outbox = \<lparr>x_drop_tmp = True, x_create = True, x_copy = True, x_drop_old = True, x_rename = True, x_err = ''''\<rparr>,
       m_versions = \<lparr>x_drop_tmp = True, x_create = True, x_copy = True, x_drop_old = True, x_rename = True, x_err = ''''\<rparr>,
       m_drop_control = True, m_alter = True\<rparr>,
     a_row = healthy, a_reset = True, a_fence = healthy\<rparr>"

lemma ok_conn_simps [simp]:
  "a_lookup ok_conn" "a_context ok_conn" "a_row ok_conn = healthy" "a_reset ok_conn" "a_fence ok_conn = healthy"
  "\<not> m_pg (a_migrate ok_conn)" "m_prepares (a_migrate ok_conn)"
  "prepares healthy" "writes healthy"
  by (simp_all add: ok_conn_def healthy_def)

text \<open>A node between two operations, and a replicated table on it.\<close>

definition ready :: "sync \<Rightarrow> bool" where
  "ready s = (controls s = [\<lparr>ctl_node = node_id s, ctl_apply = None\<rparr>] \<and>
              outbox_type s = Some ''TEXT'' \<and> versions_type s = Some ''TEXT'')"

definition table_ok :: "string \<Rightarrow> table \<Rightarrow> bool" where
  "table_ok t tab =
     (distinct (t_cols tab) \<and> t_triggers tab \<and> set (key_columns t) \<subseteq> set (t_cols tab) \<and>
      \<not> set (t_cols tab) \<subseteq> set (key_columns t) \<and> (IsCompositeKeyTable t \<longrightarrow> t_seq tab = None) \<and>
      (\<forall>(k, r) \<in> set (t_rows tab). map fst r = t_cols tab))"

text \<open>The row a record carries into a table with these columns: all of them, none refused.\<close>

definition sent_row :: "table \<Rightarrow> outbox_record \<Rightarrow> row option" where
  "sent_row tab r =
     (case payload r of
        Some (JObj m) \<Rightarrow>
          if set (t_cols tab) \<subseteq> fst ` set m
          then (case bind_all (JObj m) (t_cols tab) of Ret vals \<Rightarrow> coerce (t_affinity tab) vals | _ \<Rightarrow> None)
          else None
      | _ \<Rightarrow> None)"

definition carries :: "table \<Rightarrow> outbox_record \<Rightarrow> row \<Rightarrow> bool" where
  "carries tab r w =
     (rec_op r = ''upsert'' \<and> IsAgentGlobalTable (table_name r) \<and> table_name r \<noteq> ''task_runs'' \<and> 0 \<le> unix_ms r \<and>
      sent_row tab r = Some w \<and> row_key (table_name r) w = Some (rec_key r))"

definition with_row :: "string \<Rightarrow> row \<Rightarrow> table \<Rightarrow> table" where
  "with_row k w tab = tab\<lparr>t_rows := AList.update k w (t_rows tab), t_seq := seq_after w (t_seq tab)\<rparr>"

definition echo_of :: "outbox_record \<Rightarrow> int \<Rightarrow> row \<Rightarrow> outbox_record" where
  "echo_of r i w = r\<lparr>outbox_id := i, payload := Some (upsert_payload w)\<rparr>"

definition applied :: "outbox_record \<Rightarrow> table \<Rightarrow> row \<Rightarrow> sync \<Rightarrow> sync" where
  "applied r tab w s =
     s\<lparr>tables := AList.update (table_name r) (with_row (rec_key r) w tab) (tables s),
       versions := AList.update (table_name r, rec_key r) (unix_ms r, origin_node r) (versions s),
       outbox := outbox s @ [echo_of r (next_outbox s) w],
       next_outbox := next_outbox s + 1,
       notified := notified s @ [(table_name r, rec_key r)]\<rparr>"

lemma bind_all_cols: "bind_all j cols = Ret vals \<Longrightarrow> map fst vals = cols"
proof (induction cols arbitrary: vals)
  case (Cons c cols)
  then show ?case
    by (cases "bind_outcome (member j c) bind_value"; cases "bind_all j cols") auto
qed simp

lemma coerce_cols: "coerce aff vals = Some w \<Longrightarrow> map fst w = map fst vals"
  by (induction vals arbitrary: w) (auto split: option.splits)

lemma sent_row_cols: "sent_row tab r = Some w \<Longrightarrow> map fst w = t_cols tab"
  using bind_all_cols coerce_cols
  by (auto simp: sent_row_def split: option.splits json.splits outcome.splits if_splits)

lemma with_defaults_full:
  assumes "map fst w = t_cols tab" "distinct (t_cols tab)"
  shows "with_defaults tab w = w"
proof -
  have "with_defaults tab w = map (\<lambda>x. (fst x, case map_of w (fst x) of Some v \<Rightarrow> v | None \<Rightarrow> t_default tab (fst x))) w"
    unfolding with_defaults_def assms(1)[symmetric] by simp
  also have "\<dots> = w"
    using assms by (intro map_idI) (auto simp: map_of_is_SomeI)
  finally show ?thesis .
qed

lemma overwrite_full:
  assumes "map fst w = map fst old" "distinct (map fst w)"
  shows "overwrite w old = w"
proof -
  have "overwrite w old = map (\<lambda>x. (fst x, snd x)) w"
  proof (rule nth_equalityI)
    show "length (overwrite w old) = length (map (\<lambda>x. (fst x, snd x)) w)"
      using assms(1) by (metis length_map overwrite_def)
    fix i assume "i < length (overwrite w old)"
    then have i: "i < length old" "i < length w" using assms(1) by (auto simp: overwrite_def dest: map_eq_imp_length_eq)
    have "fst (old ! i) = fst (w ! i)" using assms(1) i by (metis nth_map)
    moreover have "map_of w (fst (w ! i)) = Some (snd (w ! i))"
      using assms(2) i by (metis map_of_is_SomeI nth_mem prod.collapse)
    ultimately show "overwrite w old ! i = map (\<lambda>x. (fst x, snd x)) w ! i"
      using i by (simp add: overwrite_def split_beta)
  qed
  then show ?thesis by simp
qed

lemma number_row_id:
  assumes "row_key t w = Some k" "IsCompositeKeyTable t \<longrightarrow> t_seq tab = None"
  shows "number_row tab w = w"
  using assms by (cases "get ''id'' w") (auto simp: number_row_def row_key_def split: option.splits)

lemma write_row_full:
  assumes tab: "map_of (tables s) t = Some tab" "table_ok t tab" and w: "coerce (t_affinity tab) vals = Some w"
    and cols: "map fst w = t_cols tab" and k: "row_key t w = Some k" and acc: "\<forall>others. t_accepts tab others w"
  shows "write_row now t vals s = fire_trigger now t k ''upsert'' (upsert_payload w) (put_table t (with_row k w tab) s)"
proof -
  have d: "distinct (t_cols tab)" "t_triggers tab" and comp: "IsCompositeKeyTable t \<longrightarrow> t_seq tab = None"
    using tab(2) by (auto simp: table_ok_def)
  have new: "number_row tab (with_defaults tab w) = w"
    using with_defaults_full[OF cols d(1)] number_row_id[OF k comp] by simp
  have old: "(case map_of (t_rows tab) k of None \<Rightarrow> w | Some old \<Rightarrow> overwrite w old) = w"
  proof (cases "map_of (t_rows tab) k")
    case (Some old)
    then have "map fst old = t_cols tab" using tab(2) by (auto simp: table_ok_def dest: map_of_SomeD)
    then show ?thesis using Some overwrite_full[of w old] cols d by simp
  qed simp
  show ?thesis using tab(1) w k d(2) new old acc by (simp add: write_row_def with_row_def Let_def)
qed

lemma sent_row_bind:
  "sent_row tab r = Some w \<longleftrightarrow>
   (\<exists>m vals. payload r = Some (JObj m) \<and> set (t_cols tab) \<subseteq> fst ` set m \<and>
             bind_all (JObj m) (t_cols tab) = Ret vals \<and> coerce (t_affinity tab) vals = Some w)"
  by (auto simp: sent_row_def split: option.splits json.splits outcome.splits if_splits)

lemma ReadTableColumns_ready:
  "outbox_type s = Some ''TEXT'' \<Longrightarrow> map_of (tables s) t = Some tab \<Longrightarrow>
   ReadTableColumns (a_migrate ok_conn) t s = (t_cols tab, s)"
  by (auto simp: ReadTableColumns_def MigrateRowIdsIfNeeded_def needMigrate_def)

lemma ApplyUpsert_carried:
  assumes tab: "map_of (tables s) (table_name r) = Some tab" "table_ok (table_name r) tab" and w: "carries tab r w"
    and acc: "\<forall>others. t_accepts tab others w" and ty: "outbox_type s = Some ''TEXT''"
  shows "ApplyUpsert ok_conn now r s =
     (case fire_trigger now (table_name r) (rec_key r) ''upsert'' (upsert_payload w)
             (put_table (table_name r) (with_row (rec_key r) w tab) s) of
        None \<Rightarrow> (Ret False, s) | Some s' \<Rightarrow> (Ret True, s'))"
proof -
  obtain m vals where m: "payload r = Some (JObj m)" "set (t_cols tab) \<subseteq> fst ` set m"
      "bind_all (JObj m) (t_cols tab) = Ret vals" "coerce (t_affinity tab) vals = Some w"
    using w by (auto simp: carries_def sent_row_bind)
  have cols: "map fst w = t_cols tab" and k: "row_key (table_name r) w = Some (rec_key r)"
    using w sent_row_cols by (auto simp: carries_def)
  have keys: "set (key_columns (table_name r)) \<subseteq> set (t_cols tab)" "\<not> set (t_cols tab) \<subseteq> set (key_columns (table_name r))"
    using tab(2) by (auto simp: table_ok_def)
  have f: "filter (\<lambda>k. isMember (JObj m) k = Ret True) (t_cols tab) = t_cols tab"
    using m(2) by (intro filter_True) auto
  have "t_cols tab \<noteq> []" using keys by auto
  moreover have "\<not> (\<exists>k \<in> set (key_columns (table_name r)). isMember (JObj m) k \<noteq> Ret True)"
    using keys(1) m(2) by auto
  ultimately show ?thesis
    using m keys f ReadTableColumns_ready[OF ty tab(1)] write_row_full[OF tab m(4) cols k acc]
    by (simp add: ApplyUpsert_def Let_def isObject_def split: option.splits)
qed

lemma matches_published:
  "stamp (ctl\<lparr>ctl_apply := Some \<lparr>apply_table = t, apply_row_id = k, apply_origin = n, apply_ms = m\<rparr>\<rparr>) now t k = (m, n)"
  by (simp add: stamp_def matches_ctx_def)

text \<open>A record newer than the row's version writes its row, stamps it with its own stamp, and leaves
  one record in the outbox, its echo.\<close>

lemma apply_newer:
  assumes "ready s" and tab: "map_of (tables s) (table_name r) = Some tab" "table_ok (table_name r) tab"
    and w: "carries tab r w" and acc: "\<forall>others. t_accepts tab others w"
    and new: "version_rank (or_default (-1, -1) (map_of (versions s) (table_name r, rec_key r)))
              < version_rank (unix_ms r, origin_node r)"
  shows "ApplyRemoteChange ok_conn now r s = (Ret True, applied r tab w s)"
proof -
  have ty: "outbox_type s = Some ''TEXT''" "versions_type s \<noteq> None"
    and ctl: "controls s = [\<lparr>ctl_node = node_id s, ctl_apply = None\<rparr>]" using assms(1) by (auto simp: ready_def)
  have r: "rec_op r = ''upsert''" "IsAgentGlobalTable (table_name r)" "table_name r \<noteq> ''task_runs''"
    using w by (auto simp: carries_def)
  have sk: "\<not> skipped r (local_version ok_conn (table_name r) (rec_key r) s) (node_id s)"
    using new ty by (simp add: skipped_def local_version_def not_le)
  define s1 where "s1 = publish (Some \<lparr>apply_table = table_name r, apply_row_id = rec_key r,
       apply_origin = origin_node r, apply_ms = unix_ms r\<rparr>) s"
  have s1: "map_of (tables s1) (table_name r) = Some tab" "outbox_type s1 = Some ''TEXT''"
    using tab ty by (simp_all add: s1_def publish_def)
  have up: "ApplyUpsert ok_conn now r s1 = (Ret True,
      (put_table (table_name r) (with_row (rec_key r) w tab) s1)
        \<lparr>outbox := outbox s @ [echo_of r (next_outbox s) w], next_outbox := next_outbox s + 1,
         versions := AList.update (table_name r, rec_key r) (unix_ms r, origin_node r) (versions s)\<rparr>)"
    unfolding ApplyUpsert_carried[OF s1(1) tab(2) w acc s1(2)]
    using ctl ty r(1) matches_published[where ctl = "\<lparr>ctl_node = node_id s, ctl_apply = None\<rparr>"]
    by (simp add: fire_trigger_def put_table_def s1_def publish_def echo_of_def)
  show ?thesis
    using r sk up unfolding ApplyRemoteChange_def s1_def[symmetric]
    by (simp add: Let_def s1_def publish_def put_table_def applied_def ctl)
qed

subsection \<open>Last writer wins\<close>

text \<open>What a replica promises: a record above the key's version sets content and version, any other
  changes nothing, and other keys are left alone. Then the end of a run depends on the set of the
  records only.\<close>

locale lww =
  fixes step :: "'r \<Rightarrow> 's \<Rightarrow> 's"
    and key :: "'r \<Rightarrow> 'k"
    and stamp_of :: "'r \<Rightarrow> 'v :: linorder"
    and content :: "'r \<Rightarrow> 'd"
    and ver :: "'s \<Rightarrow> 'k \<Rightarrow> 'v option"
    and dat :: "'s \<Rightarrow> 'k \<Rightarrow> 'd option"
    and ok :: "'s \<Rightarrow> bool"
    and good :: "'r \<Rightarrow> bool"
  assumes newer: "ok s \<Longrightarrow> good r \<Longrightarrow> (\<And>v. ver s (key r) = Some v \<Longrightarrow> v < stamp_of r) \<Longrightarrow>
      ver (step r s) (key r) = Some (stamp_of r) \<and> dat (step r s) (key r) = Some (content r)"
    and older: "ok s \<Longrightarrow> good r \<Longrightarrow> ver s (key r) = Some v \<Longrightarrow> stamp_of r \<le> v \<Longrightarrow> step r s = s"
    and other: "ok s \<Longrightarrow> good r \<Longrightarrow> k \<noteq> key r \<Longrightarrow> ver (step r s) k = ver s k \<and> dat (step r s) k = dat s k"
    and keeps: "ok s \<Longrightarrow> good r \<Longrightarrow> ok (step r s)"
begin

definition run :: "'r list \<Rightarrow> 's \<Rightarrow> 's" where
  "run rs s = fold step rs s"

text \<open>The version of a key after a run, and the record that set it.\<close>

definition settled :: "'r set \<Rightarrow> 's \<Rightarrow> 's \<Rightarrow> 'k \<Rightarrow> bool" where
  "settled R s s' k \<longleftrightarrow>
     (ver s' k = ver s k \<and> dat s' k = dat s k \<and>
        (\<forall>r \<in> R. key r = k \<longrightarrow> (\<exists>v. ver s k = Some v \<and> stamp_of r \<le> v))) \<or>
     (\<exists>r \<in> R. key r = k \<and> ver s' k = Some (stamp_of r) \<and> dat s' k = Some (content r) \<and>
        (\<forall>r' \<in> R. key r' = k \<longrightarrow> stamp_of r' \<le> stamp_of r) \<and> (\<forall>v. ver s k = Some v \<longrightarrow> v < stamp_of r))"

lemma settled_step:
  assumes s: "ok s'" "good r" and st: "settled R s s' k"
  shows "settled (insert r R) s (step r s') k"
proof (cases "key r = k")
  case False
  then show ?thesis using st other[OF s, of k] by (auto simp: settled_def)
next
  case k: True
  show ?thesis
  proof (cases "\<exists>v. ver s' k = Some v \<and> stamp_of r \<le> v")
    case True
    then have "step r s' = s'" using older[OF s] k by auto
    then show ?thesis using st True k by (auto simp: settled_def)
  next
    case False
    then have n: "ver (step r s') k = Some (stamp_of r) \<and> dat (step r s') k = Some (content r)"
      using newer[OF s] k by (auto simp: not_le)
    have "\<forall>r' \<in> R. key r' = k \<longrightarrow> stamp_of r' \<le> stamp_of r" "\<forall>v. ver s k = Some v \<longrightarrow> v < stamp_of r"
      using st False unfolding settled_def by (auto simp: not_le intro: order_trans less_imp_le)
    then have "settled (insert r R) s (step r s') k"
      unfolding settled_def using n k by blast
    then show ?thesis .
  qed
qed

lemma run_settled: "ok s \<Longrightarrow> \<forall>r \<in> set rs. good r \<Longrightarrow> ok (run rs s) \<and> settled (set rs) s (run rs s) k"
proof (induction rs rule: rev_induct)
  case Nil
  then show ?case by (simp add: run_def settled_def)
next
  case (snoc r rs)
  then show ?case using settled_step[of "run rs s" r "set rs" s k] keeps by (simp add: run_def)
qed

theorem run_converges:
  assumes "ok s" "ok s'" "\<forall>r \<in> set rs. good r" "set rs' = set rs"
    and same: "ver s k = ver s' k" "dat s k = dat s' k"
    and inj: "inj_on (\<lambda>r. (key r, stamp_of r)) (set rs)"
  shows "ver (run rs s) k = ver (run rs' s') k \<and> dat (run rs s) k = dat (run rs' s') k"
proof -
  have a: "settled (set rs) s (run rs s) k" using run_settled assms(1,3) by blast
  have b: "settled (set rs) s' (run rs' s') k" using run_settled[of s' rs'] assms(2,3,4) by auto
  consider (kept) "\<forall>r \<in> set rs. key r = k \<longrightarrow> (\<exists>v. ver s k = Some v \<and> stamp_of r \<le> v)"
    | (moved) r where "r \<in> set rs" "key r = k" "\<forall>v. ver s k = Some v \<longrightarrow> v < stamp_of r"
    by (meson not_le)
  then show ?thesis
  proof cases
    case kept
    then show ?thesis using a b same unfolding settled_def by (metis leD)
  next
    case moved
    obtain p where p: "p \<in> set rs" "key p = k" "ver (run rs s) k = Some (stamp_of p)"
        "dat (run rs s) k = Some (content p)" "\<forall>r' \<in> set rs. key r' = k \<longrightarrow> stamp_of r' \<le> stamp_of p"
      using a moved unfolding settled_def by (metis leD)
    obtain q where q: "q \<in> set rs" "key q = k" "ver (run rs' s') k = Some (stamp_of q)"
        "dat (run rs' s') k = Some (content q)" "\<forall>r' \<in> set rs. key r' = k \<longrightarrow> stamp_of r' \<le> stamp_of q"
      using b moved same unfolding settled_def by (metis leD)
    have "stamp_of p = stamp_of q" using p q by (metis order_antisym)
    then have "p = q" using inj p q by (auto dest: inj_onD)
    then show ?thesis using p q by simp
  qed
qed

end

text \<open>The replica of the code. \<open>sch\<close> gives the tables' columns, the same on both nodes.\<close>

definition like :: "table \<Rightarrow> table \<Rightarrow> bool" where
  "like a b = (t_cols a = t_cols b \<and> t_affinity a = t_affinity b \<and> t_accepts a = t_accepts b)"

definition has_schema :: "(string \<rightharpoonup> table) \<Rightarrow> sync \<Rightarrow> bool" where
  "has_schema sch s =
     (ready s \<and> (\<forall>t a. sch t = Some a \<longrightarrow>
        (\<exists>tab. map_of (tables s) t = Some tab \<and> table_ok t tab \<and> like tab a)))"

definition fits :: "(string \<rightharpoonup> table) \<Rightarrow> outbox_record \<Rightarrow> bool" where
  "fits sch r =
     (case sch (table_name r) of
        None \<Rightarrow> False
      | Some a \<Rightarrow> (\<exists>w. carries a r w \<and> (\<forall>others. t_accepts a others w)))"

definition record_key :: "outbox_record \<Rightarrow> string \<times> string" where
  "record_key r = (table_name r, rec_key r)"

definition record_stamp :: "outbox_record \<Rightarrow> rank" where
  "record_stamp r = version_rank (unix_ms r, origin_node r)"

definition record_row :: "(string \<rightharpoonup> table) \<Rightarrow> outbox_record \<Rightarrow> row" where
  "record_row sch r = the (sent_row (the (sch (table_name r))) r)"

definition row_version :: "sync \<Rightarrow> string \<times> string \<Rightarrow> rank option" where
  "row_version s k = map_option version_rank (map_of (versions s) k)"

definition row_at :: "sync \<Rightarrow> string \<times> string \<Rightarrow> row option" where
  "row_at s k = (case map_of (tables s) (fst k) of None \<Rightarrow> None | Some tab \<Rightarrow> map_of (t_rows tab) (snd k))"

definition apply_record :: "ms \<Rightarrow> outbox_record \<Rightarrow> sync \<Rightarrow> sync" where
  "apply_record now r s = snd (ApplyRemoteChange ok_conn now r s)"

lemma version_rank_iff: "version_rank v = version_rank w \<longleftrightarrow> v = w"
  by (cases v; cases w) (simp add: version_rank_def)

lemma carries_like: "like tab a \<Longrightarrow> carries tab r w = carries a r w"
proof -
  assume "like tab a"
  then have e: "t_cols tab = t_cols a" "t_affinity tab = t_affinity a" by (auto simp: like_def)
  show ?thesis unfolding carries_def sent_row_def e ..
qed

lemma fitsE:
  assumes "fits sch r" "has_schema sch s"
  obtains tab where "map_of (tables s) (table_name r) = Some tab" "table_ok (table_name r) tab"
    "carries tab r (record_row sch r)" "\<forall>others. t_accepts tab others (record_row sch r)"
    "sch (table_name r) \<noteq> None" "like tab (the (sch (table_name r)))"
proof -
  obtain a w where a: "sch (table_name r) = Some a" "carries a r w" "\<forall>others. t_accepts a others w"
    using assms(1) by (auto simp: fits_def split: option.splits)
  moreover obtain tab where "map_of (tables s) (table_name r) = Some tab" "table_ok (table_name r) tab" "like tab a"
    using assms(2) a(1) unfolding has_schema_def by blast
  moreover have "record_row sch r = w" using a by (simp add: record_row_def carries_def)
  ultimately show thesis using that carries_like[of tab a r w] by (auto simp: like_def)
qed

lemma in_update: "(j, v) \<in> set (AList.update k w al) \<Longrightarrow> (j, v) = (k, w) \<or> (j, v) \<in> set al"
  by (induction al) (auto split: if_splits)

lemma table_ok_with_row:
  assumes "table_ok t tab" "map fst w = t_cols tab"
  shows "table_ok t (with_row k w tab)"
proof -
  have "map fst v = t_cols tab" if "(j, v) \<in> set (AList.update k w (t_rows tab))" for j v
    using that assms by (auto simp: table_ok_def dest!: in_update)
  then show ?thesis using assms(1) by (auto simp: table_ok_def with_row_def seq_after_def split: option.splits sqlval.splits)
qed

lemma has_schema_applied:
  assumes "has_schema sch s" "map_of (tables s) (table_name r) = Some tab" "table_ok (table_name r) tab" "map fst w = t_cols tab"
  shows "has_schema sch (applied r tab w s)"
  unfolding has_schema_def
proof (intro conjI allI impI)
  show "ready (applied r tab w s)" using assms(1) by (simp add: has_schema_def ready_def applied_def)
  fix t a assume "sch t = Some a"
  then obtain tb where tb: "map_of (tables s) t = Some tb" "table_ok t tb" "like tb a"
    using assms(1) unfolding has_schema_def by blast
  show "\<exists>tb. map_of (tables (applied r tab w s)) t = Some tb \<and> table_ok t tb \<and> like tb a"
  proof (cases "t = table_name r")
    case True
    then show ?thesis using tb assms(2-4) table_ok_with_row[OF assms(3,4)]
      by (auto simp: applied_def update_conv' like_def with_row_def)
  next
    case False
    then show ?thesis using tb by (auto simp: applied_def update_conv')
  qed
qed

lemma row_version_applied:
  "row_version (applied r tab w s) k = (if k = record_key r then Some (record_stamp r) else row_version s k)"
  by (auto simp: row_version_def applied_def record_key_def record_stamp_def update_conv')

lemma row_at_applied:
  "map_of (tables s) (table_name r) = Some tab \<Longrightarrow>
   row_at (applied r tab w s) k = (if k = record_key r then Some w else row_at s k)"
  by (cases k) (auto simp: row_at_def applied_def record_key_def with_row_def update_conv')

lemma apply_record_newer:
  assumes s: "has_schema sch s" "fits sch r"
    and new: "\<And>v. row_version s (record_key r) = Some v \<Longrightarrow> v < record_stamp r"
    and tab: "map_of (tables s) (table_name r) = Some tab" "table_ok (table_name r) tab"
      "carries tab r (record_row sch r)" "\<forall>others. t_accepts tab others (record_row sch r)"
  shows "ApplyRemoteChange ok_conn now r s = (Ret True, applied r tab (record_row sch r) s)"
proof (rule apply_newer[OF _ tab])
  show "ready s" using s(1) by (simp add: has_schema_def)
  show "version_rank (or_default (-1, -1) (map_of (versions s) (table_name r, rec_key r)))
        < version_rank (unix_ms r, origin_node r)"
  proof (cases "map_of (versions s) (table_name r, rec_key r)")
    case None
    have "0 \<le> unix_ms r" using tab(3) by (simp add: carries_def)
    then show ?thesis using None by (simp add: version_rank_def less_rank_def)
  next
    case (Some v)
    then show ?thesis using new by (simp add: row_version_def record_key_def record_stamp_def)
  qed
qed

lemma apply_record_older:
  assumes "has_schema sch s" "fits sch r" "row_version s (record_key r) = Some v" "record_stamp r \<le> v"
  shows "ApplyRemoteChange ok_conn now r s = (Ret False, s)"
proof -
  obtain m n where v: "map_of (versions s) (table_name r, rec_key r) = Some (m, n)" "v = version_rank (m, n)"
    using assms(3) by (auto simp: row_version_def record_key_def)
  have "versions_type s \<noteq> None" "IsAgentGlobalTable (table_name r)" "rec_op r = ''upsert''"
    using assms(1,2) by (auto simp: has_schema_def ready_def fits_def carries_def split: option.splits)
  then show ?thesis using v assms(4)
    by (simp add: ApplyRemoteChange_def skipped_def local_version_def record_stamp_def)
qed

lemma replica_laws:
  assumes s: "has_schema sch s" "fits sch r"
  shows replica_newer: "(\<And>v. row_version s (record_key r) = Some v \<Longrightarrow> v < record_stamp r) \<Longrightarrow>
      row_version (apply_record now r s) (record_key r) = Some (record_stamp r) \<and>
      row_at (apply_record now r s) (record_key r) = Some (record_row sch r)"
    and replica_older: "row_version s (record_key r) = Some v \<Longrightarrow> record_stamp r \<le> v \<Longrightarrow> apply_record now r s = s"
    and replica_other: "k \<noteq> record_key r \<Longrightarrow>
      row_version (apply_record now r s) k = row_version s k \<and> row_at (apply_record now r s) k = row_at s k"
    and replica_keeps: "has_schema sch (apply_record now r s)"
proof -
  obtain tab where tab: "map_of (tables s) (table_name r) = Some tab" "table_ok (table_name r) tab"
      "carries tab r (record_row sch r)" "\<forall>others. t_accepts tab others (record_row sch r)"
    using fitsE[OF s(2,1)] by metis
  have cols: "map fst (record_row sch r) = t_cols tab" using tab(3) sent_row_cols by (auto simp: carries_def)
  note app = apply_record_newer[OF s _ tab]
  show n: "row_version (apply_record now r s) (record_key r) = Some (record_stamp r) \<and>
      row_at (apply_record now r s) (record_key r) = Some (record_row sch r)"
    if "\<And>v. row_version s (record_key r) = Some v \<Longrightarrow> v < record_stamp r"
    using app[OF that] by (simp add: apply_record_def row_version_applied row_at_applied[OF tab(1)])
  show o': "apply_record now r s = s" if "row_version s (record_key r) = Some v" "record_stamp r \<le> v" for v
    using apply_record_older[OF s that] by (simp add: apply_record_def)
  have cases: "apply_record now r s = s \<or> apply_record now r s = applied r tab (record_row sch r) s"
  proof (cases "\<exists>v. row_version s (record_key r) = Some v \<and> record_stamp r \<le> v")
    case True
    then show ?thesis using o' by blast
  next
    case False
    then have "\<And>v. row_version s (record_key r) = Some v \<Longrightarrow> v < record_stamp r" by auto
    then show ?thesis using app by (simp add: apply_record_def)
  qed
  show "row_version (apply_record now r s) k = row_version s k \<and> row_at (apply_record now r s) k = row_at s k"
    if "k \<noteq> record_key r"
    using cases that by (auto simp: row_version_applied row_at_applied[OF tab(1)])
  show "has_schema sch (apply_record now r s)"
    using cases s(1) has_schema_applied[OF s(1) tab(1,2) cols] by auto
qed

interpretation replica: lww "apply_record now" record_key record_stamp "record_row sch" row_version row_at
    "has_schema sch" "fits sch" for now :: ms and sch :: "string \<rightharpoonup> table"
proof unfold_locales
  fix s r
  assume "has_schema sch s" "fits sch r"
  note laws = replica_laws[OF this]
  show "(\<And>v. row_version s (record_key r) = Some v \<Longrightarrow> v < record_stamp r) \<Longrightarrow>
      row_version (apply_record now r s) (record_key r) = Some (record_stamp r) \<and>
      row_at (apply_record now r s) (record_key r) = Some (record_row sch r)" by (rule laws(1))
  show "apply_record now r s = s" if "row_version s (record_key r) = Some v" "record_stamp r \<le> v" for v
    using that by (rule laws(2))
  show "row_version (apply_record now r s) k = row_version s k \<and> row_at (apply_record now r s) k = row_at s k"
    if "k \<noteq> record_key r" for k using that by (rule laws(3))
  show "has_schema sch (apply_record now r s)" by (rule laws(4))
qed

text \<open>The clock of the applying node does not enter: the published stamp does.\<close>

lemma apply_clock:
  assumes "has_schema sch s" "fits sch r"
  shows "apply_record now r s = apply_record now' r s"
proof -
  obtain tab where tab: "map_of (tables s) (table_name r) = Some tab" "table_ok (table_name r) tab"
      "carries tab r (record_row sch r)" "\<forall>others. t_accepts tab others (record_row sch r)"
    using fitsE[OF assms(2,1)] by metis
  show ?thesis
  proof (cases "\<exists>v. row_version s (record_key r) = Some v \<and> record_stamp r \<le> v")
    case True
    then show ?thesis using apply_record_older[OF assms] by (auto simp: apply_record_def)
  next
    case False
    then have "\<And>v. row_version s (record_key r) = Some v \<Longrightarrow> v < record_stamp r" by auto
    then show ?thesis using apply_record_newer[OF assms _ tab] by (simp add: apply_record_def)
  qed
qed

lemma fold_clock:
  assumes "has_schema sch s" "\<forall>r \<in> set rs. fits sch r"
  shows "fold (\<lambda>r. apply_record (clk r) r) rs s = replica.run now rs s"
  using assms
proof (induction rs arbitrary: s)
  case (Cons r rs)
  then have "apply_record (clk r) r s = apply_record now r s" using apply_clock by auto
  then show ?case using Cons replica_keeps[of sch s r now] by (auto simp: replica.run_def)
qed (simp add: replica.run_def)


text \<open>A concrete replicated table, and two nodes that apply two updates of a row in opposite orders.\<close>

definition demo_table :: table where
  "demo_table = \<lparr>t_cols = [''id'', ''v''], t_rows = [], t_seq = Some 0, t_triggers = True,
     t_affinity = (\<lambda>c v. Some v), t_default = (\<lambda>c. SNull), t_accepts = (\<lambda>others r. True)\<rparr>"

definition demo_node :: "int \<Rightarrow> sync" where
  "demo_node n = \<lparr>node_id = n, controls = [\<lparr>ctl_node = n, ctl_apply = None\<rparr>], tables = [(''observations'', demo_table)],
     versions = [], outbox = [], next_outbox = 1, cursors = [], outbox_type = Some ''TEXT'', versions_type = Some ''TEXT'',
     synced_tables = [''observations''], notified = []\<rparr>"

definition demo_record :: "ms \<Rightarrow> int \<Rightarrow> int \<Rightarrow> outbox_record" where
  "demo_record m n v = \<lparr>outbox_id = 1, origin_node = n, table_name = ''observations'', rec_key = ''5'', rec_op = ''upsert'',
     payload = Some (JObj [(''id'', JInt 5), (''v'', JInt v)]), unix_ms = m\<rparr>"

definition demo_schema :: "string \<rightharpoonup> table" where
  "demo_schema t = (if t = ''observations'' then Some demo_table else None)"

lemma demo_schema: "has_schema demo_schema (demo_node n)"
  by (auto simp: has_schema_def ready_def demo_schema_def demo_node_def demo_table_def table_ok_def like_def
      key_columns_def IsCompositeKeyTable_def CompositeKeyTables_def)

lemma int_text_5 [simp]: "int_text 5 = ''5''"
  by code_simp

lemma demo_carries: "0 \<le> m \<Longrightarrow> carries demo_table (demo_record m n v) [(''id'', SInt 5), (''v'', SInt v)] = (v \<in> {- (2 ^ 63)..2 ^ 63 - 1})"
  by (auto simp: carries_def sent_row_def demo_record_def demo_table_def row_key_def get_def IsAgentGlobalTable_def
      AgentGlobalTables_def IsCompositeKeyTable_def CompositeKeyTables_def)

lemma demo_fits: "0 \<le> m \<Longrightarrow> v \<in> {- (2 ^ 63)..2 ^ 63 - 1} \<Longrightarrow> fits demo_schema (demo_record m n v)"
  using demo_carries[of m n v] by (auto simp: fits_def demo_schema_def demo_record_def demo_table_def)


subsection \<open>Local writes and their echoes\<close>

lemma write_row_Some:
  assumes "map_of (tables s) t = Some tab" "t_triggers tab" "controls s = [\<lparr>ctl_node = n, ctl_apply = None\<rparr>]"
    and "write_row now t vals s = Some s'"
  obtains vs k r where "coerce (t_affinity tab) vals = Some vs"
    "row_key t (number_row tab (with_defaults tab vs)) = Some k"
    "r = (case map_of (t_rows tab) k of None \<Rightarrow> number_row tab (with_defaults tab vs) | Some old \<Rightarrow> overwrite vs old)"
    "s' = s\<lparr>tables := AList.update t (with_row k r tab) (tables s),
            outbox := outbox s @ [\<lparr>outbox_id = next_outbox s, origin_node = n, table_name = t, rec_key = k,
                                  rec_op = ''upsert'', payload = Some (upsert_payload r), unix_ms = now\<rparr>],
            next_outbox := next_outbox s + 1, versions := AList.update (t, k) (now, n) (versions s)\<rparr>"
  using assms that
  by (auto simp: write_row_def fire_trigger_def put_table_def stamp_def matches_ctx_def with_row_def Let_def
      split: option.splits if_splits)

lemma skip_not_newer:
  assumes "a_lookup c" "versions_type s \<noteq> None" "rec_op r = ''upsert''"
    and "row_version s (record_key r) = Some v" "record_stamp r \<le> v"
  shows "ApplyRemoteChange c now r s = (Ret False, s)"
  using assms by (auto simp: ApplyRemoteChange_def skipped_def local_version_def row_version_def record_key_def record_stamp_def)

lemma written_record:
  assumes "ready a" "map_of (tables a) t = Some tab" "t_triggers tab" "write_row now t vals a = Some a'"
  shows "record_stamp (last (outbox a')) = version_rank (now, node_id a)"
    and "row_version a' (record_key (last (outbox a'))) = Some (version_rank (now, node_id a))"
    and "rec_op (last (outbox a')) = ''upsert''" and "versions_type a' \<noteq> None"
proof -
  have "controls a = [\<lparr>ctl_node = node_id a, ctl_apply = None\<rparr>]" "versions_type a \<noteq> None"
    using assms(1) by (auto simp: ready_def)
  then show "record_stamp (last (outbox a')) = version_rank (now, node_id a)"
    "row_version a' (record_key (last (outbox a'))) = Some (version_rank (now, node_id a))"
    "rec_op (last (outbox a')) = ''upsert''" "versions_type a' \<noteq> None"
    by (auto elim!: write_row_Some[OF assms(2,3) _ assms(4)] simp: record_stamp_def record_key_def row_version_def update_conv')
qed

lemma applied_echo:
  assumes "has_schema sch b" "fits sch r" "ApplyRemoteChange ok_conn now r b = (Ret True, b')"
  shows "record_key (last (outbox b')) = record_key r \<and> record_stamp (last (outbox b')) = record_stamp r \<and>
         rec_op (last (outbox b')) = rec_op r"
proof -
  obtain tab where tab: "map_of (tables b) (table_name r) = Some tab" "table_ok (table_name r) tab"
      "carries tab r (record_row sch r)" "\<forall>others. t_accepts tab others (record_row sch r)"
    using fitsE[OF assms(2,1)] by metis
  have "\<And>v. row_version b (record_key r) = Some v \<Longrightarrow> v < record_stamp r"
    using apply_record_older[OF assms(1,2), of _ now] assms(3) by (metis Pair_inject leI outcome.inject(1))
  then have "b' = applied r tab (record_row sch r) b"
    using apply_record_newer[OF assms(1,2) _ tab, of now] assms(3) by auto
  then show ?thesis by (simp add: applied_def echo_of_def record_key_def record_stamp_def)
qed


definition demo_vals :: "int \<Rightarrow> row" where
  "demo_vals v = [(''id'', SInt 5), (''v'', SInt v)]"

definition demo_written :: sync where
  "demo_written = the (write_row 10 ''observations'' (demo_vals 3) (demo_node 1))"

lemma demo_write: "write_row 10 ''observations'' (demo_vals 3) (demo_node 1) = Some demo_written"
proof -
  have "\<not> Option.is_none (write_row 10 ''observations'' (demo_vals 3) (demo_node 1))" by code_simp
  then show ?thesis by (auto simp: demo_written_def Option.is_none_def)
qed

lemma demo_written_last: "last (outbox demo_written) = demo_record 10 1 3"
  by code_simp

lemma demo_first_apply:
  assumes "0 \<le> m" "v \<in> {- (2 ^ 63)..2 ^ 63 - 1}"
  shows "\<exists>b'. ApplyRemoteChange ok_conn now (demo_record m n v) (demo_node k) = (Ret True, b')"
proof -
  note f = demo_fits[OF assms, of n]
  obtain tab where tab: "map_of (tables (demo_node k)) (table_name (demo_record m n v)) = Some tab"
      "table_ok (table_name (demo_record m n v)) tab" "carries tab (demo_record m n v) (record_row demo_schema (demo_record m n v))"
      "\<forall>others. t_accepts tab others (record_row demo_schema (demo_record m n v))"
    using fitsE[OF f demo_schema] by metis
  have "row_version (demo_node k) (record_key (demo_record m n v)) = None" by (simp add: row_version_def demo_node_def)
  then show ?thesis using apply_record_newer[OF demo_schema f _ tab] by fastforce
qed


text \<open>A local write whose stamp is not above the version the row already has (two writes in one
  millisecond, or a clock behind the peer that wrote last) lowers the version on the writing node and is
  skipped, for good, by every peer that holds the earlier version.\<close>

lemma stale_local_write_lost:
  assumes "ready a" "map_of (tables a) t = Some tab" "t_triggers tab" "write_row now t vals a = Some a'"
    and "row_version a (record_key (last (outbox a'))) = Some v" "version_rank (now, node_id a) \<le> v"
    and "row_version b (record_key (last (outbox a'))) = Some v" "versions_type b \<noteq> None" "a_lookup c"
  shows "row_version a' (record_key (last (outbox a'))) = Some (version_rank (now, node_id a)) \<and>
         ApplyRemoteChange c now' (last (outbox a')) b = (Ret False, b)"
  using written_record[OF assms(1-4)] skip_not_newer[OF assms(9,8)] assms(6,7) by simp

definition demo_peer :: sync where
  "demo_peer = snd (ApplyRemoteChange ok_conn 20 (demo_record 10 1 3) (demo_node 2))"

definition demo_rewritten :: sync where
  "demo_rewritten = the (write_row 10 ''observations'' (demo_vals 4) demo_written)"

lemma stale_local_write_lost_example:
  "row_version demo_rewritten (''observations'', ''5'') = Some (version_rank (10, 1)) \<and>
   ApplyRemoteChange ok_conn 30 (last (outbox demo_rewritten)) demo_peer = (Ret False, demo_peer)"
proof -
  have w: "write_row 10 ''observations'' (demo_vals 4) demo_written = Some demo_rewritten"
  proof -
    have "\<not> Option.is_none (write_row 10 ''observations'' (demo_vals 4) demo_written)" by code_simp
    then show ?thesis by (auto simp: demo_rewritten_def Option.is_none_def)
  qed
  have k: "record_key (last (outbox demo_rewritten)) = (''observations'', ''5'')" by code_simp
  have t: "map_of (tables demo_written) ''observations'' = Some (the (map_of (tables demo_written) ''observations''))"
  proof -
    have "\<not> Option.is_none (map_of (tables demo_written) ''observations'')" by code_simp
    then show ?thesis by (auto simp: Option.is_none_def)
  qed
  have "row_version demo_rewritten (record_key (last (outbox demo_rewritten))) = Some (version_rank (10, node_id demo_written)) \<and>
        ApplyRemoteChange ok_conn 30 (last (outbox demo_rewritten)) demo_peer = (Ret False, demo_peer)"
    by (rule stale_local_write_lost[OF _ t _ w, where v = "version_rank (10, 1)"])
       (unfold k, code_simp+)
  moreover have "node_id demo_written = 1" by code_simp
  ultimately show ?thesis using k by simp
qed

text \<open>Deleting a row that is not there succeeds and records no version, so an older upsert that comes
  later brings the row back.\<close>

lemma delete_absent_keeps_version:
  assumes "ready s" "table_name r = t" "rec_op r = ''delete''" "IsAgentGlobalTable t" "\<not> IsCompositeKeyTable t" "t \<noteq> ''task_runs''"
    and tab: "map_of (tables s) t = Some tab" "\<forall>(k, w) \<in> set (t_rows tab). t_affinity tab ''id'' (SText (rec_key r)) \<noteq> Some (get ''id'' w)"
    and new: "version_rank (or_default (-1, -1) (map_of (versions s) (t, rec_key r))) < version_rank (unix_ms r, origin_node r)"
  shows "fst (ApplyRemoteChange ok_conn now r s) = Ret True \<and> versions (snd (ApplyRemoteChange ok_conn now r s)) = versions s"
proof -
  have none: "filter (\<lambda>(k, w). get ''id'' w \<noteq> SNull \<and> t_affinity tab ''id'' (SText (rec_key r)) = Some (get ''id'' w)) (t_rows tab) = []"
    using tab(2) by (auto simp: filter_empty_conv)
  have sk: "\<not> skipped r (local_version ok_conn t (rec_key r) s) (node_id s)"
    using new assms(1) by (simp add: skipped_def local_version_def ready_def not_le)
  show ?thesis using assms sk none
    by (auto simp: ApplyRemoteChange_def ApplyDelete_def delete_rows_def publish_def put_table_def Let_def)
qed

subsection \<open>Ids after an application\<close>

text \<open>An insert that names no id takes the one after the sequence.\<close>

lemma get_overwrite: "get c (overwrite vs r) = (if c \<in> fst ` set r then or_default (get c r) (map_of vs c) else SNull)"
proof (induction r)
  case (Cons x r)
  then show ?case by (cases x) (auto simp: get_def overwrite_def)
qed (simp add: get_def overwrite_def)

lemma get_defaults:
  "get c (with_defaults tab vs)
   = (if c \<in> set (t_cols tab) then or_default (t_default tab c) (map_of vs c) else SNull)"
proof -
  have "map_of (map (\<lambda>c. (c, f c)) cs) c = (if c \<in> set cs then Some (f c) else None)" for f :: "string \<Rightarrow> sqlval" and cs
    by (induction cs) auto
  then show ?thesis by (simp add: get_def with_defaults_def or_default_def)
qed

lemma coerce_keys: "coerce aff vals = Some vs \<Longrightarrow> fst ` set vs = fst ` set vals"
  using coerce_cols by (metis list.set_map)

text \<open>A table whose inserts may leave the id to the sequence, which stands at \<open>n\<close>.\<close>

definition numbered :: "string \<Rightarrow> table \<Rightarrow> int \<Rightarrow> bool" where
  "numbered t tab n = (\<not> IsCompositeKeyTable t \<and> t_triggers tab \<and> ''id'' \<in> set (t_cols tab) \<and>
     t_default tab ''id'' = SNull \<and> t_seq tab = Some n)"

lemma write_row_ready:
  assumes "ready s" "map_of (tables s) t = Some tab" "t_triggers tab" "write_row now t vals s = Some s'"
  obtains vs k r where "coerce (t_affinity tab) vals = Some vs"
    "row_key t (number_row tab (with_defaults tab vs)) = Some k"
    "r = (case map_of (t_rows tab) k of None \<Rightarrow> number_row tab (with_defaults tab vs) | Some old \<Rightarrow> overwrite vs old)"
    "map_of (tables s') t = Some (with_row k r tab)" "ready s'" "rec_key (last (outbox s')) = k"
    "table_name (last (outbox s')) = t"
proof -
  have "controls s = [\<lparr>ctl_node = node_id s, ctl_apply = None\<rparr>]" using assms(1) by (simp add: ready_def)
  show thesis
  proof (rule write_row_Some[OF assms(2,3) \<open>controls s = _\<close> assms(4)])
    fix vs k r
    assume a: "coerce (t_affinity tab) vals = Some vs" "row_key t (number_row tab (with_defaults tab vs)) = Some k"
      "r = (case map_of (t_rows tab) k of None \<Rightarrow> number_row tab (with_defaults tab vs) | Some old \<Rightarrow> overwrite vs old)"
    assume "s' = s\<lparr>tables := AList.update t (with_row k r tab) (tables s),
            outbox := outbox s @ [\<lparr>outbox_id = next_outbox s, origin_node = node_id s, table_name = t, rec_key = k,
                                  rec_op = ''upsert'', payload = Some (upsert_payload r), unix_ms = now\<rparr>],
            next_outbox := next_outbox s + 1, versions := AList.update (t, k) (now, node_id s) (versions s)\<rparr>"
    then show thesis by (intro that[OF a]) (use assms(1) in \<open>auto simp: ready_def update_conv'\<close>)
  qed
qed

lemma insert_numbered:
  assumes "ready s" "map_of (tables s) t = Some tab" "numbered t tab n" "''id'' \<notin> fst ` set vals"
    and "write_row now t vals s = Some s'"
  shows "rec_key (last (outbox s')) = int_text (n + 1)"
proof -
  obtain vs k where c: "coerce (t_affinity tab) vals = Some vs"
      and k: "row_key t (number_row tab (with_defaults tab vs)) = Some k" "rec_key (last (outbox s')) = k"
    using assms(3) write_row_ready[OF assms(1,2) _ assms(5)] by (metis numbered_def)
  have "map_of vs ''id'' = None" using coerce_keys[OF c] assms(4) by (simp add: map_of_eq_None_iff)
  then have "get ''id'' (with_defaults tab vs) = SNull" using assms(3) by (simp add: get_defaults numbered_def)
  then have "get ''id'' (number_row tab (with_defaults tab vs)) = SInt (n + 1)"
    using assms(3) by (auto simp: number_row_def get_overwrite numbered_def with_defaults_def image_image)
  then show ?thesis using k assms(3) by (simp add: row_key_def numbered_def)
qed

lemma insert_moves_sequence:
  assumes "ready s" "map_of (tables s) t = Some tab" "numbered t tab n" "''id'' \<notin> fst ` set vals"
    and "write_row now t vals s = Some s'" "map_of (t_rows tab) (int_text (n + 1)) = None"
  shows "\<exists>tab'. map_of (tables s') t = Some tab' \<and> numbered t tab' (n + 1) \<and> ready s'"
proof -
  obtain vs k r where c: "coerce (t_affinity tab) vals = Some vs"
      and k: "row_key t (number_row tab (with_defaults tab vs)) = Some k" "rec_key (last (outbox s')) = k"
      and r: "r = (case map_of (t_rows tab) k of None \<Rightarrow> number_row tab (with_defaults tab vs) | Some old \<Rightarrow> overwrite vs old)"
      and s': "map_of (tables s') t = Some (with_row k r tab)" "ready s'"
    using assms(3) write_row_ready[OF assms(1,2) _ assms(5)] by (metis numbered_def)
  have "map_of vs ''id'' = None" using coerce_keys[OF c] assms(4) by (simp add: map_of_eq_None_iff)
  then have "get ''id'' (with_defaults tab vs) = SNull" using assms(3) by (simp add: get_defaults numbered_def)
  then have i: "get ''id'' (number_row tab (with_defaults tab vs)) = SInt (n + 1)"
    using assms(3) by (auto simp: number_row_def get_overwrite numbered_def with_defaults_def image_image)
  have "k = int_text (n + 1)" using k(2) insert_numbered[OF assms(1-5)] by simp
  then have "get ''id'' r = SInt (n + 1)" using r i assms(6) by simp
  then have "seq_after r (t_seq tab) = Some (n + 1)" using assms(3) by (simp add: seq_after_def numbered_def)
  then show ?thesis using s' assms(3) by (auto simp: numbered_def with_row_def)
qed

lemma apply_moves_sequence:
  assumes "has_schema sch s" "fits sch r" "ApplyRemoteChange ok_conn now r s = (Ret True, s')"
    and "map_of (tables s) (table_name r) = Some tab" "numbered (table_name r) tab n"
    and "get ''id'' (record_row sch r) = SInt i" "n \<le> i"
  shows "\<exists>tab'. map_of (tables s') (table_name r) = Some tab' \<and> numbered (table_name r) tab' i \<and> ready s'"
proof -
  have t: "table_ok (table_name r) tab" "carries tab r (record_row sch r)" "\<forall>others. t_accepts tab others (record_row sch r)"
    using fitsE[OF assms(2,1)] assms(4) by (metis option.inject)+
  have "\<And>v. row_version s (record_key r) = Some v \<Longrightarrow> v < record_stamp r"
    using apply_record_older[OF assms(1,2), of _ now] assms(3) by (metis Pair_inject leI outcome.inject(1))
  then have s': "s' = applied r tab (record_row sch r) s"
    using apply_record_newer[OF assms(1,2) _ assms(4) t, of now] assms(3) by auto
  have "seq_after (record_row sch r) (t_seq tab) = Some i"
    using assms(5,6,7) by (simp add: seq_after_def numbered_def)
  then show ?thesis using s' assms(1,5) 
    by (auto simp: applied_def update_conv' numbered_def with_row_def has_schema_def ready_def)
qed

text \<open>On SQLite a node that applies a row another node inserted takes its next id from the other
  node's range: an insert without id on each of the two nodes then gives both rows the same id.\<close>

lemma applied_row_breaks_range:
  assumes "ready p" "map_of (tables p) t = Some tab" "numbered t tab n" "map_of (t_rows tab) (int_text (n + 1)) = None"
    and "write_row now t vals p = Some p'" "''id'' \<notin> fst ` set vals"
    and "has_schema sch s" "fits sch (last (outbox p'))"
    and "ApplyRemoteChange ok_conn now' (last (outbox p')) s = (Ret True, s')"
    and "map_of (tables s) t = Some tab'" "numbered t tab' m" "m \<le> n + 1"
    and "get ''id'' (record_row sch (last (outbox p'))) = SInt (n + 1)"
    and "write_row now1 t vals1 p' = Some p''" "''id'' \<notin> fst ` set vals1"
    and "write_row now2 t vals2 s' = Some s''" "''id'' \<notin> fst ` set vals2"
  shows "rec_key (last (outbox p'')) = rec_key (last (outbox s''))"
proof -
  have t: "table_name (last (outbox p')) = t"
    using assms(3) write_row_ready[OF assms(1,2) _ assms(5)] by (metis numbered_def)
  obtain tp where tp: "map_of (tables p') t = Some tp" "numbered t tp (n + 1)" "ready p'"
    using insert_moves_sequence[OF assms(1-3,6,5,4)] by auto
  obtain ts where ts: "map_of (tables s') t = Some ts" "numbered t ts (n + 1)" "ready s'"
    using apply_moves_sequence[OF assms(7,8,9), unfolded t, OF assms(10,11,13,12)] by auto
  show ?thesis
    using insert_numbered[OF tp(3,1,2) assms(15,14)] insert_numbered[OF ts(3,1,2) assms(17,16)] by simp
qed

definition seeded_node :: "int \<Rightarrow> int \<Rightarrow> sync" where
  "seeded_node n sq = (demo_node n)\<lparr>tables := [(''observations'', demo_table\<lparr>t_seq := Some sq\<rparr>)]\<rparr>"

definition demo_insert :: "sync \<Rightarrow> sync" where
  "demo_insert s = the (write_row 10 ''observations'' [(''v'', SInt 3)] s)"

definition demo_peer_row :: sync where
  "demo_peer_row = demo_insert (seeded_node 2 40)"

definition demo_replicated :: sync where
  "demo_replicated = snd (ApplyRemoteChange ok_conn 20 (last (outbox demo_peer_row)) (seeded_node 1 20))"

lemma some_the: "\<not> Option.is_none x \<Longrightarrow> x = Some (the x)"
  by (cases x) auto

lemma demo_insert_Some:
  "\<not> Option.is_none (write_row 10 ''observations'' [(''v'', SInt 3)] s) \<Longrightarrow>
   write_row 10 ''observations'' [(''v'', SInt 3)] s = Some (demo_insert s)"
  unfolding demo_insert_def by (rule some_the)

lemma applied_row_breaks_range_example:
  "rec_key (last (outbox (demo_insert demo_peer_row))) = rec_key (last (outbox (demo_insert demo_replicated)))"
proof (rule applied_row_breaks_range[where t = "''observations''" and tab = "demo_table\<lparr>t_seq := Some 40\<rparr>" and n = 40
      and p = "seeded_node 2 40" and s = "seeded_node 1 20" and m = 20
      and tab' = "demo_table\<lparr>t_seq := Some 20\<rparr>" and sch = demo_schema])
  show "has_schema demo_schema (seeded_node 1 20)"
    by (auto simp: has_schema_def ready_def demo_schema_def seeded_node_def demo_node_def demo_table_def table_ok_def
        like_def key_columns_def IsCompositeKeyTable_def CompositeKeyTables_def)
  have c: "carries demo_table (last (outbox demo_peer_row)) (the (sent_row demo_table (last (outbox demo_peer_row))))"
    by code_simp
  have "table_name (last (outbox demo_peer_row)) = ''observations''" by code_simp
  then show "fits demo_schema (last (outbox demo_peer_row))"
    using c by (auto simp: fits_def demo_schema_def) (auto simp: demo_table_def)
  have "fst (ApplyRemoteChange ok_conn 20 (last (outbox demo_peer_row)) (seeded_node 1 20)) = Ret True" by code_simp
  then show "ApplyRemoteChange ok_conn 20 (last (outbox demo_peer_row)) (seeded_node 1 20) = (Ret True, demo_replicated)"
    by (simp add: demo_replicated_def prod_eq_iff)
  show "write_row 10 ''observations'' [(''v'', SInt 3)] (seeded_node 2 40) = Some demo_peer_row"
    unfolding demo_peer_row_def by (rule demo_insert_Some) code_simp
  show "write_row 10 ''observations'' [(''v'', SInt 3)] demo_peer_row = Some (demo_insert demo_peer_row)"
    by (rule demo_insert_Some) code_simp
  show "write_row 10 ''observations'' [(''v'', SInt 3)] demo_replicated = Some (demo_insert demo_replicated)"
    by (rule demo_insert_Some) code_simp
  show "get ''id'' (record_row demo_schema (last (outbox demo_peer_row))) = SInt (40 + 1)" by code_simp
qed (simp_all add: seeded_node_def demo_node_def ready_def numbered_def demo_table_def IsCompositeKeyTable_def CompositeKeyTables_def)

subsection \<open>A node after the migration\<close>

lemma Migrate_controls: "controls s = [] \<Longrightarrow> controls (MigrateRowIdsIfNeeded x s) = []"
  by (simp add: MigrateRowIdsIfNeeded_def rebuild_outbox_def rebuild_versions_def Let_def split_beta)

lemma ReadTableColumns_controls: "controls s = [] \<Longrightarrow> controls (snd (ReadTableColumns x t s)) = []"
  by (simp add: ReadTableColumns_def Migrate_controls Let_def)

lemma InstallTriggers_controls:
  assumes "controls s = []"
  shows "controls (snd (snd (InstallTriggersFor x execs e t s))) = []"
proof -
  obtain cols s1 where r: "ReadTableColumns x t s = (cols, s1)" by fastforce
  then have "controls s1 = []" using ReadTableColumns_controls[OF assms, of x t] by simp
  then show ?thesis using assms r
    by (simp add: InstallTriggersFor_def put_table_def split: option.split bool.split)
qed

lemma install_all_controls: "controls s = [] \<Longrightarrow> controls (snd (install_all x execs e ts s)) = []"
proof (induction ts arbitrary: s)
  case (Cons t ts)
  obtain ok m s1 where r: "InstallTriggersFor x execs e t s = (ok, m, s1)" by (metis prod_cases3)
  then have "controls s1 = []" using InstallTriggers_controls[OF Cons.prems, of x execs e t] by simp
  then show ?case using Cons.IH r by (cases ok) (auto simp: split_beta)
qed simp

text \<open>On SQLite the start that migrates the row ids reports success and leaves \<open>sync_control\<close>
  empty, and until the next start every write to a replicated table fails.\<close>

lemma migration_silences_node:
  assumes "\<not> m_pg x" "m_prepares x" "m_drop_control x"
    and "outbox_type s = Some ty" "ty \<noteq> ''TEXT''"
    and "EnsureSchema c x execs (Some s) = (True, e, Some s')"
    and "map_of (tables s') t = Some tab" "t_triggers tab"
  shows "write_row now t vals s' = None"
proof -
  have mig: "controls (MigrateRowIdsIfNeeded x u) = []" if "outbox_type u = Some ty" for u
    using assms(1-3,5) that by (simp add: MigrateRowIdsIfNeeded_def needMigrate_def)
  have "controls s' = []"
    using assms(6,4) by (auto simp: EnsureSchema_def Let_def text_type_def split_beta split: if_splits
        intro!: install_all_controls mig)
  then show ?thesis using assms(7,8)
    by (auto simp: write_row_def fire_trigger_def put_table_def Let_def split: option.splits)
qed

definition legacy_node :: sync where
  "legacy_node = (demo_node 1)\<lparr>controls := [], outbox_type := Some ''INTEGER'', versions_type := Some ''INTEGER''\<rparr>"

lemma migration_silences_node_example:
  "write_row 10 ''observations'' (demo_vals 3)
     (the (snd (snd (EnsureSchema healthy (a_migrate ok_conn) (\<lambda>t. True) (Some legacy_node))))) = None"
proof (rule migration_silences_node)
  have ok: "fst (EnsureSchema healthy (a_migrate ok_conn) (\<lambda>t. True) (Some legacy_node))" by code_simp
  have some: "\<not> Option.is_none (snd (snd (EnsureSchema healthy (a_migrate ok_conn) (\<lambda>t. True) (Some legacy_node))))" by code_simp
  show "EnsureSchema healthy (a_migrate ok_conn) (\<lambda>t. True) (Some legacy_node)
    = (True, fst (snd (EnsureSchema healthy (a_migrate ok_conn) (\<lambda>t. True) (Some legacy_node))),
       Some (the (snd (snd (EnsureSchema healthy (a_migrate ok_conn) (\<lambda>t. True) (Some legacy_node))))))"
    using ok some_the[OF some] by (simp add: prod_eq_iff)
  let ?t = "map_of (tables (the (snd (snd (EnsureSchema healthy (a_migrate ok_conn) (\<lambda>t. True) (Some legacy_node)))))) ''observations''"
  have "\<not> Option.is_none ?t" by code_simp
  then show "?t = Some (the ?t)" by (rule some_the)
  show "t_triggers (the ?t)" by code_simp
  show "''INTEGER'' \<noteq> ''TEXT''" by code_simp
qed (simp_all add: ok_conn_def legacy_node_def)

end
