(* ===== verification/PeerSync.thy ===== *)
theory PeerSync
  imports SyncStore
begin

text \<open>
  Pulling from the peers (\<open>src/kernel/PeerSyncService.cpp\<close>) and the two handlers that answer
  (\<open>admin/internal/AdminServerRoutesSync.inc\<close>): the handshake, the batched pull of a peer's outbox,
  a pass over all peers with its failure count and its anti-entropy heal, and the questions about
  leases and claims. The network is an argument: what the peer answers to the n-th request. A body
  is what the JSON parser makes of it; \<open>parse\<close> reads the payload text inside a record. An exception
  of a JSON accessor ends the function as \<open>Throw\<close>: nothing on the sync thread catches it.
\<close>

subsection \<open>Requests and answers\<close>

text \<open>The four paths, in place of their texts.\<close>

datatype endpoint = EHandshake | EOutbox int int | ELease string | EClaim string

record http_request =
  rq_url :: string
  rq_path :: endpoint
  rq_auth :: "string option"
  rq_node :: int
  rq_timeout :: int

record http_response =
  status_code :: int
  body :: "json option"
  rs_error :: string

type_synonym network = "nat \<Rightarrow> http_request \<Rightarrow> http_response"

record peer =
  url :: string
  nodeId :: int
  state :: string
  lastContactOkMs :: ms
  cursor :: int
  consecutiveFailures :: int
  appliedTotal :: int
  pulledTotal :: int
  lastError :: string
  peerMaxOutboxId :: int
  peerDigests :: "(string \<times> int) list"
  healTotal :: int
  lastHealMs :: ms

record incoming_pull =
  in_node :: int
  in_url :: string
  in_lastPullMs :: ms
  in_pulls :: int

definition kProtocol :: int where
  "kProtocol = 1"

function TrimTrailingSlash :: "string \<Rightarrow> string" where
  "TrimTrailingSlash u = (if u \<noteq> '''' \<and> last u = CHR ''/'' then TrimTrailingSlash (butlast u) else u)"
  by pat_completeness auto
termination by (relation "measure length") auto

declare TrimTrailingSlash.simps [simp del]

definition new_peer :: "string \<Rightarrow> peer" where
  "new_peer u = \<lparr>url = TrimTrailingSlash u, nodeId = 0, state = ''connecting'', lastContactOkMs = 0, cursor = 0,
     consecutiveFailures = 0, appliedTotal = 0, pulledTotal = 0, lastError = '''', peerMaxOutboxId = -1,
     peerDigests = [], healTotal = 0, lastHealMs = 0\<rparr>"

text \<open>The service's settings and what its calls depend on.\<close>

record peer_cfg =
  pc_token :: string
  pc_batch :: int
  pc_failuresBeforeDown :: int
  pc_poll :: ms

definition default_cfg :: "string \<Rightarrow> peer_cfg" where
  "default_cfg token = \<lparr>pc_token = token, pc_batch = 500, pc_failuresBeforeDown = 3, pc_poll = 10000\<rparr>"

definition get_request :: "peer_cfg \<Rightarrow> int \<Rightarrow> peer \<Rightarrow> endpoint \<Rightarrow> http_request" where
  "get_request cfg self p path =
     \<lparr>rq_url = url p, rq_path = path, rq_auth = (if pc_token cfg = '''' then None else Some (''Bearer '' @ pc_token cfg)),
      rq_node = self, rq_timeout = 15\<rparr>"

definition ParseJson :: "json option \<Rightarrow> json option" where
  "ParseJson b = (case b of Some j \<Rightarrow> if isObject j then Some j else None | None \<Rightarrow> None)"

definition http_error :: "http_response \<Rightarrow> string" where
  "http_error r =
     (if status_code r = 0 then ''connection failed: '' @ (if rs_error r = '''' then ''no route'' else rs_error r)
      else ''HTTP '' @ int_text (status_code r))"

subsection \<open>Handshake\<close>

text \<open>The digests that have a table name and a count; an element that is no object throws.\<close>

fun read_digests :: "json list \<Rightarrow> (string \<times> int) list outcome" where
  "read_digests [] = Ret []"
| "read_digests (d # ds) =
     bind_outcome (and_also (isMember d ''table'') (and_also (bind_outcome (member d ''table'') (\<lambda>t. Ret (isString t)))
        (and_also (isMember d ''count'') (bind_outcome (member d ''count'') (\<lambda>n. Ret (isNumeric n)))))) (\<lambda>ok.
     if ok then bind_outcome (member_string d ''table'') (\<lambda>t.
                bind_outcome (member_int64 d ''count'') (\<lambda>n.
                bind_outcome (read_digests ds) (\<lambda>r. Ret ((t, n) # r))))
     else read_digests ds)"

definition array_items :: "json \<Rightarrow> json list" where
  "array_items j = (case j of JArr xs \<Rightarrow> xs | _ \<Rightarrow> [])"

definition member_or_null :: "json \<Rightarrow> string \<Rightarrow> json" where
  "member_or_null j k = (case member j k of Ret v \<Rightarrow> v | _ \<Rightarrow> JNull)"

text \<open>The anti-entropy fields of an accepted handshake.\<close>

definition read_anti_entropy :: "json \<Rightarrow> peer \<Rightarrow> peer outcome" where
  "read_anti_entropy b p =
     bind_outcome (if isNumeric (member_or_null b ''max_outbox_id'') then member_int64 b ''max_outbox_id'' else Ret (-1)) (\<lambda>mx.
     bind_outcome (read_digests (array_items (member_or_null b ''digests''))) (\<lambda>ds.
       Ret (p\<lparr>peerMaxOutboxId := mx, peerDigests := ds\<rparr>)))"

text \<open>\<open>others\<close>: the peers beside \<open>p\<close>. The texts of \<open>*error\<close> are abridged to their first clause.\<close>

definition Handshake :: "peer_cfg \<Rightarrow> int \<Rightarrow> peer list \<Rightarrow> http_response \<Rightarrow> peer \<Rightarrow> (bool \<times> string) outcome \<times> peer" where
  "Handshake cfg self others resp p =
     (if status_code resp \<noteq> 200 then (Ret (False, http_error resp), p)
      else case ParseJson (body resp) of
             None \<Rightarrow> (Ret (False, ''malformed handshake response''), p)
           | Some b \<Rightarrow>
               if isMember b ''protocol'' \<noteq> Ret True \<or> isMember b ''node_id'' \<noteq> Ret True
               then (Ret (False, ''malformed handshake response''), p)
               else case bind_outcome (member b ''protocol'') asInt of
                      Throw \<Rightarrow> (Throw, p) | Trap \<Rightarrow> (Trap, p)
                    | Ret protocol \<Rightarrow>
                        if protocol \<noteq> kProtocol
                        then (Ret (False, ''protocol mismatch (peer='' @ int_text protocol @ '', local='' @ int_text kProtocol @ '')''),
                              p\<lparr>state := ''incompatible''\<rparr>)
                        else case bind_outcome (member b ''node_id'') asUInt64 of
                               Throw \<Rightarrow> (Throw, p) | Trap \<Rightarrow> (Trap, p)
                             | Ret n \<Rightarrow>
                                 if n = 0 then (Ret (False, ''peer reports node id 0 (single-node deployment?)''), p)
                                 else if n = self then (Ret (False, ''peer reports OUR node id''), p)
                                 else if \<exists>q \<in> set others. nodeId q = n
                                      then (Ret (False, ''duplicate peer node id '' @ int_text n), p\<lparr>state := ''incompatible''\<rparr>)
                                 else let p1 = p\<lparr>nodeId := n, peerMaxOutboxId := -1, peerDigests := []\<rparr>
                                      in case read_anti_entropy b p1 of
                                           Throw \<Rightarrow> (Throw, p1) | Trap \<Rightarrow> (Trap, p1)
                                         | Ret p2 \<Rightarrow> (Ret (True, ''''), p2))"

subsection \<open>Pulling an outbox\<close>

definition record_fields :: "string list" where
  "record_fields = [''outbox_id'', ''origin_node'', ''table_name'', ''row_id'', ''op'', ''payload'', ''unix_ms'']"

fun has_all :: "json \<Rightarrow> string list \<Rightarrow> bool outcome" where
  "has_all j [] = Ret True"
| "has_all j (k # ks) = and_also (isMember j k) (has_all j ks)"

definition read_record :: "(string \<Rightarrow> json option) \<Rightarrow> json \<Rightarrow> outbox_record outcome" where
  "read_record parse j =
     bind_outcome (member_int64 j ''outbox_id'') (\<lambda>i.
     bind_outcome (member_int64 j ''origin_node'') (\<lambda>n.
     bind_outcome (member_string j ''table_name'') (\<lambda>t.
     bind_outcome (member_string j ''row_id'') (\<lambda>k.
     bind_outcome (member_string j ''op'') (\<lambda>op.
     bind_outcome (member_string j ''payload'') (\<lambda>p.
     bind_outcome (member_int64 j ''unix_ms'') (\<lambda>m.
       Ret \<lparr>outbox_id = i, origin_node = n, table_name = t, rec_key = k, rec_op = op, payload = parse p, unix_ms = m\<rparr>)))))))"

text \<open>The state of a pull: the peer, the store, the changes applied, the error text, the number of
  requests made.\<close>

record pull =
  pl_peer :: peer
  pl_store :: sync
  pl_applied :: int
  pl_error :: string
  pl_calls :: nat

definition note_cursor :: "conn \<Rightarrow> peer \<Rightarrow> sync \<Rightarrow> sync" where
  "note_cursor c p s = (if nodeId p \<noteq> 0 then snd (SetPeerCursor c (nodeId p) (cursor p) s) else s)"

definition take_record :: "apply_conn \<Rightarrow> conn \<Rightarrow> ms \<Rightarrow> outbox_record \<Rightarrow> pull \<Rightarrow> unit outcome \<times> pull" where
  "take_record c cc now r st =
     (case ApplyRemoteChange c now r (pl_store st) of
        (Throw, s) \<Rightarrow> (Throw, st\<lparr>pl_store := s\<rparr>)
      | (Trap, s) \<Rightarrow> (Trap, st\<lparr>pl_store := s\<rparr>)
      | (Ret ok, s) \<Rightarrow>
          let p = (pl_peer st)\<lparr>pulledTotal := pulledTotal (pl_peer st) + 1, cursor := outbox_id r\<rparr>
          in (Ret (), st\<lparr>pl_peer := p, pl_store := note_cursor cc p s,
                         pl_applied := pl_applied st + (if ok then 1 else 0)\<rparr>))"

fun take_records ::
    "apply_conn \<Rightarrow> conn \<Rightarrow> (string \<Rightarrow> json option) \<Rightarrow> ms \<Rightarrow> json list \<Rightarrow> pull \<Rightarrow> unit outcome \<times> pull" where
  "take_records c cc parse now [] st = (Ret (), st)"
| "take_records c cc parse now (j # js) st =
     (case has_all j record_fields of
        Throw \<Rightarrow> (Throw, st) | Trap \<Rightarrow> (Trap, st)
      | Ret False \<Rightarrow> take_records c cc parse now js (st\<lparr>pl_error := ''malformed outbox record''\<rparr>)
      | Ret True \<Rightarrow>
          (case read_record parse j of
             Throw \<Rightarrow> (Throw, st) | Trap \<Rightarrow> (Trap, st)
           | Ret r \<Rightarrow>
               (case take_record c cc now r st of
                  (Ret _, st1) \<Rightarrow> take_records c cc parse now js st1
                | (Throw, st1) \<Rightarrow> (Throw, st1)
                | (Trap, st1) \<Rightarrow> (Trap, st1))))"

definition pull_failed :: "string \<Rightarrow> pull \<Rightarrow> int outcome \<times> pull" where
  "pull_failed e st = (Ret (if pl_applied st > 0 then 0 else -1), st\<lparr>pl_error := e\<rparr>)"

text \<open>The batch loop; \<open>n\<close> is the number of batches left of the 50.\<close>

fun pull_batches ::
    "peer_cfg \<Rightarrow> apply_conn \<Rightarrow> conn \<Rightarrow> (string \<Rightarrow> json option) \<Rightarrow> ms \<Rightarrow> network \<Rightarrow> nat \<Rightarrow> pull \<Rightarrow> int outcome \<times> pull" where
  "pull_batches cfg c cc parse now net 0 st = (Ret (pl_applied st), st)"
| "pull_batches cfg c cc parse now net (Suc n) st =
     (let resp = net (pl_calls st) (get_request cfg (node_id (pl_store st)) (pl_peer st)
                                      (EOutbox (cursor (pl_peer st)) (pc_batch cfg)));
          st1 = st\<lparr>pl_calls := pl_calls st + 1\<rparr>
      in if status_code resp \<noteq> 200 then pull_failed (http_error resp) st1
         else case ParseJson (body resp) of
                None \<Rightarrow> pull_failed ''malformed outbox response'' st1
              | Some b \<Rightarrow>
                  if isMember b ''records'' \<noteq> Ret True then pull_failed ''malformed outbox response'' st1
                  else let records = member_or_null b ''records''
                  in if \<not> isArray records then pull_failed ''outbox records not an array'' st1
                     else case take_records c cc parse now (array_items records) st1 of
                            (Throw, st2) \<Rightarrow> (Throw, st2) | (Trap, st2) \<Rightarrow> (Trap, st2)
                          | (Ret _, st2) \<Rightarrow>
                              (case asBool (case isMember b ''has_more'' of Ret True \<Rightarrow> member_or_null b ''has_more'' | _ \<Rightarrow> JBool False) of
                                 Throw \<Rightarrow> (Throw, st2) | Trap \<Rightarrow> (Trap, st2)
                               | Ret hasMore \<Rightarrow>
                                   if \<not> hasMore \<or> array_items records = [] then (Ret (pl_applied st2), st2)
                                   else pull_batches cfg c cc parse now net n st2))"

definition PullFromPeer ::
    "peer_cfg \<Rightarrow> apply_conn \<Rightarrow> conn \<Rightarrow> (string \<Rightarrow> json option) \<Rightarrow> ms \<Rightarrow> network \<Rightarrow> nat \<Rightarrow> peer \<Rightarrow> sync \<Rightarrow> int outcome \<times> pull" where
  "PullFromPeer cfg c cc parse now net calls p s =
     pull_batches cfg c cc parse now net 50 \<lparr>pl_peer = p, pl_store = s, pl_applied = 0, pl_error = '''', pl_calls = calls\<rparr>"

subsection \<open>A pass over the peers\<close>

text \<open>The tables on which the peer reported more rows than this node has.\<close>

definition short_tables :: "digest list \<Rightarrow> peer \<Rightarrow> string list" where
  "short_tables ours p =
     map fst (filter (\<lambda>(t, n). case map_of (map (\<lambda>d. (dg_table d, dg_count d)) ours) t of None \<Rightarrow> False | Some k \<Rightarrow> k < n)
                (peerDigests p))"

definition heal_due :: "peer \<Rightarrow> bool" where
  "heal_due p = (peerDigests p \<noteq> [] \<and> cursor p > 0 \<and> peerMaxOutboxId p \<ge> 0 \<and> cursor p \<ge> peerMaxOutboxId p)"

definition heal :: "conn \<Rightarrow> (string \<Rightarrow> int) \<Rightarrow> ms \<Rightarrow> peer \<Rightarrow> sync \<Rightarrow> peer \<times> sync" where
  "heal cc to_int now p s =
     (let short = short_tables (TableDigests cc to_int s) p
      in if \<not> heal_due p \<or> short = [] then (p, s)
         else (p\<lparr>cursor := 0, healTotal := healTotal p + 1, lastHealMs := now\<rparr>,
               snd (SetPeerCursor cc (nodeId p) 0 (fold (ClearTableVersions cc) short s))))"

definition pass_ok :: "conn \<Rightarrow> (string \<Rightarrow> int) \<Rightarrow> ms \<Rightarrow> int \<Rightarrow> peer \<Rightarrow> sync \<Rightarrow> peer \<times> sync" where
  "pass_ok cc to_int now nApplied p s =
     heal cc to_int now (p\<lparr>state := ''healthy'', consecutiveFailures := 0, lastContactOkMs := now, lastError := '''',
                           appliedTotal := appliedTotal p + (if nApplied > 0 then nApplied else 0)\<rparr>) s"

definition pass_failed :: "peer_cfg \<Rightarrow> string \<Rightarrow> peer \<Rightarrow> peer" where
  "pass_failed cfg e p =
     (let n = consecutiveFailures p + 1
      in p\<lparr>consecutiveFailures := n, lastError := e,
           state := (if state p \<noteq> ''incompatible'' \<and> n \<ge> pc_failuresBeforeDown cfg then ''down'' else state p)\<rparr>)"

text \<open>One peer of a pass: its result, the changes it added, the peer, the store, the next call.\<close>

definition sync_peer ::
    "peer_cfg \<Rightarrow> apply_conn \<Rightarrow> conn \<Rightarrow> (string \<Rightarrow> int) \<Rightarrow> (string \<Rightarrow> json option) \<Rightarrow> ms \<Rightarrow> network \<Rightarrow> peer list \<Rightarrow>
     nat \<Rightarrow> peer \<Rightarrow> sync \<Rightarrow> int outcome \<times> peer \<times> sync \<times> nat" where
  "sync_peer cfg c cc to_int parse now net others calls p s =
     (case Handshake cfg (node_id s) others (net calls (get_request cfg (node_id s) p EHandshake)) p of
        (Throw, p1) \<Rightarrow> (Throw, p1, s, calls + 1)
      | (Trap, p1) \<Rightarrow> (Trap, p1, s, calls + 1)
      | (Ret (False, e), p1) \<Rightarrow> (Ret 0, pass_failed cfg e p1, s, calls + 1)
      | (Ret (True, _), p1) \<Rightarrow>
          let p2 = (if nodeId p = 0 \<and> nodeId p1 \<noteq> 0 then p1\<lparr>cursor := GetPeerCursor cc (nodeId p1) s\<rparr> else p1)
          in case PullFromPeer cfg c cc parse now net (calls + 1) p2 s of
               (Throw, st) \<Rightarrow> (Throw, pl_peer st, pl_store st, pl_calls st)
             | (Trap, st) \<Rightarrow> (Trap, pl_peer st, pl_store st, pl_calls st)
             | (Ret nApplied, st) \<Rightarrow>
                 if nApplied < 0 then (Ret 0, pass_failed cfg (pl_error st) (pl_peer st), pl_store st, pl_calls st)
                 else let (p3, s3) = pass_ok cc to_int now nApplied (pl_peer st) (pl_store st)
                      in (Ret nApplied, p3, s3, pl_calls st))"

fun sync_peers ::
    "peer_cfg \<Rightarrow> apply_conn \<Rightarrow> conn \<Rightarrow> (string \<Rightarrow> int) \<Rightarrow> (string \<Rightarrow> json option) \<Rightarrow> ms \<Rightarrow> network \<Rightarrow>
     peer list \<Rightarrow> peer list \<Rightarrow> nat \<Rightarrow> sync \<Rightarrow> int outcome \<times> peer list \<times> sync" where
  "sync_peers cfg c cc to_int parse now net done [] calls s = (Ret 0, done, s)"
| "sync_peers cfg c cc to_int parse now net done (p # ps) calls s =
     (case sync_peer cfg c cc to_int parse now net (done @ ps) calls p s of
        (Ret n, p1, s1, k) \<Rightarrow>
          (case sync_peers cfg c cc to_int parse now net (done @ [p1]) ps k s1 of
             (Ret m, qs, s2) \<Rightarrow> (Ret (n + m), qs, s2) | r \<Rightarrow> r)
      | (Throw, p1, s1, k) \<Rightarrow> (Throw, done @ p1 # ps, s1)
      | (Trap, p1, s1, k) \<Rightarrow> (Trap, done @ p1 # ps, s1))"

definition SyncOnce ::
    "peer_cfg \<Rightarrow> apply_conn \<Rightarrow> conn \<Rightarrow> (string \<Rightarrow> int) \<Rightarrow> (string \<Rightarrow> json option) \<Rightarrow> ms \<Rightarrow> network \<Rightarrow> peer list \<Rightarrow> sync \<Rightarrow>
     int outcome \<times> peer list \<times> sync" where
  "SyncOnce cfg c cc to_int parse now net ps s = sync_peers cfg c cc to_int parse now net [] ps 0 s"

subsection \<open>Service life cycle and diagnostics\<close>

record service =
  sv_peers :: "peer list"
  sv_incoming :: "incoming_pull list"
  sv_running :: bool
  sv_store :: bool
  sv_node :: int

definition PeerSyncService_init :: "bool \<Rightarrow> int \<Rightarrow> string list \<Rightarrow> service" where
  "PeerSyncService_init store node urls =
     \<lparr>sv_peers = map new_peer urls, sv_incoming = [], sv_running = False, sv_store = store, sv_node = node\<rparr>"

text \<open>\<open>spawn\<close>: the error of the thread's creation, if it fails.\<close>

definition Start :: "string option \<Rightarrow> service \<Rightarrow> bool \<times> string \<times> service" where
  "Start spawn sv =
     (if sv_running sv then (False, ''already running'', sv)
      else if \<not> sv_store sv then (False, ''null sync store'', sv\<lparr>sv_running := False\<rparr>)
      else case spawn of
             Some e \<Rightarrow> (False, ''thread spawn failed: '' @ e, sv\<lparr>sv_running := False\<rparr>)
           | None \<Rightarrow> (True, '''', sv\<lparr>sv_running := True\<rparr>))"

definition Stop :: "service \<Rightarrow> service" where
  "Stop sv = sv\<lparr>sv_running := False\<rparr>"

text \<open>One turn of the thread's loop: whether it makes a pass, and when the next one is due.\<close>

definition run_turn :: "peer_cfg \<Rightarrow> ms \<Rightarrow> ms \<Rightarrow> bool \<times> ms" where
  "run_turn cfg now nextRun = (if now \<ge> nextRun then (True, now + pc_poll cfg) else (False, nextRun))"

fun RecordIncomingPull :: "ms \<Rightarrow> int \<Rightarrow> string \<Rightarrow> incoming_pull list \<Rightarrow> incoming_pull list" where
  "RecordIncomingPull now n u [] = [\<lparr>in_node = n, in_url = u, in_lastPullMs = now, in_pulls = 1\<rparr>]"
| "RecordIncomingPull now n u (i # is) =
     (if in_node i = n
      then i\<lparr>in_lastPullMs := now, in_pulls := in_pulls i + 1, in_url := (if u \<noteq> '''' then u else in_url i)\<rparr> # is
      else i # RecordIncomingPull now n u is)"

definition peer_json :: "peer \<Rightarrow> json" where
  "peer_json p = JObj
     ([(''url'', JStr (url p)), (''node_id'', JInt (nodeId p)), (''state'', JStr (state p)), (''cursor'', JInt (cursor p)),
       (''last_contact_ok_ms'', JInt (lastContactOkMs p)), (''consecutive_failures'', JInt (consecutiveFailures p)),
       (''pulled_total'', JInt (pulledTotal p)), (''applied_total'', JInt (appliedTotal p)), (''heal_total'', JInt (healTotal p))]
      @ (if lastHealMs p > 0 then [(''last_heal_ms'', JInt (lastHealMs p))] else [])
      @ (if lastError p \<noteq> '''' then [(''last_error'', JStr (lastError p))] else []))"

definition incoming_json :: "incoming_pull \<Rightarrow> json" where
  "incoming_json i = JObj [(''node_id'', JInt (in_node i)), (''url'', JStr (in_url i)),
     (''last_pull_ms'', JInt (in_lastPullMs i)), (''pulls'', JInt (in_pulls i))]"

definition StatusJson :: "service \<Rightarrow> json" where
  "StatusJson sv = JObj [(''node_id'', JInt (if sv_store sv then sv_node sv else 0)), (''protocol'', JInt kProtocol),
     (''running'', JBool (sv_running sv)), (''peers'', JArr (map peer_json (sv_peers sv))),
     (''incoming'', JArr (map incoming_json (sv_incoming sv)))]"

subsection \<open>Lease and claim questions\<close>

definition unreachable :: "peer \<Rightarrow> bool" where
  "unreachable p = (state p = ''down'' \<or> state p = ''incompatible'')"

record lease_ack =
  la_configured :: nat
  la_anyAcked :: bool
  la_down :: nat
  la_lastExchange :: ms

record claim_ack =
  ca_configured :: nat
  ca_mine :: bool
  ca_other :: bool
  ca_down :: nat

text \<open>The answer's object when there is one and it says the row exists.\<close>

definition existing :: "http_response \<Rightarrow> json option outcome" where
  "existing r =
     (if status_code r \<noteq> 200 then Ret None
      else case ParseJson (body r) of
             None \<Rightarrow> Ret None
           | Some b \<Rightarrow> bind_outcome (and_also (isMember b ''exists'') (bind_outcome (member b ''exists'') asBool)) (\<lambda>e.
                         Ret (if e then Some b else None)))"

definition optional_member :: "json \<Rightarrow> string \<Rightarrow> 'a \<Rightarrow> (json \<Rightarrow> 'a outcome) \<Rightarrow> 'a outcome" where
  "optional_member b k d f =
     bind_outcome (isMember b k) (\<lambda>h. if h then bind_outcome (member b k) f else Ret d)"

fun ask_leases ::
    "peer_cfg \<Rightarrow> int \<Rightarrow> string \<Rightarrow> int \<Rightarrow> ms \<Rightarrow> network \<Rightarrow> nat \<Rightarrow> peer list \<Rightarrow> lease_ack \<Rightarrow> lease_ack outcome" where
  "ask_leases cfg self sched epoch now net calls [] a = Ret a"
| "ask_leases cfg self sched epoch now net calls (p # ps) a =
     (let a1 = a\<lparr>la_configured := la_configured a + 1\<rparr>
      in if unreachable p then ask_leases cfg self sched epoch now net calls ps (a1\<lparr>la_down := la_down a1 + 1\<rparr>)
         else bind_outcome (existing (net calls (get_request cfg self p (ELease sched)))) (\<lambda>e.
              case e of
                None \<Rightarrow> ask_leases cfg self sched epoch now net (calls + 1) ps a1
              | Some b \<Rightarrow>
                  bind_outcome (optional_member b ''epoch'' (-1) asInt64) (\<lambda>peerEpoch.
                  bind_outcome (optional_member b ''holder_node_id'' '''' asString) (\<lambda>holder.
                    ask_leases cfg self sched epoch now net (calls + 1) ps
                      (a1\<lparr>la_anyAcked := la_anyAcked a1 \<or> (peerEpoch = epoch \<and> holder = int_text self),
                          la_lastExchange := max (la_lastExchange a1) now\<rparr>)))))"

definition CheckLeaseAck ::
    "peer_cfg \<Rightarrow> int \<Rightarrow> string \<Rightarrow> int \<Rightarrow> ms \<Rightarrow> network \<Rightarrow> peer list \<Rightarrow> (lease_ack \<times> bool) outcome" where
  "CheckLeaseAck cfg self sched epoch now net ps =
     bind_outcome (ask_leases cfg self sched epoch now net 0 ps \<lparr>la_configured = 0, la_anyAcked = False, la_down = 0, la_lastExchange = 0\<rparr>)
       (\<lambda>a. Ret (a, la_configured a > 0 \<and> la_down a = la_configured a))"

fun ask_claims ::
    "peer_cfg \<Rightarrow> int \<Rightarrow> string \<Rightarrow> network \<Rightarrow> nat \<Rightarrow> peer list \<Rightarrow> claim_ack \<Rightarrow> claim_ack outcome" where
  "ask_claims cfg self u net calls [] a = Ret a"
| "ask_claims cfg self u net calls (p # ps) a =
     (let a1 = a\<lparr>ca_configured := ca_configured a + 1\<rparr>
      in if unreachable p then ask_claims cfg self u net calls ps (a1\<lparr>ca_down := ca_down a1 + 1\<rparr>)
         else bind_outcome (existing (net calls (get_request cfg self p (EClaim u)))) (\<lambda>e.
              case e of
                None \<Rightarrow> ask_claims cfg self u net (calls + 1) ps a1
              | Some b \<Rightarrow>
                  bind_outcome (optional_member b ''node_id'' '''' asString) (\<lambda>node.
                    ask_claims cfg self u net (calls + 1) ps
                      (if node = int_text self then a1\<lparr>ca_mine := True\<rparr> else a1\<lparr>ca_other := True\<rparr>))))"

definition CheckClaimAck ::
    "peer_cfg \<Rightarrow> int \<Rightarrow> string \<Rightarrow> network \<Rightarrow> peer list \<Rightarrow> (claim_ack \<times> bool) outcome" where
  "CheckClaimAck cfg self u net ps =
     bind_outcome (ask_claims cfg self u net 0 ps \<lparr>ca_configured = 0, ca_mine = False, ca_other = False, ca_down = 0\<rparr>)
       (\<lambda>a. Ret (a, ca_configured a > 0 \<and> ca_down a = ca_configured a))"

subsection \<open>The answering side\<close>

text \<open>\<open>text_of\<close> is the payload text the outbox stores.\<close>

definition record_json :: "(json option \<Rightarrow> string) \<Rightarrow> outbox_record \<Rightarrow> json" where
  "record_json text_of r = JObj
     [(''outbox_id'', JInt (outbox_id r)), (''origin_node'', JInt (origin_node r)), (''table_name'', JStr (table_name r)),
      (''row_id'', JStr (rec_key r)), (''op'', JStr (rec_op r)), (''payload'', JStr (text_of (payload r))),
      (''unix_ms'', JInt (unix_ms r))]"

definition clamp_limit :: "int \<Rightarrow> int" where
  "clamp_limit n = (if n < 1 then 1 else if n > 5000 then 5000 else n)"

definition handle_outbox :: "conn \<Rightarrow> (json option \<Rightarrow> string) \<Rightarrow> int \<Rightarrow> int \<Rightarrow> sync \<Rightarrow> json" where
  "handle_outbox cc text_of since limit s =
     (let rs = FetchOutboxSince cc since (clamp_limit limit) s;
          maxId = MaxOutboxId cc s;
          lastId = (if rs = [] then since else outbox_id (last rs))
      in JObj [(''node_id'', JInt (node_id s)), (''records'', JArr (map (record_json text_of) rs)),
               (''max_id'', JInt maxId), (''has_more'', JBool (lastId < maxId))])"

definition digest_json :: "digest \<Rightarrow> json" where
  "digest_json d = JObj [(''table'', JStr (dg_table d)), (''count'', JInt (dg_count d)), (''max_id'', JInt (dg_max d)),
     (''sum_last_ms'', JInt (dg_sum d))]"

definition handle_handshake :: "conn \<Rightarrow> (string \<Rightarrow> int) \<Rightarrow> sync \<Rightarrow> json" where
  "handle_handshake cc to_int s = JObj
     [(''protocol'', JInt kProtocol), (''node_id'', JInt (node_id s)), (''tables'', JArr (map JStr (synced_tables s))),
      (''max_outbox_id'', JInt (MaxOutboxId cc s)), (''digests'', JArr (map digest_json (TableDigests cc to_int s)))]"

text \<open>A network on which every peer answers from one store.\<close>

definition served_by :: "conn \<Rightarrow> (string \<Rightarrow> int) \<Rightarrow> (json option \<Rightarrow> string) \<Rightarrow> sync \<Rightarrow> http_request \<Rightarrow> http_response" where
  "served_by cc to_int text_of s rq =
     (case rq_path rq of
        EHandshake \<Rightarrow> \<lparr>status_code = 200, body = Some (handle_handshake cc to_int s), rs_error = ''''\<rparr>
      | EOutbox since limit \<Rightarrow> \<lparr>status_code = 200, body = Some (handle_outbox cc text_of since limit s), rs_error = ''''\<rparr>
      | _ \<Rightarrow> \<lparr>status_code = 404, body = None, rs_error = ''''\<rparr>)"

subsection \<open>A pull that completes\<close>

text \<open>Payloads whose members are scalars in range never make the accessors throw.\<close>

fun scalar :: "json \<Rightarrow> bool" where
  "scalar (JArr _) = False"
| "scalar (JObj _) = False"
| "scalar (JInt i) = (- (2 ^ 63) \<le> i \<and> i \<le> 2 ^ 63 - 1)"
| "scalar _ = True"

definition flat :: "outbox_record \<Rightarrow> bool" where
  "flat r = (case payload r of Some (JObj m) \<Rightarrow> (\<forall>(k, v) \<in> set m. scalar v) | _ \<Rightarrow> True)"

definition in_int64 :: "int \<Rightarrow> bool" where
  "in_int64 i = (- (2 ^ 63) \<le> i \<and> i \<le> 2 ^ 63 - 1)"

definition sendable :: "(string \<Rightarrow> json option) \<Rightarrow> (json option \<Rightarrow> string) \<Rightarrow> outbox_record \<Rightarrow> bool" where
  "sendable parse text_of r =
     (flat r \<and> in_int64 (outbox_id r) \<and> in_int64 (origin_node r) \<and> in_int64 (unix_ms r) \<and>
      parse (text_of (payload r)) = payload r)"

lemma bind_value_scalar: "scalar v \<Longrightarrow> \<exists>w. bind_value v = Ret w"
  by (cases v) auto

lemma scalar_string: "scalar v \<Longrightarrow> \<exists>w. asString v = Ret w"
  by (cases v) auto

lemma bind_all_scalar:
  assumes "\<forall>(k, v) \<in> set m. scalar v"
  shows "\<exists>vals. bind_all (JObj m) cols = Ret vals"
proof (induction cols)
  case (Cons c cols)
  obtain vals where v: "bind_all (JObj m) cols = Ret vals" using Cons by auto
  have "scalar (case map_of m c of None \<Rightarrow> JNull | Some v \<Rightarrow> v)"
    using assms by (auto split: option.splits dest: map_of_SomeD)
  then show ?case using v bind_value_scalar by fastforce
qed simp

lemma flat_never_throws: "flat r \<Longrightarrow> \<exists>b. fst (ApplyRemoteChange c now r s) = Ret b"
proof -
  assume f: "flat r"
  have up: "\<exists>b. fst (ApplyUpsert c now r s) = Ret b" for s
  proof (cases "payload r")
    case (Some j)
    show ?thesis
    proof (cases j)
      case (JObj m)
      have "\<exists>vals. bind_all j cols = Ret vals" for cols
        using f Some JObj bind_all_scalar[of m] by (auto simp: flat_def)
      then show ?thesis using Some JObj
        by (auto simp: ApplyUpsert_def Let_def split: prod.splits option.splits outcome.splits)
           (metis outcome.distinct(1,3))+
    qed (use Some in \<open>auto simp: ApplyUpsert_def isObject_def\<close>)
  qed (auto simp: ApplyUpsert_def)
  have del: "\<exists>b. fst (ApplyDelete c now r s) = Ret b" for s
    by (auto simp: ApplyDelete_def Let_def split: option.splits)
  have fence: "\<exists>b. fst (FenceTaskRun cc now (payload r) s) = Ret b" for cc s
  proof (cases "payload r")
    case (Some j)
    show ?thesis
    proof (cases j)
      case (JObj m)
      have "scalar (case map_of m ''run_uuid'' of None \<Rightarrow> JNull | Some v \<Rightarrow> v)"
        using f Some JObj by (auto simp: flat_def split: option.splits dest: map_of_SomeD)
      then show ?thesis using Some JObj scalar_string
        by (fastforce simp: FenceTaskRun_def member_string_def)
    qed (use Some in \<open>auto simp: FenceTaskRun_def isObject_def\<close>)
  qed (simp add: FenceTaskRun_def)
  define ctx where "ctx = Some \<lparr>apply_table = table_name r, apply_row_id = rec_key r, apply_origin = origin_node r,
      apply_ms = unix_ms r\<rparr>"
  define s1 where "s1 = (if a_context c then publish ctx s else s)"
  obtain b s2 where a: "(if rec_op r = ''delete'' then ApplyDelete c now r s1 else ApplyUpsert c now r s1) = (Ret b, s2)"
    using up[of s1] del[of s1] by (cases "rec_op r = ''delete''") (auto simp: prod_eq_iff)
  define s3 where "s3 = (if a_reset c then publish None s2 else s2)"
  obtain u s4 where f: "(if table_name r = ''task_runs'' then FenceTaskRun (a_fence c) now (payload r) s3 else (Ret (), s3)) = (Ret u, s4)"
    using fence[of "a_fence c" s3] by (cases "table_name r = ''task_runs''") (auto simp: prod_eq_iff)
  show ?thesis
    unfolding ApplyRemoteChange_def Let_def ctx_def[symmetric] s1_def[symmetric] a prod.case outcome.case
      s3_def[symmetric] f by auto
qed

definition receive :: "apply_conn \<Rightarrow> conn \<Rightarrow> ms \<Rightarrow> outbox_record list \<Rightarrow> pull \<Rightarrow> pull" where
  "receive c cc now rs st = fold (\<lambda>r st. snd (take_record c cc now r st)) rs st"

lemma take_record_ok: "flat r \<Longrightarrow> take_record c cc now r st = (Ret (), snd (take_record c cc now r st))"
  using flat_never_throws[of r c now "pl_store st"]
  by (cases "ApplyRemoteChange c now r (pl_store st)") (auto simp: take_record_def Let_def)

lemma take_record_cursor: "flat r \<Longrightarrow> cursor (pl_peer (snd (take_record c cc now r st))) = outbox_id r"
  using flat_never_throws[of r c now "pl_store st"]
  by (cases "ApplyRemoteChange c now r (pl_store st)") (auto simp: take_record_def Let_def)

lemma receive_cursor: "\<forall>r \<in> set rs. flat r \<Longrightarrow>
  cursor (pl_peer (receive c cc now rs st)) = (if rs = [] then cursor (pl_peer st) else outbox_id (last rs))"
  by (cases rs rule: rev_cases) (auto simp: receive_def take_record_cursor)

lemma receive_calls: "receive c cc now rs (st\<lparr>pl_calls := k\<rparr>) = (receive c cc now rs st)\<lparr>pl_calls := k\<rparr>"
proof -
  have one: "snd (take_record c cc now r (st\<lparr>pl_calls := k\<rparr>)) = (snd (take_record c cc now r st))\<lparr>pl_calls := k\<rparr>" for r st
    by (auto simp: take_record_def Let_def split: prod.split outcome.split)
  show ?thesis unfolding receive_def by (induction rs arbitrary: st) (auto simp: one)
qed

lemma receive_append: "receive c cc now (xs @ ys) st = receive c cc now ys (receive c cc now xs st)"
  by (simp add: receive_def)

lemma read_record_json: "sendable parse text_of r \<Longrightarrow> read_record parse (record_json text_of r) = Ret r"
  by (simp add: read_record_def record_json_def member_int64_def member_string_def sendable_def in_int64_def)

lemma has_all_record: "has_all (record_json text_of r) record_fields = Ret True"
  by (simp add: record_json_def record_fields_def)

lemma take_records_all:
  assumes "\<forall>r \<in> set rs. sendable parse text_of r"
  shows "take_records c cc parse now (map (record_json text_of) rs) st = (Ret (), receive c cc now rs st)"
  using assms
proof (induction rs arbitrary: st)
  case (Cons r rs)
  have "flat r" using Cons.prems by (simp add: sendable_def)
  then obtain st1 where "take_record c cc now r st = (Ret (), st1)" using take_record_ok by metis
  then show ?case using Cons read_record_json[of parse text_of r]
    by (simp add: has_all_record receive_def)
qed (simp add: receive_def)

text \<open>The part of a peer's outbox behind a cursor, and what a request for it answers.\<close>

definition behind :: "int \<Rightarrow> sync \<Rightarrow> outbox_record list" where
  "behind cur q = filter (\<lambda>r. outbox_id r > cur) (outbox q)"

definition in_order :: "sync \<Rightarrow> bool" where
  "in_order q = sorted_wrt (<) (map outbox_id (outbox q))"

lemma fetch_in_order:
  assumes "in_order q" "0 < n"
  shows "FetchOutboxSince healthy cur n q = take (nat n) (behind cur q)"
proof -
  have "sorted (map outbox_id (behind cur q))"
    using assms(1) unfolding in_order_def behind_def
    by (intro sorted_filter strict_sorted_imp_sorted)
  then have "sort_key outbox_id (behind cur q) = behind cur q" by (rule sort_key_id_if_sorted)
  then show ?thesis using assms(2) by (simp add: FetchOutboxSince_def order_by_def behind_def)
qed

lemma foldr_max_less: "(k < foldr (max \<circ> f) xs a) = (k < a \<or> (\<exists>x \<in> set xs. k < f x))" for k :: int
  by (induction xs) (auto simp: less_max_iff_disj)

lemma MaxOutboxId_less: "0 \<le> k \<Longrightarrow> (k < MaxOutboxId healthy q) = (behind k q \<noteq> [])"
  by (cases "outbox q") (auto simp: MaxOutboxId_def behind_def foldr_max_less filter_empty_conv)

lemma behind_drop:
  assumes "in_order q" "take n (behind cur q) \<noteq> []"
  shows "behind (outbox_id (last (take n (behind cur q)))) q = drop n (behind cur q)"
proof -
  define R where "R = behind cur q"
  let ?l = "outbox_id (last (take n R))"
  have s: "sorted_wrt (\<lambda>a b. outbox_id a < outbox_id b) R"
    using assms(1) unfolding R_def in_order_def behind_def by (simp add: sorted_wrt_map sorted_wrt_filter)
  then have s': "sorted_wrt (\<lambda>a b. outbox_id a < outbox_id b) (take n R @ drop n R)" by simp
  have mem: "last (take n R) \<in> set (take n R)" using assms(2) by (simp add: R_def)
  have "\<forall>r \<in> set R. cur < outbox_id r" by (simp add: R_def behind_def)
  then have "cur < ?l" using in_set_takeD[OF mem] by blast
  moreover have "cur < l \<Longrightarrow> behind l q = filter (\<lambda>r. outbox_id r > l) R" for l
    unfolding R_def behind_def filter_filter by (intro filter_cong) auto
  ultimately have "behind ?l q = filter (\<lambda>r. outbox_id r > ?l) R" by blast
  also have "\<dots> = filter (\<lambda>r. outbox_id r > ?l) (take n R) @ filter (\<lambda>r. outbox_id r > ?l) (drop n R)"
    by (metis append_take_drop_id filter_append)
  also have "filter (\<lambda>r. outbox_id r > ?l) (drop n R) = drop n R"
    using s' mem unfolding sorted_wrt_append by (intro filter_True) blast
  also have "filter (\<lambda>r. outbox_id r > ?l) (take n R) = []"
  proof -
    have "outbox_id r \<le> ?l" if r: "r \<in> set (take n R)" for r
    proof -
      have split: "take n R = butlast (take n R) @ [last (take n R)]" using assms(2) by (simp add: R_def)
      have "sorted_wrt (\<lambda>a b. outbox_id a < outbox_id b) (take n R)" using s by (rule sorted_wrt_take)
      then have "sorted_wrt (\<lambda>a b. outbox_id a < outbox_id b) (butlast (take n R) @ [last (take n R)])"
        using split by simp
      moreover have "r \<in> set (butlast (take n R) @ [last (take n R)])" using r split by simp
      ultimately show ?thesis unfolding sorted_wrt_append by auto
    qed
    then show ?thesis by (auto simp: filter_empty_conv not_less)
  qed
  finally show ?thesis by (simp add: R_def)
qed

lemma has_more_iff:
  assumes "in_order q" "0 < n" "0 \<le> cur"
  shows "((if take n (behind cur q) = [] then cur else outbox_id (last (take n (behind cur q)))) < MaxOutboxId healthy q)
       = (drop n (behind cur q) \<noteq> [])"
proof (cases "take n (behind cur q) = []")
  case True
  then show ?thesis using assms(2,3) by (simp add: MaxOutboxId_less)
next
  case False
  have "last (take n (behind cur q)) \<in> set (behind cur q)" using last_in_set[OF False] by (rule in_set_takeD)
  then have "0 \<le> outbox_id (last (take n (behind cur q)))" using assms(3) by (simp add: behind_def)
  then show ?thesis using False behind_drop[OF assms(1) False] by (simp add: MaxOutboxId_less)
qed

lemma pull_batch_served:
  assumes "in_order q" "\<forall>r \<in> set (outbox q). sendable parse text_of r" "1 \<le> pc_batch cfg" "pc_batch cfg \<le> 5000"
    and "0 \<le> cursor (pl_peer st)"
    and rs: "rs = behind (cursor (pl_peer st)) q"
    and st2: "st2 = receive c cc now (take (nat (pc_batch cfg)) rs) (st\<lparr>pl_calls := pl_calls st + 1\<rparr>)"
  shows "pull_batches cfg c cc parse now (\<lambda>k. served_by healthy to_int text_of q) (Suc n) st
    = (if drop (nat (pc_batch cfg)) rs = [] then (Ret (pl_applied st2), st2)
       else pull_batches cfg c cc parse now (\<lambda>k. served_by healthy to_int text_of q) n st2)"
proof -
  define chunk where "chunk = take (nat (pc_batch cfg)) rs"
  define more where "more = (drop (nat (pc_batch cfg)) rs \<noteq> [])"
  have clamp: "clamp_limit (pc_batch cfg) = pc_batch cfg" using assms(3,4) by (simp add: clamp_limit_def)
  have fetch: "FetchOutboxSince healthy (cursor (pl_peer st)) (pc_batch cfg) q = chunk"
    using fetch_in_order[OF assms(1), of "pc_batch cfg"] assms(3) rs by (simp add: chunk_def)
  have send: "\<forall>r \<in> set chunk. sendable parse text_of r"
    using assms(2) rs by (auto dest!: in_set_takeD simp: behind_def chunk_def)
  have hm: "((if chunk = [] then cursor (pl_peer st) else outbox_id (last chunk)) < MaxOutboxId healthy q) = more"
    unfolding rs chunk_def more_def using has_more_iff[OF assms(1) _ assms(5), of "nat (pc_batch cfg)"] assms(3) by simp
  have none: "chunk = [] \<Longrightarrow> \<not> more" using assms(3) by (simp add: chunk_def more_def)
  have ans: "ParseJson (Some (handle_outbox healthy text_of (cursor (pl_peer st)) (pc_batch cfg) q)) =
      Some (JObj [(''node_id'', JInt (node_id q)), (''records'', JArr (map (record_json text_of) chunk)),
        (''max_id'', JInt (MaxOutboxId healthy q)), (''has_more'', JBool more)])"
    unfolding handle_outbox_def clamp fetch Let_def hm by (simp add: ParseJson_def isObject_def)
  have tr: "take_records c cc parse now (map (record_json text_of) chunk) (st\<lparr>pl_calls := Suc (pl_calls st)\<rparr>) = (Ret (), st2)"
    using take_records_all[OF send] st2 by (simp add: chunk_def)
  show ?thesis
    using none unfolding more_def[symmetric]
    by (auto simp: get_request_def served_by_def ans member_or_null_def isArray_def array_items_def tr Let_def)
      (simp_all add: more_def)
qed

lemma pull_all_served:
  assumes "in_order q" "\<forall>r \<in> set (outbox q). sendable parse text_of r" "1 \<le> pc_batch cfg" "pc_batch cfg \<le> 5000"
    and "0 \<le> cursor (pl_peer st)" "length (behind (cursor (pl_peer st)) q) \<le> n * nat (pc_batch cfg)" "0 < n"
  shows "\<exists>k. pull_batches cfg c cc parse now (\<lambda>k. served_by healthy to_int text_of q) n st
    = (Ret (pl_applied (receive c cc now (behind (cursor (pl_peer st)) q) st)),
       (receive c cc now (behind (cursor (pl_peer st)) q) st)\<lparr>pl_calls := k\<rparr>)"
  using assms(5-)
proof (induction n arbitrary: st)
  case 0
  then show ?case by simp
next
  case (Suc n)
  define rs where "rs = behind (cursor (pl_peer st)) q"
  define st2 where "st2 = receive c cc now (take (nat (pc_batch cfg)) rs) (st\<lparr>pl_calls := pl_calls st + 1\<rparr>)"
  note step = pull_batch_served[OF assms(1-4) Suc.prems(1) rs_def st2_def, of to_int n]
  have st2: "st2 = (receive c cc now (take (nat (pc_batch cfg)) rs) st)\<lparr>pl_calls := pl_calls st + 1\<rparr>"
    by (simp add: st2_def receive_calls)
  show ?case
  proof (cases "drop (nat (pc_batch cfg)) rs = []")
    case True
    then have "take (nat (pc_batch cfg)) rs = rs" by simp
    then show ?thesis using step True st2 unfolding rs_def[symmetric] by auto
  next
    case False
    then have ne: "take (nat (pc_batch cfg)) rs \<noteq> []" using assms(3) by auto
    have flat: "\<forall>r \<in> set (take (nat (pc_batch cfg)) rs). flat r"
      using assms(2) by (auto simp: rs_def behind_def sendable_def dest!: in_set_takeD)
    have cur: "cursor (pl_peer st2) = outbox_id (last (take (nat (pc_batch cfg)) rs))"
      using receive_cursor[OF flat] ne by (simp add: st2)
    then have rest: "behind (cursor (pl_peer st2)) q = drop (nat (pc_batch cfg)) rs"
      using behind_drop[OF assms(1)] ne by (simp add: rs_def)
    have "last (take (nat (pc_batch cfg)) rs) \<in> set rs" using last_in_set[OF ne] by (rule in_set_takeD)
    then have pos: "0 \<le> cursor (pl_peer st2)" using cur Suc.prems(1) by (simp add: rs_def behind_def)
    have len: "length (drop (nat (pc_batch cfg)) rs) \<le> n * nat (pc_batch cfg)"
      using Suc.prems(2) by (simp add: rs_def)
    moreover have "0 < n" using False len by (cases n) auto
    ultimately obtain k where "pull_batches cfg c cc parse now (\<lambda>k. served_by healthy to_int text_of q) n st2
        = (Ret (pl_applied (receive c cc now (drop (nat (pc_batch cfg)) rs) st2)),
           (receive c cc now (drop (nat (pc_batch cfg)) rs) st2)\<lparr>pl_calls := k\<rparr>)"
      using Suc.IH[OF pos] rest by auto
    moreover have "receive c cc now (drop (nat (pc_batch cfg)) rs) st2 = (receive c cc now rs st)\<lparr>pl_calls := pl_calls st + 1\<rparr>"
      unfolding st2 receive_calls by (simp add: receive_append[symmetric])
    ultimately show ?thesis using step False unfolding rs_def[symmetric] by auto
  qed
qed

text \<open>C19: A pull from a peer that answers as the two handlers do, and has at most fifty full batches
  behind the cursor, applies every one of those records exactly once and in the order of the peer's
  outbox, and leaves the cursor at the last of them.\<close>

theorem pull_catches_up:
  assumes "in_order q" "\<forall>r \<in> set (outbox q). sendable parse text_of r" "1 \<le> pc_batch cfg" "pc_batch cfg \<le> 5000"
    and "0 \<le> cursor p" "rs = behind (cursor p) q" "length rs \<le> 50 * nat (pc_batch cfg)"
    and "start = \<lparr>pl_peer = p, pl_store = s, pl_applied = 0, pl_error = '''', pl_calls = calls\<rparr>"
    and "PullFromPeer cfg c cc parse now (\<lambda>k. served_by healthy to_int text_of q) calls p s = (res, st)"
  shows "res = Ret (pl_applied st) \<and> pl_store st = pl_store (receive c cc now rs start) \<and> behind (cursor (pl_peer st)) q = []"
proof -
  obtain k where st: "res = Ret (pl_applied st)" "st = (receive c cc now rs start)\<lparr>pl_calls := k\<rparr>"
    using pull_all_served[OF assms(1-4), of start 50 c cc now to_int] assms(5-9) by (auto simp: PullFromPeer_def)
  have flat: "\<forall>r \<in> set rs. flat r" using assms(2,6) by (auto simp: behind_def sendable_def)
  have "behind (cursor (pl_peer st)) q = []"
  proof (cases "rs = []")
    case True
    then show ?thesis using st(2) assms(6,8) by (simp add: receive_def)
  next
    case False
    then have "cursor (pl_peer st) = outbox_id (last rs)" using receive_cursor[OF flat] st(2) by simp
    then show ?thesis using behind_drop[OF assms(1), of "length rs" "cursor p"] False assms(6) by simp
  qed
  then show ?thesis using st by simp
qed

definition demo_payload :: "json option" where
  "demo_payload = Some (JObj [(''id'', JInt 5), (''v'', JInt 3)])"

definition demo_pull :: "int outcome \<times> pull" where
  "demo_pull = PullFromPeer (default_cfg '''') ok_conn healthy (\<lambda>x. demo_payload) 20
     (\<lambda>k. served_by healthy (\<lambda>x. 0) (\<lambda>x. '''') demo_written) 1 (new_peer ''http://b'') (demo_node 2)"

theorem pull_catches_up_witness:
  "fst demo_pull = Ret (pl_applied (snd demo_pull)) \<and>
   pl_store (snd demo_pull) = pl_store (receive ok_conn healthy 20 [demo_record 10 1 3]
      \<lparr>pl_peer = new_peer ''http://b'', pl_store = demo_node 2, pl_applied = 0, pl_error = '''', pl_calls = 1\<rparr>) \<and>
   behind (cursor (pl_peer (snd demo_pull))) demo_written = []"
proof (rule pull_catches_up[where parse = "\<lambda>x. demo_payload" and text_of = "\<lambda>x. ''''" and cfg = "default_cfg ''''"
      and p = "new_peer ''http://b''"])
  show "in_order demo_written" by code_simp
  show "\<forall>r \<in> set (outbox demo_written). sendable (\<lambda>x. demo_payload) (\<lambda>x. '''') r" by code_simp
  show "[demo_record 10 1 3] = behind (cursor (new_peer ''http://b'')) demo_written" by code_simp
  show "PullFromPeer (default_cfg '''') ok_conn healthy (\<lambda>x. demo_payload) 20
     (\<lambda>k. served_by healthy (\<lambda>x. 0) (\<lambda>x. '''') demo_written) 1 (new_peer ''http://b'') (demo_node 2) = (fst demo_pull, snd demo_pull)"
    by (simp add: demo_pull_def)
qed (simp_all add: default_cfg_def new_peer_def)

subsection \<open>Records that are lost, and rows that come back\<close>

text \<open>A malformed record is passed over: the next well-formed record moves the cursor beyond it.\<close>

lemma malformed_record_passed:
  assumes "has_all bad record_fields = Ret False" "sendable parse text_of r"
  shows "cursor (pl_peer (snd (take_records c cc parse now [bad, record_json text_of r] st))) = outbox_id r"
proof -
  have "flat r" using assms(2) by (simp add: sendable_def)
  then show ?thesis
    using assms take_records_all[of "[r]" parse text_of c cc now] receive_cursor[of "[r]"] by simp
qed

lemma ClearTableVersions_has_schema: "has_schema sch s \<Longrightarrow> has_schema sch (ClearTableVersions cc t s)"
  by (simp add: has_schema_def ready_def ClearTableVersions_def)

lemma fold_clear_has_schema: "has_schema sch s \<Longrightarrow> has_schema sch (fold (ClearTableVersions cc) ts s)"
  by (induction ts arbitrary: s) (auto simp: ClearTableVersions_has_schema)

lemma clear_keeps_cleared: "row_version s k = None \<Longrightarrow> row_version (ClearTableVersions cc t s) k = None"
  by (cases k) (auto simp: row_version_def ClearTableVersions_def map_of_eq_None_iff)

lemma clear_clears: "row_version (ClearTableVersions healthy t s) (t, k) = None"
  by (auto simp: row_version_def ClearTableVersions_def map_of_eq_None_iff)

lemma fold_clear_version: "t \<in> set ts \<Longrightarrow> row_version (fold (ClearTableVersions healthy) ts s) (t, k) = None"
proof (induction ts arbitrary: s)
  case (Cons u ts)
  have keep: "row_version s (t, k) = None \<Longrightarrow> row_version (fold (ClearTableVersions healthy) ts s) (t, k) = None" for s
    by (induction ts arbitrary: s) (auto simp: clear_keeps_cleared)
  show ?case using Cons keep clear_clears by (cases "u = t") auto
qed simp

text \<open>When a pass finds this node short of rows in a table (a row deleted here that the peer still
  has is enough), the cursor returns to 0 and every upsert of that table in the peer's outbox applies
  again, however old: a row deleted since comes back.\<close>

lemma heal_revives_rows:
  assumes "pass_ok healthy to_int now n p s = (p', s')" "heal_due p"
    and "table_name r \<in> set (short_tables (TableDigests healthy to_int s) p)"
    and "has_schema sch s" "fits sch r"
  shows "cursor p' = 0 \<and> (\<exists>s''. ApplyRemoteChange ok_conn now' r s' = (Ret True, s'') \<and>
                              row_at s'' (record_key r) = Some (record_row sch r))"
proof -
  let ?short = "short_tables (TableDigests healthy to_int s) p"
  have short: "short_tables d (p\<lparr>state := x, consecutiveFailures := y, lastContactOkMs := z, lastError := u, appliedTotal := v\<rparr>)
      = short_tables d p" for d x y z u v by (simp add: short_tables_def)
  have due: "heal_due (p\<lparr>state := x, consecutiveFailures := y, lastContactOkMs := z, lastError := u, appliedTotal := v\<rparr>)"
    for x y z u v using assms(2) by (simp add: heal_due_def)
  have "?short \<noteq> []" using assms(3) by auto
  then have p': "cursor p' = 0" "s' = snd (SetPeerCursor healthy (nodeId p) 0 (fold (ClearTableVersions healthy) ?short s))"
    using assms(1) due by (auto simp: pass_ok_def heal_def short Let_def)
  then have schema: "has_schema sch s'"
    using fold_clear_has_schema[OF assms(4), of healthy ?short]
    by (simp add: SetPeerCursor_def has_schema_def ready_def)
  have none: "row_version s' (record_key r) = None"
    using p'(2) fold_clear_version[OF assms(3), of s "rec_key r"]
    by (simp add: SetPeerCursor_def record_key_def row_version_def)
  obtain tab where tab: "map_of (tables s') (table_name r) = Some tab" "table_ok (table_name r) tab"
      "carries tab r (record_row sch r)" "\<forall>others. t_accepts tab others (record_row sch r)"
    using fitsE[OF assms(5) schema] by metis
  have "ApplyRemoteChange ok_conn now' r s' = (Ret True, applied r tab (record_row sch r) s')"
    using apply_record_newer[OF schema assms(5) _ tab] none by simp
  then show ?thesis using p'(1) row_at_applied[OF tab(1)] by simp
qed

definition deleted_node :: sync where
  "deleted_node = (demo_node 1)\<lparr>versions := [((''observations'', ''5''), (40, 1))]\<rparr>"

definition ahead_peer :: peer where
  "ahead_peer = (new_peer ''http://b'')\<lparr>nodeId := 2, cursor := 1, peerMaxOutboxId := 1, peerDigests := [(''observations'', 1)]\<rparr>"

lemma heal_revives_rows_example:
  "cursor (fst (pass_ok healthy (\<lambda>x. 0) 50 0 ahead_peer deleted_node)) = 0 \<and>
   (\<exists>s''. ApplyRemoteChange ok_conn 60 (demo_record 10 2 3) (snd (pass_ok healthy (\<lambda>x. 0) 50 0 ahead_peer deleted_node)) = (Ret True, s'') \<and>
          row_at s'' (record_key (demo_record 10 2 3)) = Some (record_row demo_schema (demo_record 10 2 3)))"
proof (rule heal_revives_rows)
  show "pass_ok healthy (\<lambda>x. 0) 50 0 ahead_peer deleted_node
      = (fst (pass_ok healthy (\<lambda>x. 0) 50 0 ahead_peer deleted_node), snd (pass_ok healthy (\<lambda>x. 0) 50 0 ahead_peer deleted_node))"
    by simp
  show "heal_due ahead_peer" by code_simp
  show "table_name (demo_record 10 2 3) \<in> set (short_tables (TableDigests healthy (\<lambda>x. 0) deleted_node) ahead_peer)" by code_simp
  show "has_schema demo_schema deleted_node" using demo_schema[of 1] by (simp add: deleted_node_def has_schema_def ready_def)
qed (simp add: demo_fits)

end
