(* ===== verification/Bytes.thy ===== *)
theory Bytes
  imports Text
begin

unbundle bit_operations_syntax

text \<open>
  Bytes and text, and the facts on single bits that the encoders and decoders of the wire formats
  share: the bytes of a \<open>std::string\<close>, masks, and the big-endian 32-bit integer.
\<close>

definition to_byte :: "char \<Rightarrow> u8" where
  "to_byte c = word_of_nat (of_char c)"

definition to_char :: "u8 \<Rightarrow> char" where
  "to_char b = char_of (unat b)"

lemma unat_to_byte [simp]: "unat (to_byte c) = of_char c"
proof -
  have "(of_char c :: nat) < 2 ^ 8" using of_char_eq_iff by simp
  then show ?thesis by (simp add: to_byte_def unat_of_nat take_bit_nat_eq_self)
qed

lemma to_char_to_byte [simp]: "to_char (to_byte c) = c"
  by (simp add: to_char_def)

lemma to_byte_to_char [simp]: "to_byte (to_char b) = b"
proof -
  have "of_char (char_of (unat b)) = unat b"
    using unsigned_less[of b, where 'a = nat] by simp
  then show ?thesis by (simp add: to_char_def to_byte_def)
qed

lemma map_to_char [simp]: "map to_char (map to_byte s) = s"
  by (simp add: comp_def)

lemma map_to_byte [simp]: "map to_byte (map to_char b) = b"
  by (simp add: comp_def)

lemma masks: "(0xff :: 'a::len word) = mask 8" "(0x0f :: 'a word) = mask 4" "(0x7f :: 'a word) = mask 7"
  by (simp_all add: mask_eq_exp_minus_1)

lemma u32_bytes:
  fixes v :: u32
  shows "push_bit 24 (ucast (ucast (drop_bit 24 v) :: u8))
      OR push_bit 16 (ucast (ucast (drop_bit 16 v AND 0xff) :: u8))
      OR push_bit 8 (ucast (ucast (drop_bit 8 v AND 0xff) :: u8)) OR ucast (ucast (v AND 0xff) :: u8) = v"
  unfolding masks
proof (rule bit_word_eqI)
  fix n :: nat
  assume "n < LENGTH(32)"
  then consider "n < 8" | "8 \<le> n \<and> n < 16" | "16 \<le> n \<and> n < 24" | "24 \<le> n \<and> n < 32"
    by fastforce
  then show "bit (push_bit 24 (ucast (ucast (drop_bit 24 v) :: u8))
    OR push_bit 16 (ucast (ucast (drop_bit 16 v AND mask 8) :: u8))
    OR push_bit 8 (ucast (ucast (drop_bit 8 v AND mask 8) :: u8)) OR ucast (ucast (v AND mask 8) :: u8) :: u32) n
    = bit v n"
    by cases (auto simp: bit_simps)
qed

lemma top_byte_mask: "ucast (drop_bit 24 v AND 0xff :: u32) = (ucast (drop_bit 24 v) :: u8)"
  unfolding masks by (rule bit_word_eqI) (auto simp: bit_simps)

text \<open>A value below a power of two has no higher bit.\<close>

lemma bit_below: "(w :: 'a::len word) < 2 ^ k \<Longrightarrow> bit w n \<Longrightarrow> n < k"
  using arg_cong[OF less_mask_eq[of w k], of "\<lambda>w. bit w n"] by (auto simp: bit_simps)

text \<open>What a chain of reads that succeeds is made of.\<close>

lemma bind_Ret_iff: "bind_outcome m f = Ret y \<longleftrightarrow> (\<exists>x. m = Ret x \<and> f x = Ret y)"
  by (cases m) auto

lemma bind_pairE:
  assumes "bind_outcome r (\<lambda>(x, bs). f x bs) = Ret y"
  obtains x bs where "r = Ret (x, bs)" "f x bs = Ret y"
  using assms by (cases r) auto

end
