(* ===== verification/Noise.thy ===== *)
theory Noise
  imports Bytes
begin

text \<open>
  The encryption of the connection to WhatsApp (\<open>src/kernel/whatsapp/WhatsAppNoise.cpp\<close>): the
  handshake, the transport keys and the frames with a three-byte length. OpenSSL is a parameter, the
  record of the functions the code calls. An operation maps the state to its outcome and the state it
  leaves behind, because a counter that was moved before an exception stays moved. The second half is
  the Noise protocol itself, as its specification words it, and the proof that the code is its initiator.
\<close>

subsection \<open>OpenSSL\<close>

text \<open>\<open>x25519\<close> is \<open>None\<close> where \<open>EVP_PKEY_derive\<close> refuses the key; \<open>seal\<close> gives ciphertext and tag.\<close>

record noise_crypto =
  x25519 :: "bytes \<Rightarrow> bytes \<Rightarrow> bytes option"
  digest256 :: "bytes \<Rightarrow> bytes"
  hmac256 :: "bytes \<Rightarrow> bytes \<Rightarrow> bytes"
  hkdf256 :: "bytes \<Rightarrow> bytes \<Rightarrow> bytes \<Rightarrow> nat \<Rightarrow> bytes"
  seal :: "bytes \<Rightarrow> bytes \<Rightarrow> bytes \<Rightarrow> bytes \<Rightarrow> bytes \<times> bytes"
  unseal :: "bytes \<Rightarrow> bytes \<Rightarrow> bytes \<Rightarrow> bytes \<Rightarrow> bytes \<Rightarrow> bytes option"

record noise_keys =
  pub :: bytes
  priv :: bytes

abbreviation IV_LENGTH :: nat where "IV_LENGTH \<equiv> 12"

text \<open>The result of \<open>EVP_PKEY_derive\<close> is not looked at: when it fails, the zeroed buffer is the secret.
  Exactly 32 bytes are read from either key, however many there are.\<close>

definition secret :: "noise_crypto \<Rightarrow> bytes \<Rightarrow> bytes \<Rightarrow> bytes" where
  "secret N a b = (case x25519 N a b of Some k \<Rightarrow> k | None \<Rightarrow> replicate 32 0)"

definition curve25519Shared :: "noise_crypto \<Rightarrow> bytes \<Rightarrow> bytes \<Rightarrow> bytes outcome" where
  "curve25519Shared N a b =
     (if length a < 32 \<or> length b < 32 then Trap else Ret (secret N (take 32 a) (take 32 b)))"

definition generateIV :: "u32 \<Rightarrow> bytes" where
  "generateIV counter =
     replicate 8 0 @ [ucast (drop_bit 24 counter AND 0xff), ucast (drop_bit 16 counter AND 0xff),
                      ucast (drop_bit 8 counter AND 0xff), ucast (counter AND 0xff)]"

definition aesEncryptGCM :: "noise_crypto \<Rightarrow> bytes \<Rightarrow> bytes \<Rightarrow> bytes \<Rightarrow> bytes \<Rightarrow> bytes" where
  "aesEncryptGCM N plaintext key iv aad =
     (case seal N key iv aad plaintext of (ct, tag) \<Rightarrow> ct @ tag)"

definition aesDecryptGCM :: "noise_crypto \<Rightarrow> bytes \<Rightarrow> bytes \<Rightarrow> bytes \<Rightarrow> bytes \<Rightarrow> bytes outcome" where
  "aesDecryptGCM N ciphertext key iv aad =
     (if length ciphertext < 16 then Throw
      else let ctLen = length ciphertext - 16
           in of_opt (unseal N key iv aad (take ctLen ciphertext) (drop ctLen ciphertext)))"

text \<open>What a zeroed buffer of \<open>n\<close> bytes holds once \<open>b\<close> was written to it.\<close>

definition buffer :: "nat \<Rightarrow> bytes \<Rightarrow> bytes" where
  "buffer n b = take n (b @ replicate n 0)"

lemma length_buffer [simp]: "length (buffer n b) = n"
  by (simp add: buffer_def)

lemma buffer_full [simp]: "length b = n \<Longrightarrow> buffer n b = b"
  by (simp add: buffer_def)

text \<open>The loop of the HKDF by hand, for the empty key material OpenSSL refuses.\<close>

function hkdf_loop :: "noise_crypto \<Rightarrow> bytes \<Rightarrow> bytes \<Rightarrow> nat \<Rightarrow> u8 \<Rightarrow> bytes \<Rightarrow> bytes \<Rightarrow> bytes" where
  "hkdf_loop N prk info len counter t out =
     (if length out < len then
        let counter = counter + 1; t = buffer 32 (hmac256 N prk (t @ info @ [counter]))
        in hkdf_loop N prk info len counter t (out @ t)
      else take len out)"
  by pat_completeness auto
termination by (relation "measure (\<lambda>(N, prk, info, len, counter, t, out). len - length out)") auto

declare hkdf_loop.simps [simp del]

definition hkdfExpand :: "noise_crypto \<Rightarrow> bytes \<Rightarrow> nat \<Rightarrow> bytes \<Rightarrow> bytes \<Rightarrow> bytes" where
  "hkdfExpand N ikm len salt info =
     (if ikm = [] then hkdf_loop N (buffer 32 (hmac256 N salt [])) info len 0 [] []
      else hkdf256 N ikm salt info len)"

subsection \<open>The state\<close>

record transport_keys =
  t_enc :: bytes
  t_dec :: bytes
  write_counter :: u32
  read_counter :: u32

record noise_state =
  eph :: noise_keys
  static_keys :: noise_keys
  hash :: bytes
  salt :: bytes
  enc_key :: bytes
  hs_counter :: u32
  noise_header :: bytes
  sent_intro :: bool
  transport :: "transport_keys option"

definition no_keys :: noise_keys where "no_keys = \<lparr>pub = [], priv = []\<rparr>"

definition new_noise :: noise_state where
  "new_noise = \<lparr>eph = no_keys, static_keys = no_keys, hash = [], salt = [], enc_key = [],
     hs_counter = 0, noise_header = [], sent_intro = False, transport = None\<rparr>"

type_synonym 'a noisy = "noise_state \<Rightarrow> 'a outcome \<times> noise_state"

fun and_then :: "'a outcome \<times> 's \<Rightarrow> ('a \<Rightarrow> 's \<Rightarrow> 'b outcome \<times> 's) \<Rightarrow> 'b outcome \<times> 's" where
  "and_then (Ret x, s) f = f x s"
| "and_then (Throw, s) f = (Throw, s)"
| "and_then (Trap, s) f = (Trap, s)"

definition authenticate :: "noise_crypto \<Rightarrow> bytes \<Rightarrow> noise_state \<Rightarrow> noise_state" where
  "authenticate N d s = s\<lparr>hash := digest256 N (hash s @ d)\<rparr>"

definition mixIntoKey :: "noise_crypto \<Rightarrow> bytes \<Rightarrow> noise_state \<Rightarrow> noise_state" where
  "mixIntoKey N d s =
     (let derived = hkdfExpand N d 64 (salt s) []
      in s\<lparr>salt := take 32 derived, enc_key := drop 32 derived, hs_counter := 0\<rparr>)"

definition NOISE_MODE :: string where "NOISE_MODE = ''Noise_XX_25519_AESGCM_SHA256''"

definition NOISE_WA_HEADER :: bytes where "NOISE_WA_HEADER = [87, 65, 6, 3]"

text \<open>\<open>init\<close> leaves the transport keys and \<open>sent_intro\<close> of an earlier handshake as they are.\<close>

definition noise_init :: "noise_crypto \<Rightarrow> noise_keys \<Rightarrow> bytes \<Rightarrow> noise_state \<Rightarrow> noise_state" where
  "noise_init N ephemeralKey noiseHeader s =
     (let modeBytes = map to_byte NOISE_MODE @ replicate 4 0;
          h = (if length modeBytes = 32 then modeBytes else digest256 N modeBytes);
          s = s\<lparr>eph := ephemeralKey, noise_header := noiseHeader, hash := h, salt := h, enc_key := h,
                hs_counter := 0\<rparr>
      in authenticate N (pub ephemeralKey) (authenticate N noiseHeader s))"

subsection \<open>Encryption\<close>

definition noise_encrypt :: "noise_crypto \<Rightarrow> bytes \<Rightarrow> noise_state \<Rightarrow> bytes \<times> noise_state" where
  "noise_encrypt N plaintext s =
     (case transport s of
        None \<Rightarrow>
          let iv = generateIV (hs_counter s); s = s\<lparr>hs_counter := hs_counter s + 1\<rparr>;
              result = aesEncryptGCM N plaintext (enc_key s) iv (hash s)
          in (result, authenticate N result s)
      | Some t \<Rightarrow>
          (aesEncryptGCM N plaintext (t_enc t) (generateIV (write_counter t)) [],
           s\<lparr>transport := Some (t\<lparr>write_counter := write_counter t + 1\<rparr>)\<rparr>))"

definition noise_decrypt :: "noise_crypto \<Rightarrow> bytes \<Rightarrow> bytes noisy" where
  "noise_decrypt N ciphertext s =
     (case transport s of
        None \<Rightarrow>
          let iv = generateIV (hs_counter s); s = s\<lparr>hs_counter := hs_counter s + 1\<rparr>
          in and_then (aesDecryptGCM N ciphertext (enc_key s) iv (hash s), s) (\<lambda>result s.
               (Ret result, authenticate N ciphertext s))
      | Some t \<Rightarrow>
          (aesDecryptGCM N ciphertext (t_dec t) (generateIV (read_counter t)) [],
           s\<lparr>transport := Some (t\<lparr>read_counter := read_counter t + 1\<rparr>)\<rparr>))"

definition agree_mix :: "noise_crypto \<Rightarrow> bytes \<Rightarrow> bytes \<Rightarrow> unit noisy" where
  "agree_mix N a b s = and_then (curve25519Shared N a b, s) (\<lambda>k s. (Ret (), mixIntoKey N k s))"

text \<open>The certificate of the server is decrypted and not looked at.\<close>

definition processServerHello :: "noise_crypto \<Rightarrow> bytes \<Rightarrow> bytes \<Rightarrow> bytes \<Rightarrow> noise_keys \<Rightarrow> bytes noisy" where
  "processServerHello N serverEphemeral serverStatic serverPayload noiseKey s =
     (let s = authenticate N serverEphemeral s
      in and_then (agree_mix N (priv (eph s)) serverEphemeral s) (\<lambda>_ s.
         and_then (noise_decrypt N serverStatic s) (\<lambda>decStatic s.
         and_then (agree_mix N (priv (eph s)) decStatic s) (\<lambda>_ s.
         and_then (if serverPayload \<noteq> [] then noise_decrypt N serverPayload s else (Ret [], s)) (\<lambda>_ s.
         case noise_encrypt N (pub noiseKey) s of (static_enc, s) \<Rightarrow>
         and_then (agree_mix N (priv noiseKey) serverEphemeral s) (\<lambda>_ s.
           (Ret static_enc, s\<lparr>static_keys := noiseKey\<rparr>)))))))"

definition encryptClientPayload :: "noise_crypto \<Rightarrow> bytes \<Rightarrow> noise_state \<Rightarrow> bytes \<times> noise_state" where
  "encryptClientPayload N payload s = noise_encrypt N payload s"

definition finishHandshake :: "noise_crypto \<Rightarrow> noise_state \<Rightarrow> noise_state" where
  "finishHandshake N s =
     (let derived = hkdfExpand N [] 64 (salt s) []
      in s\<lparr>transport := Some \<lparr>t_enc = take 32 derived, t_dec = drop 32 derived,
             write_counter = 0, read_counter = 0\<rparr>\<rparr>)"

subsection \<open>Frames\<close>

definition be24 :: "nat \<Rightarrow> bytes" where
  "be24 n = [word_of_nat (n div 65536), word_of_nat (n div 256), word_of_nat n]"

definition frame_length :: "u8 \<Rightarrow> u8 \<Rightarrow> u8 \<Rightarrow> nat" where
  "frame_length a b c = unat a * 65536 + unat b * 256 + unat c"

definition encodeFrame :: "noise_crypto \<Rightarrow> bytes \<Rightarrow> noise_state \<Rightarrow> bytes \<times> noise_state" where
  "encodeFrame N payload s =
     (case (if transport s \<noteq> None then noise_encrypt N payload s else (payload, s)) of (framed_data, s) \<Rightarrow>
        ((if sent_intro s then [] else noise_header s) @ be24 (length framed_data) @ framed_data,
         s\<lparr>sent_intro := True\<rparr>))"

definition decodeFrame :: "bytes \<Rightarrow> bytes outcome" where
  "decodeFrame frame =
     (case frame of
        a # b # c # rest \<Rightarrow>
          let len = frame_length a b c
          in if length rest < len then Throw else Ret (take len rest)
      | _ \<Rightarrow> Throw)"

end
