(* ===== verification/NoiseXX.thy ===== *)
theory NoiseXX
  imports Noise
begin

text \<open>
  The Noise protocol, pattern XX, as its specification words it (symmetric state, tokens), and what
  \<open>Noise\<close> owes it: the code is the initiator of the pattern, it agrees with any responder that
  follows the pattern, and the two then read each other's frames in both directions.
\<close>

subsection \<open>The specification\<close>

text \<open>What OpenSSL documents of the functions the code calls: HKDF with an empty info is the one of
  RFC 5869, written as in section 4.3 of the Noise specification, AES-GCM keeps the length and has a
  tag of 16 bytes, the two ends of X25519 agree.\<close>

definition noise_hkdf :: "noise_crypto \<Rightarrow> bytes \<Rightarrow> bytes \<Rightarrow> bytes" where
  "noise_hkdf N ck ikm =
     (let temp = hmac256 N ck ikm; out1 = hmac256 N temp [1]
      in out1 @ hmac256 N temp (out1 @ [2]))"

definition noise_ok :: "noise_crypto \<Rightarrow> bool" where
  "noise_ok N = ((\<forall>k d. length (hmac256 N k d) = 32)
     \<and> (\<forall>ikm ck. ikm \<noteq> [] \<longrightarrow> hkdf256 N ikm ck [] 64 = noise_hkdf N ck ikm)
     \<and> (\<forall>a b k. x25519 N a b = Some k \<longrightarrow> length k = 32)
     \<and> (\<forall>k iv aad p. length (fst (seal N k iv aad p)) = length p \<and> length (snd (seal N k iv aad p)) = 16)
     \<and> (\<forall>k iv aad p. unseal N k iv aad (fst (seal N k iv aad p)) (snd (seal N k iv aad p)) = Some p)
     \<and> (\<forall>k iv aad c tag p. unseal N k iv aad c tag = Some p \<longrightarrow> length p = length c))"

definition keys_sized :: "noise_keys \<Rightarrow> bool" where
  "keys_sized k = (length (pub k) = 32 \<and> length (priv k) = 32)"

definition pair_agrees :: "noise_crypto \<Rightarrow> noise_keys \<Rightarrow> noise_keys \<Rightarrow> bool" where
  "pair_agrees N a b = (x25519 N (priv a) (pub b) = x25519 N (priv b) (pub a))"

datatype token = E | S | EE | ES | SE

record party =
  initiator :: bool
  p_h :: bytes
  p_ck :: bytes
  p_k :: "bytes option"
  p_n :: nat
  p_s :: noise_keys
  p_e :: noise_keys
  p_rs :: bytes
  p_re :: bytes

text \<open>The nonce of AESGCM: 32 bits of zeros and the counter as 64 bits, most significant byte first.\<close>

definition nonce_of :: "nat \<Rightarrow> bytes" where
  "nonce_of n = replicate 4 0 @ map (\<lambda>i. word_of_nat (n div 256 ^ i)) (rev [0..<8])"

definition mix_hash :: "noise_crypto \<Rightarrow> bytes \<Rightarrow> party \<Rightarrow> party" where
  "mix_hash N d p = p\<lparr>p_h := digest256 N (p_h p @ d)\<rparr>"

definition mix_key :: "noise_crypto \<Rightarrow> bytes \<Rightarrow> party \<Rightarrow> party" where
  "mix_key N ikm p =
     (let d = noise_hkdf N (p_ck p) ikm in p\<lparr>p_ck := take 32 d, p_k := Some (drop 32 d), p_n := 0\<rparr>)"

definition encrypt_and_hash :: "noise_crypto \<Rightarrow> bytes \<Rightarrow> party \<Rightarrow> bytes \<times> party" where
  "encrypt_and_hash N d p =
     (case p_k p of
        None \<Rightarrow> (d, mix_hash N d p)
      | Some k \<Rightarrow> let c = aesEncryptGCM N d k (nonce_of (p_n p)) (p_h p)
                  in (c, mix_hash N c (p\<lparr>p_n := p_n p + 1\<rparr>)))"

definition decrypt_and_hash :: "noise_crypto \<Rightarrow> bytes \<Rightarrow> party \<Rightarrow> (bytes \<times> party) option" where
  "decrypt_and_hash N c p =
     (case p_k p of
        None \<Rightarrow> Some (c, mix_hash N c p)
      | Some k \<Rightarrow>
          (case aesDecryptGCM N c k (nonce_of (p_n p)) (p_h p) of
             Ret d \<Rightarrow> Some (d, mix_hash N c (p\<lparr>p_n := p_n p + 1\<rparr>))
           | _ \<Rightarrow> None))"

definition dh_of :: "noise_crypto \<Rightarrow> token \<Rightarrow> party \<Rightarrow> bytes" where
  "dh_of N tok p =
     (case tok of
        ES \<Rightarrow> if initiator p then secret N (priv (p_e p)) (p_rs p) else secret N (priv (p_s p)) (p_re p)
      | SE \<Rightarrow> if initiator p then secret N (priv (p_s p)) (p_re p) else secret N (priv (p_e p)) (p_rs p)
      | _ \<Rightarrow> secret N (priv (p_e p)) (p_re p))"

fun write_tokens :: "noise_crypto \<Rightarrow> token list \<Rightarrow> party \<Rightarrow> bytes list \<times> party" where
  "write_tokens N [] p = ([], p)"
| "write_tokens N (E # ts) p =
     (case write_tokens N ts (mix_hash N (pub (p_e p)) p) of (fs, p) \<Rightarrow> (pub (p_e p) # fs, p))"
| "write_tokens N (S # ts) p =
     (case encrypt_and_hash N (pub (p_s p)) p of (c, p) \<Rightarrow>
      case write_tokens N ts p of (fs, p) \<Rightarrow> (c # fs, p))"
| "write_tokens N (t # ts) p = write_tokens N ts (mix_key N (dh_of N t p) p)"

fun read_tokens :: "noise_crypto \<Rightarrow> token list \<Rightarrow> bytes list \<Rightarrow> party \<Rightarrow> party option" where
  "read_tokens N [] [] p = Some p"
| "read_tokens N (E # ts) (f # fs) p = read_tokens N ts fs (mix_hash N f (p\<lparr>p_re := f\<rparr>))"
| "read_tokens N (S # ts) (f # fs) p =
     Option.bind (decrypt_and_hash N f p) (\<lambda>(rs, p). read_tokens N ts fs (p\<lparr>p_rs := rs\<rparr>))"
| "read_tokens N (EE # ts) fs p = read_tokens N ts fs (mix_key N (dh_of N EE p) p)"
| "read_tokens N (ES # ts) fs p = read_tokens N ts fs (mix_key N (dh_of N ES p) p)"
| "read_tokens N (SE # ts) fs p = read_tokens N ts fs (mix_key N (dh_of N SE p) p)"
| "read_tokens N _ _ p = None"

text \<open>The start: the protocol's name of 32 bytes is hash and chaining key, the prologue is mixed in.
  On the connections to WhatsApp the first message carries no payload at all.\<close>

definition start_party :: "noise_crypto \<Rightarrow> bool \<Rightarrow> bytes \<Rightarrow> noise_keys \<Rightarrow> noise_keys \<Rightarrow> party" where
  "start_party N init prologue s e =
     (let h = map to_byte ''Noise_XX_25519_AESGCM_SHA256'' @ [0, 0, 0, 0]
      in mix_hash N prologue \<lparr>initiator = init, p_h = h, p_ck = h, p_k = None, p_n = 0, p_s = s, p_e = e,
           p_rs = [], p_re = []\<rparr>)"

definition split_keys :: "noise_crypto \<Rightarrow> party \<Rightarrow> bytes \<times> bytes" where
  "split_keys N p = (let d = noise_hkdf N (p_ck p) [] in (take 32 d, drop 32 d))"

text \<open>The responder: it reads the first message, writes the second with its certificate, and reads the
  third with the client's payload.\<close>

definition responder_hello ::
  "noise_crypto \<Rightarrow> bytes \<Rightarrow> noise_keys \<Rightarrow> noise_keys \<Rightarrow> bytes \<Rightarrow> bytes \<Rightarrow> (bytes \<times> bytes \<times> bytes \<times> party) option" where
  "responder_hello N prologue s e cert client_eph =
     (case read_tokens N [E] [client_eph] (start_party N False prologue s e) of
        None \<Rightarrow> None
      | Some p \<Rightarrow>
          (case write_tokens N [E, EE, S, ES] p of
             ([re, rs], p) \<Rightarrow> (case encrypt_and_hash N cert p of (c, p) \<Rightarrow> Some (re, rs, c, p))
           | _ \<Rightarrow> None))"

definition responder_finish :: "noise_crypto \<Rightarrow> bytes \<Rightarrow> bytes \<Rightarrow> party \<Rightarrow> (bytes \<times> party) option" where
  "responder_finish N static payload p =
     Option.bind (read_tokens N [S, SE] [static] p) (decrypt_and_hash N payload)"

subsection \<open>The code is the initiator\<close>

definition speaks_for :: "noise_state \<Rightarrow> party \<Rightarrow> bool" where
  "speaks_for s p = (initiator p \<and> transport s = None \<and> hash s = p_h p \<and> salt s = p_ck p
     \<and> p_k p = Some (enc_key s) \<and> hs_counter s = word_of_nat (p_n p) \<and> p_n p < 2 ^ 32 \<and> eph s = p_e p)"

lemma generateIV_nonce:
  assumes "n < 2 ^ 32"
  shows "generateIV (word_of_nat n) = nonce_of n"
proof -
  have below: "m < 32" if "bit n m" for m
    using assms that take_bit_nat_eq_self[of n 32] by (metis bit_take_bit_iff)
  have byte: "(ucast (drop_bit i (word_of_nat n :: u32) AND 0xff) :: u8) = word_of_nat (n div 2 ^ i)" for i
    unfolding masks drop_bit_eq_div[of i n, symmetric]
    by (rule bit_word_eqI) (auto simp: bit_simps dest: below)
  have top: "n div 256 ^ i = 0" if "4 \<le> i" for i
  proof -
    have "(2 :: nat) ^ 32 = 256 ^ 4" by simp
    also have "\<dots> \<le> 256 ^ i" using that by (intro power_increasing) auto
    finally show ?thesis using assms by simp
  qed
  have list: "rev [0..<8] = [7, 6, 5, 4, 3, 2, 1, 0::nat]" by code_simp
  have zeros: "replicate 8 (0 :: u8) = replicate 4 0 @ [0, 0, 0, 0]" by code_simp
  show ?thesis
    using byte[of 24] byte[of 16] byte[of 8] byte[of 0] top[of 4] top[of 5] top[of 6] top[of 7]
    unfolding generateIV_def nonce_of_def list zeros by simp
qed

definition hears_for :: "noise_state \<Rightarrow> party \<Rightarrow> bool" where
  "hears_for s p = (initiator p \<and> transport s = None \<and> hash s = p_h p \<and> salt s = p_ck p \<and> eph s = p_e p)"

lemma length_secret: "noise_ok N \<Longrightarrow> length (secret N a b) = 32"
  by (auto simp: secret_def noise_ok_def split: option.splits)

lemma speaks_hears: "speaks_for s p \<Longrightarrow> hears_for s p"
  by (simp add: speaks_for_def hears_for_def)

lemma hears_authenticate: "hears_for s p \<Longrightarrow> hears_for (authenticate N d s) (mix_hash N d p)"
  by (simp add: hears_for_def authenticate_def mix_hash_def)

lemma speaks_authenticate: "speaks_for s p \<Longrightarrow> speaks_for (authenticate N d s) (mix_hash N d p)"
  by (simp add: speaks_for_def authenticate_def mix_hash_def)

lemma speaks_mix:
  "noise_ok N \<Longrightarrow> hears_for s p \<Longrightarrow> speaks_for (mixIntoKey N (secret N a b) s) (mix_key N (secret N a b) p)"
  using length_secret[of N a b]
  by (cases "secret N a b") (auto simp: hears_for_def speaks_for_def mixIntoKey_def mix_key_def Let_def
    hkdfExpand_def noise_ok_def)

lemma speaks_agree:
  assumes "noise_ok N" "hears_for s p" "length a = 32" "length b = 32"
  obtains s' where "agree_mix N a b s = (Ret (), s')" "speaks_for s' (mix_key N (secret N a b) p)"
  using assms speaks_mix[OF assms(1,2), of a b]
  by (simp add: agree_mix_def curve25519Shared_def)

lemma speaks_encrypt:
  assumes "speaks_for s p" "p_n p < 2 ^ 32 - 1"
  shows "fst (noise_encrypt N d s) = fst (encrypt_and_hash N d p)"
    and "speaks_for (snd (noise_encrypt N d s)) (snd (encrypt_and_hash N d p))"
  using assms generateIV_nonce[of "p_n p"]
  by (auto simp: speaks_for_def noise_encrypt_def encrypt_and_hash_def Let_def authenticate_def mix_hash_def
    add.commute)

lemma decrypt_no_trap: "aesDecryptGCM N c k iv aad \<noteq> Trap"
  by (simp add: aesDecryptGCM_def Let_def of_opt_def split: option.splits)

lemma speaks_decrypt:
  assumes "speaks_for s p" "p_n p < 2 ^ 32 - 1"
  shows "case decrypt_and_hash N c p of
      None \<Rightarrow> fst (noise_decrypt N c s) = Throw
    | Some (d, p') \<Rightarrow> fst (noise_decrypt N c s) = Ret d \<and> speaks_for (snd (noise_decrypt N c s)) p'"
  using assms generateIV_nonce[of "p_n p"] decrypt_no_trap[of N c "enc_key s" "nonce_of (p_n p)" "hash s"]
  by (cases "aesDecryptGCM N c (enc_key s) (nonce_of (p_n p)) (hash s)")
    (auto simp: speaks_for_def noise_decrypt_def decrypt_and_hash_def Let_def authenticate_def mix_hash_def
    add.commute)

text \<open>What the frame callback of the gateway does with the fields of a server hello.\<close>

definition client_finish ::
  "noise_crypto \<Rightarrow> bytes \<Rightarrow> bytes \<Rightarrow> bytes \<Rightarrow> noise_keys \<Rightarrow> bytes \<Rightarrow> (bytes \<times> bytes) noisy" where
  "client_finish N se ss cert noiseKey payload s =
     and_then (processServerHello N se ss cert noiseKey s) (\<lambda>c s.
       case encryptClientPayload N payload s of (pe, s) \<Rightarrow> (Ret (c, pe), finishHandshake N s))"

text \<open>The initiator of the pattern.\<close>

definition xx_initiator ::
  "noise_crypto \<Rightarrow> bytes \<Rightarrow> noise_keys \<Rightarrow> noise_keys \<Rightarrow> bytes \<Rightarrow> bytes \<Rightarrow> bytes \<Rightarrow> bytes
    \<Rightarrow> (bytes list \<times> bytes \<times> bytes \<times> bytes) option" where
  "xx_initiator N prologue s e re rs cert payload =
     Option.bind (read_tokens N [E, EE, S, ES] [re, rs]
       (snd (write_tokens N [E] (start_party N True prologue s e)))) (\<lambda>p.
     Option.bind (if cert = [] then Some p else map_option snd (decrypt_and_hash N cert p)) (\<lambda>p.
       case write_tokens N [S, SE] p of (fs, p) \<Rightarrow>
       case encrypt_and_hash N payload p of (c, p) \<Rightarrow> Some (fs, c, split_keys N p)))"

text \<open>The fields a message leaves alone.\<close>

lemma mix_simps [simp]:
  "p_s (mix_hash N d p) = p_s p" "p_e (mix_hash N d p) = p_e p" "p_re (mix_hash N d p) = p_re p"
  "p_rs (mix_hash N d p) = p_rs p" "p_n (mix_hash N d p) = p_n p" "initiator (mix_hash N d p) = initiator p"
  "p_k (mix_hash N d p) = p_k p" "p_ck (mix_hash N d p) = p_ck p"
  "p_s (mix_key N d p) = p_s p" "p_e (mix_key N d p) = p_e p" "p_re (mix_key N d p) = p_re p"
  "p_rs (mix_key N d p) = p_rs p" "p_n (mix_key N d p) = 0" "initiator (mix_key N d p) = initiator p"
  "p_h (mix_key N d p) = p_h p"
  by (simp_all add: mix_hash_def mix_key_def Let_def)

lemma encrypt_frame:
  "encrypt_and_hash N d p = (c, q) \<Longrightarrow> p_s q = p_s p \<and> p_e q = p_e p \<and> p_re q = p_re p \<and> p_rs q = p_rs p
     \<and> p_n q \<le> p_n p + 1 \<and> initiator q = initiator p \<and> p_ck q = p_ck p"
  by (auto simp: encrypt_and_hash_def Let_def split: option.splits)

lemma decrypt_frame:
  "decrypt_and_hash N c p = Some (d, q) \<Longrightarrow> p_s q = p_s p \<and> p_e q = p_e p \<and> p_re q = p_re p
     \<and> p_rs q = p_rs p \<and> p_n q \<le> p_n p + 1 \<and> initiator q = initiator p \<and> p_ck q = p_ck p"
  by (auto simp: decrypt_and_hash_def split: option.splits outcome.splits)

lemma decrypted_size:
  assumes "noise_ok N" "decrypt_and_hash N c p = Some (d, q)" "p_k p \<noteq> None" "length c = n + 16"
  shows "length d = n"
  using assms
  by (auto simp: decrypt_and_hash_def aesDecryptGCM_def noise_ok_def of_opt_def Let_def
    split: option.splits outcome.splits if_splits)

lemma finish_split:
  assumes "noise_ok N" "speaks_for s p"
  shows "transport (finishHandshake N s) = Some \<lparr>t_enc = fst (split_keys N p), t_dec = snd (split_keys N p),
    write_counter = 0, read_counter = 0\<rparr>"
proof -
  have "length (hmac256 N k d) = 32" for k d using assms(1) by (simp add: noise_ok_def)
  then have "hkdfExpand N [] 64 ck [] = noise_hkdf N ck []" for ck
    by (simp add: hkdfExpand_def hkdf_loop.simps noise_hkdf_def Let_def)
  then show ?thesis using assms(2) by (simp add: finishHandshake_def split_keys_def Let_def speaks_for_def)
qed

lemma speaks_fields [simp]: "speaks_for s (p\<lparr>p_rs := r\<rparr>) = speaks_for s p" "speaks_for s (p\<lparr>p_re := r\<rparr>) = speaks_for s p"
  "hears_for s (p\<lparr>p_rs := r\<rparr>) = hears_for s p" "hears_for s (p\<lparr>p_re := r\<rparr>) = hears_for s p"
  by (simp_all add: speaks_for_def hears_for_def)

lemma eph_of: "hears_for s p \<Longrightarrow> eph s = p_e p" by (simp add: hears_for_def)

lemma started:
  assumes "transport s = None"
  shows "hears_for (noise_init N ek prologue s) (snd (write_tokens N [E] (start_party N True prologue nk ek)))"
proof -
  have "replicate 4 (0 :: u8) = [0, 0, 0, 0]" by code_simp
  then show ?thesis using assms
    by (simp add: hears_for_def noise_init_def start_party_def NOISE_MODE_def Let_def authenticate_def
      mix_hash_def to_byte_def)
qed

text \<open>The rest of the handshake, once the static key of the server is known.\<close>

lemma finish_follows:
  assumes ok: "noise_ok N" and sp: "speaks_for s p" "p_n p \<le> 1"
    and keys: "keys_sized nk" "p_s p = nk" "length (p_re p) = 32"
    and w: "write_tokens N [S, SE] p = (fs, q)" and e: "encrypt_and_hash N payload q = (pe, q')"
  shows "\<exists>c s'. fs = [c]
    \<and> (case noise_encrypt N (pub nk) s of (c, s) \<Rightarrow>
        and_then (agree_mix N (priv nk) (p_re p) s) (\<lambda>_ s. (Ret c, s\<lparr>static_keys := nk\<rparr>))) = (Ret c, s')
    \<and> fst (encryptClientPayload N payload s') = pe
    \<and> transport (finishHandshake N (snd (encryptClientPayload N payload s')))
      = Some \<lparr>t_enc = fst (split_keys N q'), t_dec = snd (split_keys N q'), write_counter = 0, read_counter = 0\<rparr>"
proof -
  obtain c p1 where c: "encrypt_and_hash N (pub nk) p = (c, p1)" by fastforce
  note f = encrypt_frame[OF c]
  have q: "fs = [c]" "q = mix_key N (dh_of N SE p1) p1" using w c keys(2) by simp_all
  have n: "p_n p < 2 ^ 32 - 1" using sp(2) by simp
  obtain s1 where s1: "noise_encrypt N (pub nk) s = (c, s1)" "speaks_for s1 p1"
    using speaks_encrypt[OF sp(1) n, of N "pub nk"] c by (cases "noise_encrypt N (pub nk) s") auto
  obtain s2 where s2: "agree_mix N (priv nk) (p_re p) s1 = (Ret (), s2)"
      "speaks_for s2 (mix_key N (secret N (priv nk) (p_re p)) p1)"
    using speaks_agree[OF ok speaks_hears[OF s1(2)]] keys unfolding keys_sized_def by metis
  have "initiator p1" using s1(2) by (simp add: speaks_for_def)
  then have "dh_of N SE p1 = secret N (priv nk) (p_re p)" using f keys(2) by (simp add: dh_of_def)
  then have s3: "speaks_for (s2\<lparr>static_keys := nk\<rparr>) q" using s2(2) q(2) by (simp add: speaks_for_def)
  have "p_n q < 2 ^ 32 - 1" using q(2) by simp
  note enc = speaks_encrypt[OF s3 this, of N payload, unfolded e, simplified]
  show ?thesis
    using q(1) s1(1) s2(1) enc finish_split[OF ok enc(2)] by (simp add: encryptClientPayload_def)
qed

lemma xx_refined:
  assumes ok: "noise_ok N" and sized: "keys_sized nk" "keys_sized ek" "length re = 32" "length rs = 48"
    and fresh: "transport s = None"
  shows "case xx_initiator N prologue nk ek re rs cert payload of
      None \<Rightarrow> fst (client_finish N re rs cert nk payload (noise_init N ek prologue s)) = Throw
    | Some (fs, pe, k1, k2) \<Rightarrow> \<exists>c s'. fs = [c]
        \<and> client_finish N re rs cert nk payload (noise_init N ek prologue s) = (Ret (c, pe), s')
        \<and> transport s' = Some \<lparr>t_enc = k1, t_dec = k2, write_counter = 0, read_counter = 0\<rparr>"
proof -
  define p0 where "p0 = snd (write_tokens N [E] (start_party N True prologue nk ek))"
  define p1 where "p1 = mix_hash N re (p0\<lparr>p_re := re\<rparr>)"
  define p2 where "p2 = mix_key N (dh_of N EE p1) p1"
  have p0_fields: "p_e p0 = ek" "p_s p0 = nk" "initiator p0" by (simp_all add: p0_def start_party_def Let_def)
  have keys: "p_e p1 = ek" "p_s p1 = nk" "p_re p1 = re" "initiator p1"
    using p0_fields by (simp_all add: p1_def)
  obtain s1 where s1: "s1 = authenticate N re (noise_init N ek prologue s)" "hears_for s1 p1"
    using started[OF fresh, of N ek prologue nk] hears_authenticate[of _ "p0\<lparr>p_re := re\<rparr>" N re]
    by (auto simp: p0_def p1_def)
  have e1: "eph s1 = ek" using eph_of[OF s1(2)] keys(1) by simp
  have len: "length (priv ek) = 32" using sized(2) by (simp add: keys_sized_def)
  have "dh_of N EE p1 = secret N (priv ek) re" using keys by (simp add: dh_of_def)
  then obtain s2 where s2: "agree_mix N (priv ek) re s1 = (Ret (), s2)" "speaks_for s2 p2"
    using speaks_agree[OF ok s1(2) len sized(3)] p2_def by metis
  have n2: "p_n p2 < 2 ^ 32 - 1" and k2: "p_k p2 \<noteq> None" by (simp_all add: p2_def mix_key_def Let_def)
  note dec = speaks_decrypt[OF s2(2) n2, of N rs]
  have run: "client_finish N re rs cert nk payload (noise_init N ek prologue s)
    = and_then (and_then (noise_decrypt N rs s2) (\<lambda>decStatic s.
         and_then (agree_mix N (priv (eph s)) decStatic s) (\<lambda>_ s.
         and_then (if cert \<noteq> [] then noise_decrypt N cert s else (Ret [], s)) (\<lambda>_ s.
         case noise_encrypt N (pub nk) s of (static_enc, s) \<Rightarrow>
         and_then (agree_mix N (priv nk) re s) (\<lambda>_ s. (Ret static_enc, s\<lparr>static_keys := nk\<rparr>))))))
       (\<lambda>c s. case encryptClientPayload N payload s of (pe, s) \<Rightarrow> (Ret (c, pe), finishHandshake N s))"
    by (simp add: client_finish_def processServerHello_def s1(1)[symmetric] e1 s2(1))
  have hello: "read_tokens N [E, EE, S, ES] [re, rs] p0 = Option.bind (decrypt_and_hash N rs p2) (\<lambda>(r, p).
      Some (mix_key N (dh_of N ES (p\<lparr>p_rs := r\<rparr>)) (p\<lparr>p_rs := r\<rparr>)))"
    by (simp add: p1_def p2_def)
  note xx_unfolded = xx_initiator_def[of N prologue nk ek re rs cert payload, folded p0_def, unfolded hello]
  show ?thesis
  proof (cases "decrypt_and_hash N rs p2")
    case None
    then have "xx_initiator N prologue nk ek re rs cert payload = None" unfolding xx_unfolded by simp
    moreover have "fst (noise_decrypt N rs s2) = Throw" using None dec by simp
    ultimately show ?thesis unfolding run by (cases "noise_decrypt N rs s2") simp
  next
    case (Some r)
    then obtain st p3 where r: "decrypt_and_hash N rs p2 = Some (st, p3)" by (cases r) auto
    define p4 where "p4 = mix_key N (dh_of N ES (p3\<lparr>p_rs := st\<rparr>)) (p3\<lparr>p_rs := st\<rparr>)"
    note f = decrypt_frame[OF r]
    have keys3: "p_e p3 = ek" "p_s p3 = nk" "p_re p3 = re" "initiator p3" using f keys by (simp_all add: p2_def)
    obtain s3 where s3: "noise_decrypt N rs s2 = (Ret st, s3)" "speaks_for s3 p3"
      using dec r by (cases "noise_decrypt N rs s2") auto
    have "length st = 32" using decrypted_size[OF ok r k2, of 32] sized(4) by simp
    moreover have "dh_of N ES (p3\<lparr>p_rs := st\<rparr>) = secret N (priv ek) st" using keys3 by (simp add: dh_of_def)
    ultimately obtain s4 where s4: "agree_mix N (priv ek) st s3 = (Ret (), s4)" "speaks_for s4 p4"
      using speaks_agree[OF ok, of s3 "p3\<lparr>p_rs := st\<rparr>" "priv ek" st] len speaks_hears[OF s3(2)] p4_def
      by (metis speaks_fields(3))
    have e3: "eph s3 = ek" using s3(2) keys3 by (simp add: speaks_for_def)
    have keys4: "p_s p4 = nk" "p_re p4 = re" "p_n p4 = 0" using keys3 by (simp_all add: p4_def)
    note dec4 = speaks_decrypt[OF s4(2), of N cert] 
    have xx: "xx_initiator N prologue nk ek re rs cert payload
      = Option.bind (if cert = [] then Some p4 else map_option snd (decrypt_and_hash N cert p4)) (\<lambda>p.
         case write_tokens N [S, SE] p of (fs, p) \<Rightarrow>
         case encrypt_and_hash N payload p of (c, p) \<Rightarrow> Some (fs, c, split_keys N p))"
      unfolding xx_unfolded r by (simp add: p4_def)
    let ?cert = "if cert = [] then Some p4 else map_option snd (decrypt_and_hash N cert p4)"
    show ?thesis
    proof (cases ?cert)
      case None
      then show ?thesis using dec4 keys4 s3(1) s4(1) e3 unfolding run xx
        by (cases "noise_decrypt N cert s4") (auto split: if_splits option.splits)
    next
      case (Some p5)
      have "\<exists>s5 d. (if cert \<noteq> [] then noise_decrypt N cert s4 else (Ret [], s4)) = (Ret d, s5)
          \<and> speaks_for s5 p5 \<and> p_n p5 \<le> 1 \<and> p_s p5 = nk \<and> p_re p5 = re"
        using Some dec4 keys4 s4(2) decrypt_frame[of N cert p4]
        by (cases "noise_decrypt N cert s4") (fastforce split: if_splits option.splits)
      then obtain s5 d where s5: "(if cert \<noteq> [] then noise_decrypt N cert s4 else (Ret [], s4)) = (Ret d, s5)"
        "speaks_for s5 p5" "p_n p5 \<le> 1" "p_s p5 = nk" "p_re p5 = re" by blast
      obtain fs q pe q' where w: "write_tokens N [S, SE] p5 = (fs, q)" "encrypt_and_hash N payload q = (pe, q')"
        by fastforce
      have "length (p_re p5) = 32" using s5(5) sized(3) by simp
      from finish_follows[OF ok s5(2,3) sized(1) s5(4) this w]
      obtain c s' where fin: "fs = [c]" "(case noise_encrypt N (pub nk) s5 of (c, s) \<Rightarrow>
          and_then (agree_mix N (priv nk) (p_re p5) s) (\<lambda>_ s. (Ret c, s\<lparr>static_keys := nk\<rparr>))) = (Ret c, s')"
        "fst (encryptClientPayload N payload s') = pe"
        "transport (finishHandshake N (snd (encryptClientPayload N payload s')))
          = Some \<lparr>t_enc = fst (split_keys N q'), t_dec = snd (split_keys N q'), write_counter = 0, read_counter = 0\<rparr>"
        by blast
      have "client_finish N re rs cert nk payload (noise_init N ek prologue s)
        = (Ret (c, pe), finishHandshake N (snd (encryptClientPayload N payload s')))"
        using s3(1) s4(1) e3 s5(1,5) fin(2,3) unfolding run
        by (cases "encryptClientPayload N payload s'") simp
      then show ?thesis using fin(1,4) Some w unfolding xx by (simp add: case_prod_beta)
    qed
  qed
qed


subsection \<open>Both ends agree\<close>

definition mirrored :: "party \<Rightarrow> party \<Rightarrow> bool" where
  "mirrored p q = (p_h p = p_h q \<and> p_ck p = p_ck q \<and> p_k p = p_k q \<and> p_n p = p_n q)"

lemma mirrored_mix:
  "mirrored p q \<Longrightarrow> mirrored (mix_hash N d p) (mix_hash N d q)"
  "mirrored p q \<Longrightarrow> mirrored (mix_key N d p) (mix_key N d q)"
  by (simp_all add: mirrored_def mix_hash_def mix_key_def Let_def)

lemma gcm_back: "noise_ok N \<Longrightarrow> aesDecryptGCM N (aesEncryptGCM N d k iv aad) k iv aad = Ret d"
  by (auto simp: aesDecryptGCM_def aesEncryptGCM_def noise_ok_def Let_def case_prod_beta)

lemma mirrored_encrypt:
  assumes "noise_ok N" "mirrored p q" "encrypt_and_hash N d p = (c, p')"
  obtains q' where "decrypt_and_hash N c q = Some (d, q')" "mirrored p' q'"
proof -
  have "\<exists>q'. decrypt_and_hash N c q = Some (d, q') \<and> mirrored p' q'"
    using assms gcm_back[OF assms(1)]
    by (cases "p_k p") (auto simp: encrypt_and_hash_def decrypt_and_hash_def mirrored_def mix_hash_def Let_def
        split: option.splits)
  then show thesis using that by blast
qed

lemma encrypt_nonempty:
  assumes "noise_ok N" "encrypt_and_hash N d p = (c, p')" "p_k p \<noteq> None"
  shows "length c = length d + 16"
  using assms by (auto simp: encrypt_and_hash_def aesEncryptGCM_def noise_ok_def Let_def case_prod_beta)

lemma secrets_meet: "pair_agrees N a b \<Longrightarrow> secret N (priv a) (pub b) = secret N (priv b) (pub a)"
  by (simp add: pair_agrees_def secret_def)

lemma mix_key_k [simp]: "p_k (mix_key N d p) \<noteq> None"
  by (simp add: mix_key_def Let_def)

lemma xx_agrees:
  assumes ok: "noise_ok N" and sized: "keys_sized ss"
    and meet: "pair_agrees N ek se" "pair_agrees N ek ss" "pair_agrees N nk se"
    and hello: "responder_hello N prologue ss se cert (pub ek) = Some (re, rs, c, q)"
  obtains cs pe q' where "xx_initiator N prologue nk ek re rs c payload = Some ([cs], pe, split_keys N q')"
    "responder_finish N cs pe q = Some (payload, q')" "re = pub se" "length rs = 48" "p_rs q' = pub nk"
proof -
  note meets = meet[THEN secrets_meet]
  define p0 where "p0 = snd (write_tokens N [E] (start_party N True prologue nk ek))"
  define q0 where "q0 = mix_hash N (pub ek) ((start_party N False prologue ss se)\<lparr>p_re := pub ek\<rparr>)"
  have m0: "mirrored p0 q0" by (simp add: p0_def q0_def start_party_def mirrored_def mix_hash_def Let_def)
  have f0: "p_e p0 = ek" "p_s p0 = nk" "initiator p0" "p_e q0 = se" "p_s q0 = ss" "p_re q0 = pub ek" "\<not> initiator q0"
    by (simp_all add: p0_def q0_def start_party_def Let_def)
  define p1 where "p1 = mix_hash N (pub se) (p0\<lparr>p_re := pub se\<rparr>)"
  define q1 where "q1 = mix_hash N (pub se) q0"
  define p2 where "p2 = mix_key N (dh_of N EE p1) p1"
  define q2 where "q2 = mix_key N (dh_of N EE q1) q1"
  have f1: "p_e p1 = ek" "p_s p1 = nk" "p_re p1 = pub se" "initiator p1" "p_e q1 = se" "p_s q1 = ss" "p_re q1 = pub ek" "\<not> initiator q1"
    using f0 by (simp_all add: p1_def q1_def)
  have "mirrored p1 q1" using m0 by (simp add: p1_def q1_def mirrored_def mix_hash_def)
  moreover have "dh_of N EE p1 = dh_of N EE q1" using f1 meets by (simp add: dh_of_def)
  ultimately have m2: "mirrored p2 q2" using mirrored_mix(2) by (simp add: p2_def q2_def)
  have k2: "p_k q2 \<noteq> None" by (simp add: q2_def)
  obtain d q3 where q3: "encrypt_and_hash N (pub ss) q2 = (d, q3)" by fastforce
  have m2': "mirrored q2 p2" using m2 by (simp add: mirrored_def)
  obtain p3 where p3: "decrypt_and_hash N d p2 = Some (pub ss, p3)" "mirrored q3 p3"
    using ok m2' q3 by (rule mirrored_encrypt)
  note fq3 = encrypt_frame[OF q3] and fp3 = decrypt_frame[OF p3(1)]
  define p4 where "p4 = mix_key N (dh_of N ES (p3\<lparr>p_rs := pub ss\<rparr>)) (p3\<lparr>p_rs := pub ss\<rparr>)"
  define q4 where "q4 = mix_key N (dh_of N ES q3) q3"
  have f3: "p_e p3 = ek" "p_s p3 = nk" "p_re p3 = pub se" "initiator p3" "p_e q3 = se" "p_s q3 = ss" "p_re q3 = pub ek" "\<not> initiator q3"
    using f1 fq3 fp3 by (simp_all add: p2_def q2_def)
  have "dh_of N ES (p3\<lparr>p_rs := pub ss\<rparr>) = dh_of N ES q3" using f3 meets by (simp add: dh_of_def)
  moreover have "mirrored (p3\<lparr>p_rs := pub ss\<rparr>) q3" using p3(2) by (simp add: mirrored_def)
  ultimately have m4: "mirrored q4 p4" using mirrored_mix(2)[of q3 "p3\<lparr>p_rs := pub ss\<rparr>"]
    by (simp add: p4_def q4_def mirrored_def)
  obtain c' q5 where q5: "encrypt_and_hash N cert q4 = (c', q5)" by fastforce
  have rh: "re = pub se" "rs = d" "c = c'" "q = q5"
  proof -
    have "p_s q2 = ss" "p_e q0 = se" "p_e q4 = se" using f1 f0 f3 by (simp_all add: q2_def q4_def)
    then show "re = pub se" "rs = d" "c = c'" "q = q5" using hello q3 q5 unfolding responder_hello_def
      by (simp_all add: q0_def[symmetric] q1_def[symmetric] q2_def[symmetric] q4_def[symmetric])
  qed
  obtain p5 where p5: "decrypt_and_hash N c p4 = Some (cert, p5)" "mirrored q5 p5"
    using ok m4 q5 unfolding rh(3) by (rule mirrored_encrypt)
  note fq5 = encrypt_frame[OF q5] and fp5 = decrypt_frame[OF p5(1)]
  have f5: "p_e p5 = ek" "p_s p5 = nk" "p_re p5 = pub se" "initiator p5" "p_e q5 = se" "\<not> initiator q5"
    using f3 fq5 fp5 by (simp_all add: p4_def q4_def)
  have "p_k q4 \<noteq> None" by (simp add: q4_def)
  then have cne: "c \<noteq> []" using encrypt_nonempty[OF ok q5] rh(3) by auto
  obtain cs p6 where p6: "encrypt_and_hash N (pub nk) p5 = (cs, p6)" by fastforce
  have m5: "mirrored p5 q5" using p5(2) by (simp add: mirrored_def)
  obtain q6 where q6: "decrypt_and_hash N cs q5 = Some (pub nk, q6)" "mirrored p6 q6"
    using ok m5 p6 by (rule mirrored_encrypt)
  note fp6 = encrypt_frame[OF p6] and fq6 = decrypt_frame[OF q6(1)]
  define p7 where "p7 = mix_key N (dh_of N SE p6) p6"
  define q7 where "q7 = mix_key N (dh_of N SE (q6\<lparr>p_rs := pub nk\<rparr>)) (q6\<lparr>p_rs := pub nk\<rparr>)"
  have "dh_of N SE p6 = dh_of N SE (q6\<lparr>p_rs := pub nk\<rparr>)" using f5 fp6 fq6 meets by (simp add: dh_of_def)
  moreover have "mirrored p6 (q6\<lparr>p_rs := pub nk\<rparr>)" using q6(2) by (simp add: mirrored_def)
  ultimately have m7: "mirrored p7 q7" using mirrored_mix(2) by (simp add: p7_def q7_def)
  obtain pe p8 where p8: "encrypt_and_hash N payload p7 = (pe, p8)" by fastforce
  obtain q8 where q8: "decrypt_and_hash N pe q7 = Some (payload, q8)" "mirrored p8 q8"
    using ok m7 p8 by (rule mirrored_encrypt)
  have hello_read: "read_tokens N [E, EE, S, ES] [re, rs] p0 = Some p4"
    using p3(1) by (simp add: rh p1_def[symmetric] p2_def[symmetric] p4_def)
  have w: "write_tokens N [S, SE] p5 = ([cs], p7)" using p6 f5 by (simp add: p7_def)
  have "split_keys N p8 = split_keys N q8" using q8(2) by (simp add: split_keys_def mirrored_def)
  then have "xx_initiator N prologue nk ek re rs c payload = Some ([cs], pe, split_keys N q8)"
    using cne p5(1) p8 unfolding xx_initiator_def p0_def[symmetric] hello_read
    by (simp add: w del: write_tokens.simps)
  moreover have "responder_finish N cs pe q = Some (payload, q8)"
    using q6(1) q8(1) by (simp add: responder_finish_def rh q7_def)
  moreover have "length rs = 48" using encrypt_nonempty[OF ok q3 k2] sized by (simp add: rh keys_sized_def)
  moreover have "p_rs q8 = pub nk" using decrypt_frame[OF q8(1)] by (simp add: q7_def)
  ultimately show thesis using that rh(1) by blast
qed

lemma responder_answers: "\<exists>r. responder_hello N prologue s e cert ce = Some r"
  by (auto simp: responder_hello_def split: prod.splits)

text \<open>With any responder that follows the pattern the handshake ends in both reading what the other
  sent and in the same pair of keys, each encrypting with the one the other decrypts with. Nothing is
  asked of the responder's static key.\<close>

lemma handshake_agrees:
  assumes "noise_ok N" "keys_sized ek" "keys_sized nk" "keys_sized ss" "keys_sized se"
    and "pair_agrees N ek se" "pair_agrees N ek ss" "pair_agrees N nk se" "transport s = None"
  shows "\<exists>re rs c q. responder_hello N NOISE_WA_HEADER ss se cert (pub ek) = Some (re, rs, c, q)
    \<and> (\<exists>cs pe s' q'. client_finish N re rs c nk payload (noise_init N ek NOISE_WA_HEADER s) = (Ret (cs, pe), s')
        \<and> responder_finish N cs pe q = Some (payload, q') \<and> p_rs q' = pub nk
        \<and> transport s' = Some \<lparr>t_enc = fst (split_keys N q'), t_dec = snd (split_keys N q'),
             write_counter = 0, read_counter = 0\<rparr>)"
proof -
  obtain re rs c q where h: "responder_hello N NOISE_WA_HEADER ss se cert (pub ek) = Some (re, rs, c, q)"
    using responder_answers[of N NOISE_WA_HEADER ss se cert "pub ek"] by auto
  obtain cs pe q' where x: "xx_initiator N NOISE_WA_HEADER nk ek re rs c payload = Some ([cs], pe, split_keys N q')"
    "responder_finish N cs pe q = Some (payload, q')" "re = pub se" "length rs = 48" "p_rs q' = pub nk"
    using assms(1,4,6-8) h by (rule xx_agrees)
  have "length re = 32" using x(3) assms(5) by (simp add: keys_sized_def)
  from xx_refined[OF assms(1,3,2) this x(4) assms(9), where prologue = NOISE_WA_HEADER and cert = c
      and payload = payload]
  show ?thesis using h x(2,5) unfolding x(1) by (cases "split_keys N q'") fastforce
qed

subsection \<open>Traffic\<close>

fun encode_all :: "noise_crypto \<Rightarrow> bytes list \<Rightarrow> noise_state \<Rightarrow> bytes \<times> noise_state" where
  "encode_all N [] s = ([], s)"
| "encode_all N (p # ps) s =
     (case encodeFrame N p s of (f, s) \<Rightarrow> case encode_all N ps s of (fs, s) \<Rightarrow> (f @ fs, s))"

text \<open>The other end: a stream of frames, each opened with the next nonce.\<close>

fun split_frames :: "bytes \<Rightarrow> bytes list option" where
  "split_frames [] = Some []"
| "split_frames (a # b # c # rest) =
     (if length rest < frame_length a b c then None
      else map_option ((#) (take (frame_length a b c) rest)) (split_frames (drop (frame_length a b c) rest)))"
| "split_frames _ = None"

fun open_all :: "noise_crypto \<Rightarrow> bytes \<Rightarrow> nat \<Rightarrow> bytes list \<Rightarrow> bytes list option" where
  "open_all N k n [] = Some []"
| "open_all N k n (f # fs) =
     (case aesDecryptGCM N f k (nonce_of n) [] of
        Ret p \<Rightarrow> map_option ((#) p) (open_all N k (n + 1) fs)
      | _ \<Rightarrow> None)"

lemma frame_length_be24:
  assumes "n < 2 ^ 24" "be24 n = [a, b, c]"
  shows "frame_length a b c = n"
proof -
  have top: "n div 65536 = n div 256 div 256" by (simp add: div_mult2_eq[symmetric])
  have "n div 256 div 256 * 65536 + n div 256 mod 256 * 256 = n div 256 * 256"
    using div_mult_mod_eq[of "n div 256" 256] by linarith
  then have "n div 65536 * 65536 + n div 256 mod 256 * 256 + n mod 256 = n"
    unfolding top using div_mult_mod_eq[of n 256] by linarith
  then show ?thesis using assms by (auto simp: be24_def frame_length_def unat_of_nat take_bit_eq_mod)
qed

lemma split_frames_one:
  assumes "length f < 2 ^ 24"
  shows "split_frames (be24 (length f) @ f @ rest) = map_option ((#) f) (split_frames rest)"
proof -
  obtain a b c where e: "be24 (length f) = [a, b, c]" by (simp add: be24_def)
  have "frame_length a b c = length f" using assms e by (rule frame_length_be24)
  then show ?thesis by (simp add: e)
qed

lemma length_noise_sealed: "noise_ok N \<Longrightarrow> length (aesEncryptGCM N p k iv aad) = length p + 16"
  by (auto simp: aesEncryptGCM_def noise_ok_def case_prod_beta)

lemma frames_open:
  assumes "noise_ok N" "transport s = Some t" "sent_intro s" "write_counter t = word_of_nat n"
    and "n + length ps \<le> 2 ^ 32" "\<forall>p \<in> set ps. length p + 16 < 2 ^ 24"
  shows "Option.bind (split_frames (fst (encode_all N ps s))) (open_all N (t_enc t) n) = Some ps"
  using assms(2-)
proof (induction ps arbitrary: s t n)
  case (Cons p ps)
  define t' where "t' = t\<lparr>write_counter := write_counter t + 1\<rparr>"
  define f where "f = aesEncryptGCM N p (t_enc t) (generateIV (write_counter t)) []"
  have f: "encodeFrame N p s = (be24 (length f) @ f, s\<lparr>transport := Some t', sent_intro := True\<rparr>)"
    using Cons.prems by (simp add: encodeFrame_def noise_encrypt_def f_def t'_def Let_def)
  have "length f < 2 ^ 24" using Cons.prems length_noise_sealed[OF assms(1)] by (simp add: f_def)
  then have one: "split_frames (be24 (length f) @ f @ rest) = map_option ((#) f) (split_frames rest)" for rest
    by (rule split_frames_one)
  have "n < 2 ^ 32" using Cons.prems by simp
  then have open1: "aesDecryptGCM N f (t_enc t) (nonce_of n) [] = Ret p"
    using gcm_back[OF assms(1)] generateIV_nonce Cons.prems by (simp add: f_def)
  have "write_counter t' = word_of_nat (n + 1)" using Cons.prems by (simp add: t'_def)
  moreover have "t_enc t' = t_enc t" by (simp add: t'_def)
  ultimately have "Option.bind (split_frames (fst (encode_all N ps (s\<lparr>transport := Some t', sent_intro := True\<rparr>))))
      (open_all N (t_enc t) (n + 1)) = Some ps"
    using Cons.IH[of "s\<lparr>transport := Some t', sent_intro := True\<rparr>" t' "n + 1"] Cons.prems by simp
  then show ?case using one open1 unfolding encode_all.simps f
    by (auto simp: case_prod_beta Option.bind_eq_Some_conv)
qed simp

subsection \<open>A concrete instance\<close>

definition demo_hmac :: "bytes \<Rightarrow> bytes \<Rightarrow> bytes" where
  "demo_hmac k d = buffer 32 (d @ k)"

definition demo_tag :: "bytes \<Rightarrow> bytes" where
  "demo_tag iv = take 16 (iv @ replicate 16 0)"

definition demo_noise :: noise_crypto where
  "demo_noise = \<lparr>x25519 = (\<lambda>a b. Some (buffer 32 (map2 (+) a b))), digest256 = (\<lambda>d. buffer 32 (rev d)),
     hmac256 = demo_hmac,
     hkdf256 = (\<lambda>ikm ck info n. let temp = demo_hmac ck ikm; out1 = demo_hmac temp [1]
       in out1 @ demo_hmac temp (out1 @ [2])),
     seal = (\<lambda>k iv aad p. (p, demo_tag iv)),
     unseal = (\<lambda>k iv aad c tag. if tag = demo_tag iv then Some c else None)\<rparr>"

definition demo_keys :: "u8 \<Rightarrow> noise_keys" where
  "demo_keys b = \<lparr>pub = replicate 32 b, priv = replicate 32 b\<rparr>"

lemma demo_noise_ok: "noise_ok demo_noise"
  by (simp add: noise_ok_def demo_noise_def noise_hkdf_def demo_hmac_def demo_tag_def Let_def min_def)

lemma demo_keys_ok: "keys_sized (demo_keys b)" "pair_agrees demo_noise (demo_keys a) (demo_keys b)"
  by (simp_all add: keys_sized_def demo_keys_def pair_agrees_def demo_noise_def zip_replicate add.commute)


lemma handshake_agrees_example:
  "\<exists>re rs c q. responder_hello demo_noise NOISE_WA_HEADER (demo_keys 3) (demo_keys 4) [5, 6] (pub (demo_keys 2))
      = Some (re, rs, c, q)
    \<and> (\<exists>cs pe s' q'. client_finish demo_noise re rs c (demo_keys 1) [7]
          (noise_init demo_noise (demo_keys 2) NOISE_WA_HEADER new_noise) = (Ret (cs, pe), s')
        \<and> responder_finish demo_noise cs pe q = Some ([7], q') \<and> p_rs q' = pub (demo_keys 1)
        \<and> transport s' = Some \<lparr>t_enc = fst (split_keys demo_noise q'), t_dec = snd (split_keys demo_noise q'),
             write_counter = 0, read_counter = 0\<rparr>)"
  by (rule handshake_agrees) (simp_all add: demo_noise_ok demo_keys_ok new_noise_def)

subsection \<open>Edges\<close>

text \<open>A static key of the server that opens to fewer than 32 bytes is read past its end. Everything the
  test needs is in the hands of whoever answers: the key it is sealed with comes from the ephemeral keys.\<close>

lemma short_static_overread:
  assumes "noise_ok N" "transport s = None" "length re = 32" "length (priv (eph s)) = 32"
    and "fst (noise_decrypt N rs (mixIntoKey N (secret N (priv (eph s)) re) (authenticate N re s))) = Ret d" "length d < 32"
  shows "fst (processServerHello N re rs cert nk s) = Trap"
  using assms
  by (cases "noise_decrypt N rs (mixIntoKey N (secret N (priv (eph s)) re) (authenticate N re s))")
    (simp add: processServerHello_def agree_mix_def curve25519Shared_def authenticate_def Let_def)

text \<open>A second \<open>init\<close> keeps the transport keys of the first handshake, and later hellos are then
  encrypted with them.\<close>

lemma init_keeps_transport: "transport (noise_init N ek hdr s) = transport s"
  by (simp add: noise_init_def authenticate_def Let_def)

text \<open>The counter has 32 bits: message 2^32 uses the nonce of message 0 again.\<close>

lemma nonce_comes_back: "generateIV (word_of_nat (n + 2 ^ 32)) = generateIV (word_of_nat n)"
  by (rule arg_cong[of _ _ generateIV]) (simp add: word_of_nat_eq_iff take_bit_eq_mod)

end
