(* ===== verification/WSTransport.thy ===== *)
theory WSTransport
  imports Bytes
begin

text \<open>
  The websocket under the connection to WhatsApp (\<open>src/kernel/whatsapp/WhatsAppTransport.cpp\<close>): the
  upgrade, the parser that is fed byte by byte, the frames that are sent, the read loop, and what
  becomes of the socket. Sockets and TLS are arguments: the bytes of the random key and mask, and what
  each \<open>SSL_read\<close> returns. The callbacks and the frames written are the list of effects.
\<close>

subsection \<open>The parser\<close>

datatype read_state = HEADER1 | HEADER2 | EXT_LEN | MASK_KEY | PAYLOAD

record ws_reader =
  readState :: read_state
  frameOpcode :: u8
  frameMasked :: bool
  frameLen :: u64
  frameMask :: bytes
  frameBuf :: bytes
  frameRead :: u64
  extLenRead :: nat
  maskRead :: nat

datatype ws_effect = FrameCb bytes | SendFrame u8 bytes

definition fresh_reader :: ws_reader where
  "fresh_reader = \<lparr>readState = HEADER1, frameOpcode = 0, frameMasked = False, frameLen = 0,
     frameMask = [0, 0, 0, 0], frameBuf = [], frameRead = 0, extLenRead = 0, maskRead = 0\<rparr>"

text \<open>\<open>frameBuf_[i] ^= frameMask_[i % 4]\<close>\<close>

definition unmask :: "bytes \<Rightarrow> bytes \<Rightarrow> bytes" where
  "unmask key d = map (\<lambda>i. d ! i XOR key ! (i mod 4)) [0..<length d]"

definition after_length :: "ws_reader \<Rightarrow> ws_reader" where
  "after_length r = (if frameMasked r then r\<lparr>maskRead := 0, readState := MASK_KEY\<rparr>
     else r\<lparr>readState := PAYLOAD\<rparr>)"

text \<open>A frame by its opcode; the answer is whether to go on reading.\<close>

definition dispatch :: "u8 \<Rightarrow> bytes \<Rightarrow> bool \<times> ws_effect list" where
  "dispatch opcode d =
     (if opcode = 0x2 then (True, [FrameCb d])
      else if opcode = 0x8 then (False, [])
      else if opcode = 0x9 then (True, [SendFrame 0x0A d])
      else (True, []))"

definition processReadByte :: "u8 \<Rightarrow> ws_reader \<Rightarrow> (bool \<times> ws_effect list) \<times> ws_reader" where
  "processReadByte b r =
     (case readState r of
        HEADER1 \<Rightarrow> ((True, []), r\<lparr>frameOpcode := b AND 0x0f, readState := HEADER2, frameBuf := [], frameRead := 0\<rparr>)
      | HEADER2 \<Rightarrow>
          let r = r\<lparr>frameMasked := (b AND 0x80 \<noteq> 0), frameLen := ucast (b AND 0x7f), extLenRead := 0\<rparr>
          in ((True, []),
              if frameLen r = 126 \<or> frameLen r = 127 then r\<lparr>frameLen := 0, readState := EXT_LEN\<rparr>
              else after_length r)
      | EXT_LEN \<Rightarrow>
          ((True, []),
           if extLenRead r < 2 then
             let r = r\<lparr>frameLen := push_bit 8 (frameLen r) OR ucast b, extLenRead := extLenRead r + 1\<rparr>
             in if extLenRead r = 2 then after_length r else r
           else r)
      | MASK_KEY \<Rightarrow>
          let r = r\<lparr>frameMask := (frameMask r)[maskRead r := b], maskRead := maskRead r + 1\<rparr>
          in ((True, []), if maskRead r = 4 then r\<lparr>readState := PAYLOAD\<rparr> else r)
      | PAYLOAD \<Rightarrow>
          let r = r\<lparr>frameBuf := frameBuf r @ [b], frameRead := frameRead r + 1\<rparr>
          in if frameLen r \<le> frameRead r then
               (dispatch (frameOpcode r) (if frameMasked r then unmask (frameMask r) (frameBuf r) else frameBuf r),
                r\<lparr>readState := HEADER1, frameBuf := [], frameRead := 0\<rparr>)
             else ((True, []), r))"

text \<open>The bytes of one \<open>SSL_read\<close>; those after a close frame are not looked at.\<close>

fun feed :: "bytes \<Rightarrow> ws_reader \<Rightarrow> (bool \<times> ws_effect list) \<times> ws_reader" where
  "feed [] r = ((True, []), r)"
| "feed (b # bs) r =
     (case processReadByte b r of
        ((False, es), r) \<Rightarrow> ((False, es), r)
      | ((True, es), r) \<Rightarrow> (case feed bs r of ((ok, es'), r) \<Rightarrow> ((ok, es @ es'), r)))"

subsection \<open>What is sent\<close>

definition sendWsFrame :: "bool \<Rightarrow> bytes \<Rightarrow> u8 \<Rightarrow> bytes \<Rightarrow> bytes option" where
  "sendWsFrame open_and_connected key opcode payload =
     (if \<not> open_and_connected then None
      else let len = length payload
        in Some ([0x80 OR opcode]
             @ (if len \<le> 125 then [0x80 OR word_of_nat len]
                else if len \<le> 65535 then [0x80 OR 126, word_of_nat (len div 256), word_of_nat len]
                else [0x80 OR 127] @ map (\<lambda>i. word_of_nat (len div 2 ^ (i * 8))) (rev [0..<8]))
             @ key
             @ map (\<lambda>i. payload ! i XOR key ! (i mod 4)) [0..<len]))"

definition ws_send :: "bool \<Rightarrow> bytes \<Rightarrow> bytes \<Rightarrow> bytes option" where
  "ws_send c key payload = sendWsFrame c key 0x02 payload"

definition ws_ping :: "bool \<Rightarrow> bytes \<Rightarrow> bytes option" where
  "ws_ping c key = sendWsFrame c key 0x09 []"

definition sendCloseFrame :: "bool \<Rightarrow> bytes \<Rightarrow> u16 \<Rightarrow> string \<Rightarrow> bytes option" where
  "sendCloseFrame c key code reason =
     sendWsFrame c key 0x08 ([ucast (drop_bit 8 code), ucast code] @ map to_byte reason)"

subsection \<open>The upgrade\<close>

definition b64 :: string where
  "b64 = ''ABCDEFGHIJKLMNOPQRSTUVWXYZabcdefghijklmnopqrstuvwxyz0123456789+/''"

fun ws_key_groups :: "bytes \<Rightarrow> string" where
  "ws_key_groups [] = ''''"
| "ws_key_groups (a # bs) =
     (let n = push_bit 16 (ucast a :: u32)
            OR (case bs of [] \<Rightarrow> 0 | b # _ \<Rightarrow> push_bit 8 (ucast b))
            OR (case bs of _ # c # _ \<Rightarrow> ucast c | _ \<Rightarrow> 0);
          sextet = (\<lambda>k. b64 ! unat (drop_bit k n AND 0x3f))
      in [sextet 18, sextet 12, (if length bs \<ge> 1 then sextet 6 else CHR ''=''),
          (if length bs \<ge> 2 then sextet 0 else CHR ''='')]
         @ ws_key_groups (drop 2 bs))"

record ws_config =
  ws_host :: string
  ws_path :: string
  ws_query :: string
  ws_origin :: string

definition crlf :: string where "crlf = [CHR 0x0D, CHR 0x0A]"

definition upgrade_request :: "ws_config \<Rightarrow> bytes \<Rightarrow> string" where
  "upgrade_request cfg rawKey =
     (let fullPath = ws_path cfg @ (if ws_query cfg \<noteq> '''' then ''?'' @ ws_query cfg else '''')
      in ''GET '' @ fullPath @ '' HTTP/1.1'' @ crlf
         @ ''Host: '' @ ws_host cfg @ crlf
         @ ''Upgrade: websocket'' @ crlf
         @ ''Connection: Upgrade'' @ crlf
         @ ''Sec-WebSocket-Key: '' @ ws_key_groups rawKey @ crlf
         @ ''Sec-WebSocket-Version: 13'' @ crlf
         @ ''Origin: '' @ ws_origin cfg @ crlf
         @ crlf)"

text \<open>The response so far and what the next reads return; \<open>None\<close>: a read failed, or none is left.\<close>

fun read_headers :: "string \<Rightarrow> string list \<Rightarrow> (string \<times> string list) option" where
  "read_headers response reads =
     (if find_sub (crlf @ crlf) response = None then
        (case reads of [] \<Rightarrow> None | chunk # reads \<Rightarrow> read_headers (response @ chunk) reads)
      else Some (response, reads))"

declare read_headers.simps [simp del]

fun feed_all :: "bytes \<Rightarrow> ws_reader \<Rightarrow> ws_effect list \<times> ws_reader" where
  "feed_all [] r = ([], r)"
| "feed_all (b # bs) r =
     (case processReadByte b r of ((ok, es), r) \<Rightarrow> case feed_all bs r of (es', r) \<Rightarrow> (es @ es', r))"

text \<open>The bytes behind the headers go to the parser at once, whatever it answers.\<close>

definition wsUpgrade :: "string list \<Rightarrow> ws_reader \<Rightarrow> (ws_effect list \<times> ws_reader \<times> string list) option" where
  "wsUpgrade reads r =
     (case read_headers '''' reads of
        None \<Rightarrow> None
      | Some (response, reads) \<Rightarrow>
          if find_sub ''101'' response = None then None
          else let headerEnd = the (find_sub (crlf @ crlf) response) + 4
            in case feed_all (map to_byte (drop headerEnd response)) r of (es, r) \<Rightarrow> Some (es, r, reads))"

subsection \<open>The read loop and the resources\<close>

text \<open>What an \<open>SSL_read\<close> returns, with \<open>Stopped\<close> for a test of the flags after \<open>close\<close> cleared them.\<close>

datatype ssl_read = Data bytes | Closed | Again | Broken | Stopped

fun read_loop :: "ssl_read list \<Rightarrow> ws_reader \<Rightarrow> ws_effect list \<times> ws_reader" where
  "read_loop [] r = ([], r)"
| "read_loop (Data d # rs) r =
     (case feed d r of
        ((False, es), r) \<Rightarrow> (es, r)
      | ((True, es), r) \<Rightarrow> (case read_loop rs r of (es', r) \<Rightarrow> (es @ es', r)))"
| "read_loop (Again # rs) r = read_loop rs r"
| "read_loop (_ # rs) r = ([], r)"

text \<open>The members that own something, and what is still allocated: the descriptors that are open and
  the TLS objects that were not freed.\<close>

record ws_resources =
  sockfd :: "nat option"
  ssl :: "nat option"
  ssl_ctx :: "nat option"
  closing :: bool
  open_fds :: "nat set"
  live_ssl :: "nat set"

text \<open>The end of \<open>readLoop\<close>: whether the close callback runs, and the members cleared.\<close>

definition read_loop_end :: "ws_resources \<Rightarrow> bool \<times> ws_resources" where
  "read_loop_end w = (\<not> closing w, w\<lparr>ssl := None, ssl_ctx := None, sockfd := None\<rparr>)"

text \<open>\<open>close\<close> in its three parts: the socket, the wait for the thread, the TLS objects.\<close>

definition close_socket :: "ws_resources \<Rightarrow> ws_resources" where
  "close_socket w =
     (let w = w\<lparr>closing := True\<rparr>
      in case sockfd w of
           None \<Rightarrow> w
         | Some fd \<Rightarrow> w\<lparr>open_fds := open_fds w - {fd}, sockfd := None\<rparr>)"

definition free_tls :: "ws_resources \<Rightarrow> ws_resources" where
  "free_tls w =
     w\<lparr>live_ssl := live_ssl w - set_option (ssl w) - set_option (ssl_ctx w), ssl := None, ssl_ctx := None\<rparr>"

definition ws_close :: "bool \<Rightarrow> ws_resources \<Rightarrow> ws_resources" where
  "ws_close thread_reading w =
     (let w = close_socket w
      in free_tls (if thread_reading then snd (read_loop_end w) else w))"

text \<open>Called on the reading thread itself, from the frame callback, \<open>close\<close> waits for its own thread:
  \<open>join\<close> throws, and the TLS objects stay.\<close>

definition ws_close_from_callback :: "ws_resources \<Rightarrow> unit outcome \<times> ws_resources" where
  "ws_close_from_callback w = (Throw, close_socket w)"

subsection \<open>The parser reads RFC 6455\<close>

text \<open>A frame with the FIN bit, as the RFC lays it out; servers send without a key.\<close>

definition rfc_length :: "u8 \<Rightarrow> nat \<Rightarrow> bytes" where
  "rfc_length m n =
     (if n \<le> 125 then [m OR word_of_nat n]
      else if n \<le> 65535 then [m OR 126, word_of_nat (n div 256), word_of_nat n]
      else [m OR 127] @ map (\<lambda>i. word_of_nat (n div 2 ^ (i * 8))) (rev [0..<8]))"

text \<open>Octet \<open>i\<close> of the masked data is octet \<open>i\<close> of the data XOR octet \<open>i mod 4\<close> of the key.\<close>

definition rfc_mask :: "bytes \<Rightarrow> bytes \<Rightarrow> bytes" where
  "rfc_mask k d = map2 (\<lambda>i b. b XOR k ! (i mod 4)) [0..<length d] d"

definition rfc_frame :: "bytes option \<Rightarrow> u8 \<Rightarrow> bytes \<Rightarrow> bytes" where
  "rfc_frame key opcode d =
     [0x80 OR opcode] @ rfc_length (if key = None then 0 else 0x80) (length d)
     @ (case key of None \<Rightarrow> d | Some k \<Rightarrow> k @ rfc_mask k d)"

lemma rfc_mask_code: "rfc_mask k d = unmask k d"
  by (rule nth_equalityI) (simp_all add: rfc_mask_def unmask_def)

lemma sent_is_rfc: "sendWsFrame True key opcode d = Some (rfc_frame (Some key) opcode d)"
  by (simp add: sendWsFrame_def rfc_frame_def rfc_length_def rfc_mask_code unmask_def Let_def)

definition frame_fits :: "bytes option \<times> u8 \<times> bytes \<Rightarrow> bool" where
  "frame_fits f = (case f of (key, opcode, d) \<Rightarrow>
     opcode < 16 \<and> d \<noteq> [] \<and> length d \<le> 65535 \<and> (\<forall>k. key = Some k \<longrightarrow> length k = 4))"

lemma length_unmask [simp]: "length (unmask k d) = length d"
  by (simp add: unmask_def)

lemma unmask_unmask: "length k = 4 \<Longrightarrow> unmask k (unmask k d) = d"
  by (rule nth_equalityI) (simp_all add: unmask_def xor.assoc)

lemma feed_append:
  "feed xs r = ((True, es), r') \<Longrightarrow>
     feed (xs @ ys) r = (case feed ys r' of ((ok, es'), r'') \<Rightarrow> ((ok, es @ es'), r''))"
  by (induction xs arbitrary: r es) (auto split: prod.splits bool.splits)

lemma feed_stop: "feed xs r = ((False, es), r') \<Longrightarrow> feed (xs @ ys) r = ((False, es), r')"
  by (induction xs arbitrary: r es) (auto split: prod.splits bool.splits)

definition at_start :: "ws_reader \<Rightarrow> bool" where
  "at_start r = (readState r = HEADER1 \<and> length (frameMask r) = 4)"

definition reading :: "ws_reader \<Rightarrow> u8 \<Rightarrow> bytes option \<Rightarrow> nat \<Rightarrow> bool" where
  "reading r opcode key n =
     (readState r = PAYLOAD \<and> frameOpcode r = opcode \<and> frameLen r = word_of_nat n
      \<and> frameRead r = word_of_nat (length (frameBuf r)) \<and> length (frameMask r) = 4
      \<and> (case key of None \<Rightarrow> \<not> frameMasked r | Some k \<Rightarrow> frameMasked r \<and> frameMask r = k))"

lemma u64_le: "m < 2 ^ 64 \<Longrightarrow> n < 2 ^ 64 \<Longrightarrow> (word_of_nat m :: u64) \<le> word_of_nat n \<longleftrightarrow> m \<le> n"
  by (simp add: word_of_nat_less_eq_iff take_bit_nat_eq_self)

lemma payload_read:
  assumes "reading r opcode key (length (frameBuf r) + length d)" "d \<noteq> []" "length (frameBuf r) + length d < 2 ^ 64"
  shows "\<exists>r'. feed d r = (dispatch opcode (case key of None \<Rightarrow> frameBuf r @ d | Some k \<Rightarrow> unmask k (frameBuf r @ d)), r')
    \<and> at_start r'"
  using assms
proof (induction d arbitrary: r)
  case (Cons b d)
  define r1 where "r1 = r\<lparr>frameBuf := frameBuf r @ [b], frameRead := frameRead r + 1\<rparr>"
  have n: "frameRead r1 = word_of_nat (length (frameBuf r) + 1)" "frameLen r1 = word_of_nat (length (frameBuf r) + Suc (length d))"
    using Cons.prems(1) by (simp_all add: r1_def reading_def)
  have le: "frameLen r1 \<le> frameRead r1 \<longleftrightarrow> d = []"
    unfolding n using Cons.prems(3) by (subst u64_le) auto
  have p: "readState r = PAYLOAD" using Cons.prems(1) by (simp add: reading_def)
  show ?case
  proof (cases "d = []")
    case True
    obtain ok es where dsp: "dispatch opcode (case key of None \<Rightarrow> frameBuf r @ [b] | Some k \<Rightarrow> unmask k (frameBuf r @ [b])) = (ok, es)"
      by fastforce
    have "processReadByte b r = ((ok, es), r1\<lparr>readState := HEADER1, frameBuf := [], frameRead := 0\<rparr>)"
      using le True dsp p Cons.prems(1)
      by (auto simp: processReadByte_def r1_def Let_def reading_def split: option.splits)
    then show ?thesis using True dsp Cons.prems(1)
      by (cases ok) (auto simp: at_start_def r1_def reading_def)
  next
    case False
    have "processReadByte b r = ((True, []), r1)"
      using le False p by (simp add: processReadByte_def r1_def Let_def)
    moreover have "reading r1 opcode key (length (frameBuf r1) + length d)"
      using Cons.prems(1) by (simp add: reading_def r1_def split: option.splits)
    moreover have "length (frameBuf r1) + length d < 2 ^ 64" using Cons.prems(3) by (simp add: r1_def)
    ultimately obtain r' where r': "feed d r1 = (dispatch opcode (case key of None \<Rightarrow> frameBuf r1 @ d | Some k \<Rightarrow> unmask k (frameBuf r1 @ d)), r')"
      "at_start r'" "processReadByte b r = ((True, []), r1)"
      using Cons.IH False by blast
    obtain ok es where dsp: "dispatch opcode (case key of None \<Rightarrow> frameBuf r1 @ d | Some k \<Rightarrow> unmask k (frameBuf r1 @ d)) = (ok, es)"
      by fastforce
    have buf: "frameBuf r1 @ d = frameBuf r @ b # d" by (simp add: r1_def)
    show ?thesis using r' dsp unfolding buf by simp
  qed
qed simp

lemma four_bytes:
  assumes "length k = 4"
  obtains a b c d where "k = [a, b, c, d]"
proof -
  have "length k = Suc (Suc (Suc (Suc 0)))" using assms by simp
  then show thesis using that unfolding length_Suc_conv by blast
qed

lemma mask_read:
  assumes "readState r = MASK_KEY" "maskRead r = 0" "length (frameMask r) = 4" "length k = 4"
  shows "feed k r = ((True, []), r\<lparr>frameMask := k, maskRead := 4, readState := PAYLOAD\<rparr>)"
proof -
  obtain a b c d where k: "k = [a, b, c, d]" using assms(4) by (rule four_bytes)
  obtain a' b' c' d' where m: "frameMask r = [a', b', c', d']" using assms(3) by (rule four_bytes)
  show ?thesis using assms(1,2) by (simp add: k m processReadByte_def Let_def)
qed

lemma bit_of_flag: "bit (0x80 :: int) i \<longleftrightarrow> i = 7"
proof -
  have "(0x80 :: int) = 2 ^ 7" by simp
  then show ?thesis by (simp only: bit_exp_iff) auto
qed

lemma opcode_kept: "(w :: u8) < 16 \<Longrightarrow> (0x80 OR w) AND 0x0f = w"
  using bit_below[of w 4] unfolding masks by (intro bit_word_eqI) (auto simp: bit_simps bit_of_flag)

lemma length_kept:
  assumes "(w :: u8) < 2 ^ 7"
  shows "(0x80 OR w) AND 0x7f = w" "w AND 0x7f = w" "(0x80 OR w) AND 0x80 \<noteq> 0" "w AND 0x80 = 0"
proof -
  note below = bit_below[OF assms]
  show "(0x80 OR w) AND 0x7f = w" "w AND 0x7f = w"
    using below unfolding masks by - (rule bit_word_eqI, auto simp: bit_simps bit_of_flag)+
  have "bit ((0x80 OR w) AND 0x80) 7" by (simp add: bit_simps bit_of_flag)
  then show "(0x80 OR w) AND 0x80 \<noteq> 0" by (metis bit_0_eq bot_apply bot_bool_def)
  show "w AND 0x80 = 0" using below by (intro bit_word_eqI) (auto simp: bit_simps bit_of_flag)
qed

lemma two_bytes:
  assumes "n \<le> 65535"
  shows "push_bit 8 (push_bit 8 0 OR ucast (word_of_nat (n div 256) :: u8)) OR ucast (word_of_nat n :: u8)
    = (word_of_nat n :: u64)"
proof -
  have "n < 2 ^ 16" using assms by simp
  then have below: "i < 16" if "bit n i" for i
    using that take_bit_nat_eq_self[of n 16] by (metis bit_take_bit_iff)
  have d: "n div 256 = drop_bit 8 n" by (simp add: drop_bit_eq_div)
  show ?thesis unfolding d
    by (rule bit_word_eqI) (auto simp: bit_simps dest: below)
qed

lemma length_read:
  assumes "readState r = HEADER2" "n \<le> 65535"
  shows "\<exists>r'. feed (rfc_length (if key = None then 0 else 0x80) n) r = ((True, []), after_length r')
    \<and> frameMasked r' = (key \<noteq> None) \<and> frameLen r' = word_of_nat n \<and> frameOpcode r' = frameOpcode r
    \<and> frameBuf r' = frameBuf r \<and> frameRead r' = frameRead r \<and> frameMask r' = frameMask r"
proof (cases "n \<le> 125")
  case True
  define w where "w = (word_of_nat n :: u8)"
  have w: "w < 2 ^ 7" using True by (simp add: w_def word_less_nat_alt unat_of_nat take_bit_nat_eq_self)
  have u: "(ucast w :: u64) = word_of_nat n"
    using True by (simp add: w_def unsigned_of_nat take_bit_nat_eq_self)
  have small: "(word_of_nat n :: u64) \<noteq> 126" "(word_of_nat n :: u64) \<noteq> 127"
    using True by (auto simp: word_eq_iff_unsigned unat_of_nat take_bit_nat_eq_self dest: arg_cong[of _ _ unat])
  show ?thesis
    using assms(1) True length_kept[OF w] u small
    by (cases key) (auto simp: rfc_length_def processReadByte_def Let_def w_def[symmetric])
next
  case False
  let ?r = "\<lambda>m. r\<lparr>frameMasked := m, frameLen := word_of_nat n, extLenRead := 2, readState := EXT_LEN\<rparr>"
  have "feed (rfc_length (if key = None then 0 else 0x80) n) r = ((True, []), after_length (?r (key \<noteq> None)))"
    using assms False two_bytes[OF assms(2)]
    by (cases key) (simp_all add: rfc_length_def processReadByte_def Let_def after_length_def)
  then show ?thesis by auto
qed

lemma frame_read:
  assumes "at_start r" "frame_fits (key, opcode, d)"
  shows "\<exists>r'. feed (rfc_frame key opcode d) r = (dispatch opcode d, r') \<and> at_start r'"
proof -
  have fits: "opcode < 16" "d \<noteq> []" "length d \<le> 65535" "\<And>k. key = Some k \<Longrightarrow> length k = 4"
    using assms(2) by (auto simp: frame_fits_def)
  define r1 where "r1 = r\<lparr>frameOpcode := opcode, readState := HEADER2, frameBuf := [], frameRead := 0\<rparr>"
  have one: "feed [0x80 OR opcode] r = ((True, []), r1)"
    using assms(1) opcode_kept[OF fits(1)] by (simp add: at_start_def processReadByte_def r1_def)
  obtain r2 where r2: "feed (rfc_length (if key = None then 0 else 0x80) (length d)) r1 = ((True, []), after_length r2)"
    "frameMasked r2 = (key \<noteq> None)" "frameLen r2 = word_of_nat (length d)" "frameOpcode r2 = opcode"
    "frameBuf r2 = []" "frameRead r2 = 0" "length (frameMask r2) = 4"
    using length_read[of r1 "length d" key] fits(3) assms(1) by (auto simp: r1_def at_start_def)
  have len: "length d < 2 ^ 64" using fits(3) by simp
  show ?thesis
  proof (cases key)
    case None
    have "reading (after_length r2) opcode None (length d)" "frameBuf (after_length r2) = []"
      using r2 None by (simp_all add: reading_def after_length_def)
    then obtain r' where "feed d (after_length r2) = (dispatch opcode d, r')" "at_start r'"
      using payload_read[of "after_length r2" opcode None d] fits(2) len by auto
    then show ?thesis using one r2(1) None unfolding rfc_frame_def
      by (cases "dispatch opcode d") (simp only: feed_append, simp)
  next
    case (Some k)
    have k: "length k = 4" using fits(4) Some by simp
    define r3 where "r3 = (after_length r2)\<lparr>frameMask := k, maskRead := 4, readState := PAYLOAD\<rparr>"
    have m: "feed k (after_length r2) = ((True, []), r3)"
      unfolding r3_def by (rule mask_read) (use r2 Some k in \<open>simp_all add: after_length_def\<close>)
    have "reading r3 opcode (Some k) (length (unmask k d))" "frameBuf r3 = []"
      using r2 Some k by (simp_all add: reading_def after_length_def r3_def)
    moreover have "unmask k d \<noteq> []" using fits(2) by (metis length_unmask length_0_conv)
    ultimately obtain r' where "feed (unmask k d) r3 = (dispatch opcode d, r')" "at_start r'"
      using payload_read[of r3 opcode "Some k" "unmask k d"] len unmask_unmask[OF k] by auto
    then show ?thesis using one r2(1) m Some unfolding rfc_frame_def rfc_mask_code
      by (cases "dispatch opcode d") (simp only: feed_append, simp add: feed_append)
  qed
qed

text \<open>What a list of frames is to the rest of the program: up to the first close frame, its messages
  and the answers to its pings.\<close>

fun deliver :: "(bytes option \<times> u8 \<times> bytes) list \<Rightarrow> ws_effect list" where
  "deliver [] = []"
| "deliver ((key, opcode, d) # fs) = snd (dispatch opcode d) @ (if opcode = 8 then [] else deliver fs)"

lemma feed_frames:
  assumes "at_start r" "\<forall>f \<in> set fs. frame_fits f"
  shows "\<exists>ok r'. feed (concat (map (\<lambda>(key, opcode, d). rfc_frame key opcode d) fs)) r = ((ok, deliver fs), r')"
  using assms
proof (induction fs arbitrary: r)
  case (Cons f fs)
  obtain key opcode d where f: "f = (key, opcode, d)" by (cases f)
  obtain r' where r': "feed (rfc_frame key opcode d) r = (dispatch opcode d, r')" "at_start r'"
    using frame_read[of r key opcode d] Cons.prems f by auto
  have ok: "fst (dispatch opcode d) = (opcode \<noteq> 8)" by (simp add: dispatch_def)
  show ?case
  proof (cases "opcode = 8")
    case True
    then show ?thesis using r'(1) ok by (cases "dispatch opcode d") (auto simp: f feed_stop)
  next
    case False
    obtain ok' r'' where "feed (concat (map (\<lambda>(key, opcode, d). rfc_frame key opcode d) fs)) r' = ((ok', deliver fs), r'')"
      using Cons.IH[OF r'(2)] Cons.prems(2) by auto
    then show ?thesis using False r'(1) ok by (cases "dispatch opcode d") (auto simp: f feed_append)
  qed
qed auto

lemma read_loop_concat:
  "fst (read_loop (map Data chunks @ [Closed]) r) = snd (fst (feed (concat chunks) r))"
proof (induction chunks arbitrary: r)
  case (Cons c chunks)
  obtain ok es r' where c: "feed c r = ((ok, es), r')" by (metis prod.exhaust)
  then show ?case using Cons.IH[of r']
    by (cases ok) (simp_all add: feed_append feed_stop case_prod_beta)
qed simp

text \<open>C40: However the network cuts the stream, the read loop hands on the messages of the frames and
  answers their pings, in order, up to the first close frame, as long as no frame is empty or longer
  than 65535 bytes.\<close>

theorem ws_stream_read:
  assumes "\<forall>f \<in> set fs. frame_fits f"
    and "concat chunks = concat (map (\<lambda>(key, opcode, d). rfc_frame key opcode d) fs)"
  shows "fst (read_loop (map Data chunks @ [Closed]) fresh_reader) = deliver fs"
proof -
  have "at_start fresh_reader" by (simp add: at_start_def fresh_reader_def)
  from feed_frames[OF this assms(1)] show ?thesis unfolding read_loop_concat assms(2) by auto
qed

lemma ws_stream_read_witness:
  "fst (read_loop (map Data [[0x82, 0x02, 7], [9, 0x89, 0x81, 1, 2, 3, 4, 0x54]] @ [Closed]) fresh_reader)
     = [FrameCb [7, 9], SendFrame 0x0A [0x55]]"
proof -
  let ?fs = "[(None, 0x2, [7, 9]), (Some [1, 2, 3, 4], 0x9, [0x55])] :: (bytes option \<times> u8 \<times> bytes) list"
  have d: "deliver ?fs = [FrameCb [7, 9], SendFrame 0x0A [0x55]]" by (simp add: dispatch_def)
  have fits: "\<forall>f \<in> set ?fs. frame_fits f" by (simp add: frame_fits_def)
  have "concat [[0x82, 0x02, 7], [9, 0x89, 0x81, 1, 2, 3, 4, 0x54 :: u8]]
      = concat (map (\<lambda>(key, opcode, d). rfc_frame key opcode d) ?fs)"
    by (simp add: rfc_frame_def rfc_length_def rfc_mask_code unmask_def)
  from ws_stream_read[OF fits this] show ?thesis unfolding d .
qed

subsection \<open>Edges\<close>

text \<open>The test for the end of a frame comes after a byte of payload: an empty frame, such as the pings of
  many servers, takes the first byte of the next frame for its payload.\<close>

lemma empty_frame_takes_byte:
  assumes "at_start r" "opcode < 16"
  shows "\<exists>r'. feed (rfc_frame None opcode [] @ [b]) r = (dispatch opcode [b], r') \<and> at_start r'"
proof -
  define r1 where "r1 = r\<lparr>frameOpcode := opcode, readState := HEADER2, frameBuf := [], frameRead := 0\<rparr>"
  have one: "processReadByte (0x80 OR opcode) r = ((True, []), r1)"
    using assms(1) opcode_kept[OF assms(2)] by (simp add: at_start_def processReadByte_def r1_def)
  obtain ok es where "dispatch opcode [b] = (ok, es)" by fastforce
  then show ?thesis using one assms(1)
    by (cases ok) (simp_all add: rfc_frame_def rfc_length_def r1_def processReadByte_def after_length_def Let_def at_start_def)
qed

lemma empty_ping_loses_message:
  "fst (read_loop [Data (rfc_frame None 0x9 [] @ rfc_frame None 0x2 [7, 9]), Closed] fresh_reader)
    = [SendFrame 0x0A [0x82]]"
  by code_simp

text \<open>Of the eight bytes of a long length two are read, and the first bytes of the length itself are taken
  for a message.\<close>

lemma long_frame_misread:
  assumes "at_start r" "65535 < length d" "length d < 2 ^ 40"
  shows "\<exists>es. snd (fst (feed (rfc_frame None 0x2 d) r)) = FrameCb [0] # es"
proof -
  have top: "(word_of_nat (length d div 2 ^ (k * 8)) :: u8) = 0" if "5 \<le> k" for k
  proof -
    have "(2 :: nat) ^ 40 \<le> 2 ^ (k * 8)" using that by (intro power_increasing) auto
    then have "length d div 2 ^ (k * 8) = 0" using assms(3) by (intro div_less) linarith
    then show ?thesis by simp
  qed
  have list: "rev [0..<8] = [7, 6, 5, 4, 3, 2, 1, 0::nat]" by code_simp
  have bytes: "rfc_frame None 0x2 d = [0x82, 127, 0, 0, 0] @ map (\<lambda>i. word_of_nat (length d div 2 ^ (i * 8))) [4, 3, 2, 1, 0] @ d"
    using assms(2) top[of 7] top[of 6] top[of 5] unfolding rfc_frame_def rfc_length_def list by simp
  have "\<exists>r'. feed [0x82, 127, 0, 0, 0] r = ((True, [FrameCb [0]]), r')"
    using assms(1) by (simp add: processReadByte_def at_start_def Let_def after_length_def dispatch_def)
  then obtain r' where "feed [0x82, 127, 0, 0, 0] r = ((True, [FrameCb [0]]), r')" by blast
  then show ?thesis unfolding bytes by (simp only: feed_append) (simp add: case_prod_beta)
qed

text \<open>When the other side closes, the read loop clears the members before \<open>close\<close> looks at them: the
  socket stays open and the TLS objects are never freed.\<close>

lemma remote_close_leaks:
  assumes "ws_close False (snd (read_loop_end w)) = w'"
  shows "open_fds w' = open_fds w" "live_ssl w' = live_ssl w"
  using assms by (auto simp: ws_close_def read_loop_end_def close_socket_def free_tls_def Let_def)

text \<open>The order the header describes, with \<open>close\<close> first, closes the socket but frees no TLS object
  either: the loop that it waits for clears the members.\<close>

lemma local_close_leaks_tls:
  assumes "sockfd w = Some fd" "ws_close True w = w'"
  shows "open_fds w' = open_fds w - {fd}" "live_ssl w' = live_ssl w"
  using assms by (auto simp: ws_close_def read_loop_end_def close_socket_def free_tls_def Let_def)

end
