(* ===== verification/WABinary.thy ===== *)
theory WABinary
  imports WATokens Bytes Json "HOL-Library.Sublist"
begin

unbundle bit_operations_syntax

text \<open>
  The binary node format of the WhatsApp protocol (\<open>src/kernel/whatsapp/WABinary.cpp\<close> and its
  header): the encoder, the decoder and the utilities on nodes. The encoder's buffer is the list
  of bytes a call appends, the decoder's position is the list of bytes still unread. A
  \<open>std::runtime_error\<close> or the \<open>std::invalid_argument\<close> of \<open>stoi\<close> is \<open>Throw\<close>; \<open>Trap\<close> is undefined
  behaviour (\<open>pop_back\<close> on an empty string). A byte tag has the name \<open>WABinary.h\<close> gives it.
\<close>

subsection \<open>Tags\<close>

abbreviation LIST_EMPTY :: u8 where "LIST_EMPTY \<equiv> 0"
abbreviation DICTIONARY_0 :: u8 where "DICTIONARY_0 \<equiv> 236"
abbreviation DICTIONARY_3 :: u8 where "DICTIONARY_3 \<equiv> 239"
abbreviation AD_JID :: u8 where "AD_JID \<equiv> 247"
abbreviation LIST_8 :: u8 where "LIST_8 \<equiv> 248"
abbreviation LIST_16 :: u8 where "LIST_16 \<equiv> 249"
abbreviation JID_PAIR :: u8 where "JID_PAIR \<equiv> 250"
abbreviation HEX_8 :: u8 where "HEX_8 \<equiv> 251"
abbreviation BINARY_8 :: u8 where "BINARY_8 \<equiv> 252"
abbreviation BINARY_20 :: u8 where "BINARY_20 \<equiv> 253"
abbreviation BINARY_32 :: u8 where "BINARY_32 \<equiv> 254"
abbreviation NIBBLE_8 :: u8 where "NIBBLE_8 \<equiv> 255"
abbreviation PACKED_MAX :: nat where "PACKED_MAX \<equiv> 127"

subsection \<open>JIDs\<close>

record full_jid =
  user :: string
  server :: string
  device :: int
  domainType :: int

definition jidEncode :: "string \<Rightarrow> string \<Rightarrow> int \<Rightarrow> string" where
  "jidEncode u srv dev = u @ (if dev > 0 then '':'' @ int_text dev else '''') @ ''@'' @ srv"

definition domain_of :: "string \<Rightarrow> int" where
  "domain_of srv = (if srv = ''lid'' then 1 else if srv = ''hosted'' then 128
     else if srv = ''hosted.lid'' then 129 else 0)"

definition jidDecode :: "string \<Rightarrow> full_jid option outcome" where
  "jidDecode jid =
     (if CHR ''@'' \<notin> set jid then Ret None
      else let srv = after CHR ''@'' jid; userCombined = before CHR ''@'' jid
        in if CHR '':'' \<in> set userCombined
           then (case stoi (after CHR '':'' userCombined) of
                   None \<Rightarrow> Throw
                 | Some d \<Rightarrow> Ret (Some \<lparr>user = before CHR '':'' userCombined, server = srv,
                                       device = d, domainType = domain_of srv\<rparr>))
           else Ret (Some \<lparr>user = userCombined, server = srv, device = 0,
                           domainType = domain_of srv\<rparr>))"

definition isJidGroup :: "string \<Rightarrow> bool" where
  "isJidGroup jid = (5 < length jid \<and> drop (length jid - 5) jid = ''@g.us'')"

definition isLidUser :: "string \<Rightarrow> bool" where
  "isLidUser jid = (4 < length jid \<and> drop (length jid - 4) jid = ''@lid'')"

subsection \<open>Nodes\<close>

datatype BinaryNode = BinaryNode (tag: string) (attrs: "(string \<times> string) list")
    (content: BinaryNodeContent)
  and BinaryNodeContent = Monostate | Str string | Bytes bytes | Nodes "BinaryNode list"

fun set_attr :: "string \<Rightarrow> string \<Rightarrow> (string \<times> string) list \<Rightarrow> (string \<times> string) list" where
  "set_attr k v [] = [(k, v)]"
| "set_attr k v ((k', v') # as) = (if k' = k then (k', v) # as else (k', v') # set_attr k v as)"

definition setAttr :: "string \<Rightarrow> string \<Rightarrow> BinaryNode \<Rightarrow> BinaryNode" where
  "setAttr k v n = BinaryNode (tag n) (set_attr k v (attrs n)) (content n)"

definition getAttr :: "BinaryNode \<Rightarrow> string \<Rightarrow> string \<Rightarrow> string" where
  "getAttr n k dflt = (case map_of (attrs n) k of None \<Rightarrow> dflt | Some v \<Rightarrow> v)"

definition getBinaryNodeChildren :: "BinaryNode \<Rightarrow> string \<Rightarrow> BinaryNode list" where
  "getBinaryNodeChildren n t =
     (case content n of Nodes cs \<Rightarrow> filter (\<lambda>c. tag c = t) cs | _ \<Rightarrow> [])"

definition getBinaryNodeChild :: "BinaryNode \<Rightarrow> string \<Rightarrow> BinaryNode option" where
  "getBinaryNodeChild n t =
     (case content n of Nodes cs \<Rightarrow> find (\<lambda>c. tag c = t) cs | _ \<Rightarrow> None)"

subsection \<open>Encoder\<close>

definition pushInt16 :: "u16 \<Rightarrow> bytes" where
  "pushInt16 v = [ucast (drop_bit 8 v), ucast (v AND 0xff)]"

definition pushInt20 :: "u32 \<Rightarrow> bytes" where
  "pushInt20 v = [ucast (drop_bit 16 v AND 0x0f), ucast (drop_bit 8 v AND 0xff), ucast (v AND 0xff)]"

definition pushInt32 :: "u32 \<Rightarrow> bytes" where
  "pushInt32 v = [ucast (drop_bit 24 v), ucast (drop_bit 16 v AND 0xff),
     ucast (drop_bit 8 v AND 0xff), ucast (v AND 0xff)]"

definition writeByteLength :: "nat \<Rightarrow> bytes" where
  "writeByteLength len =
     (if len \<ge> 2 ^ 20 then BINARY_32 # pushInt32 (word_of_nat len)
      else if len \<ge> 256 then BINARY_20 # pushInt20 (word_of_nat len)
      else [BINARY_8, word_of_nat len])"

definition writeStringRaw :: "string \<Rightarrow> bytes" where
  "writeStringRaw s = writeByteLength (length s) @ map to_byte s"

definition packNibble :: "char \<Rightarrow> u8 outcome" where
  "packNibble c =
     (if is_digit c then Ret (to_byte c - 48)
      else if c = CHR ''-'' then Ret 10
      else if c = CHR ''.'' then Ret 11
      else Throw)"

definition is_upper_hex :: "char \<Rightarrow> bool" where
  "is_upper_hex c = (65 \<le> (of_char c :: nat) \<and> (of_char c :: nat) \<le> 70)"

definition is_lower_hex :: "char \<Rightarrow> bool" where
  "is_lower_hex c = (97 \<le> (of_char c :: nat) \<and> (of_char c :: nat) \<le> 102)"

definition packHex :: "char \<Rightarrow> u8 outcome" where
  "packHex c =
     (if is_digit c then Ret (to_byte c - 48)
      else if is_upper_hex c then Ret (10 + to_byte c - 65)
      else if is_lower_hex c then Ret (10 + to_byte c - 97)
      else Throw)"

definition isNibble :: "string \<Rightarrow> bool" where
  "isNibble s = (s \<noteq> [] \<and> length s \<le> PACKED_MAX
     \<and> list_all (\<lambda>c. is_digit c \<or> c = CHR ''-'' \<or> c = CHR ''.'') s)"

definition isHex :: "string \<Rightarrow> bool" where
  "isHex s = (s \<noteq> [] \<and> length s \<le> PACKED_MAX \<and> list_all (\<lambda>c. is_digit c \<or> is_upper_hex c) s)"

text \<open>Two characters to a byte; the low half of a last odd one is filled with \<open>0x0f\<close>.\<close>

fun pack_pairs :: "(char \<Rightarrow> u8 outcome) \<Rightarrow> string \<Rightarrow> bytes outcome" where
  "pack_pairs fn [] = Ret []"
| "pack_pairs fn [c] = bind_outcome (fn c) (\<lambda>h. Ret [push_bit 4 h OR 0x0f])"
| "pack_pairs fn (c # d # s) =
     bind_outcome (fn c) (\<lambda>h. bind_outcome (fn d) (\<lambda>l.
       bind_outcome (pack_pairs fn s) (\<lambda>bs. Ret ((push_bit 4 h OR l) # bs))))"

definition writePackedBytes :: "string \<Rightarrow> bool \<Rightarrow> bytes outcome" where
  "writePackedBytes s nibble =
     (let rounded = (word_of_nat ((length s + 1) div 2) :: u8);
          start = (if odd (length s) then rounded OR 128 else rounded)
      in bind_outcome (pack_pairs (if nibble then packNibble else packHex) s)
           (\<lambda>bs. Ret ((if nibble then NIBBLE_8 else HEX_8) # start # bs)))"

text \<open>What two calls append one after the other; the first exception ends the encoding.\<close>

definition cat :: "bytes outcome \<Rightarrow> bytes outcome \<Rightarrow> bytes outcome" where
  "cat a b = bind_outcome a (\<lambda>x. bind_outcome b (\<lambda>y. Ret (x @ y)))"

definition writeToken :: "int \<times> int \<Rightarrow> bytes" where
  "writeToken t = (case t of (dict, index) \<Rightarrow>
     (if dict \<ge> 0 then [DICTIONARY_0 + word_of_int dict] else []) @ [word_of_int index])"

lemma bind_outcome_cong [fundef_cong]:
  "m = m' \<Longrightarrow> (\<And>x. m' = Ret x \<Longrightarrow> f x = f' x) \<Longrightarrow> bind_outcome m f = bind_outcome m' f'"
  by (cases m') auto

lemma jidDecode_shorter:
  assumes "jidDecode s = Ret (Some j)"
  shows "length (user j) < length s" "length (server j) < length s"
proof -
  have at: "CHR ''@'' \<in> set s" using assms by (auto simp: jidDecode_def split: if_splits)
  obtain u v where s: "s = u @ CHR ''@'' # v" and nin: "CHR ''@'' \<notin> set u"
    using split_list_first[OF at] by blast
  have tw: "takeWhile (\<lambda>d. d \<noteq> CHR ''@'') s = u" and dw: "dropWhile (\<lambda>d. d \<noteq> CHR ''@'') s = CHR ''@'' # v"
    using nin s by (auto simp: takeWhile_append dropWhile_append)
  have "length (before c u) \<le> length u" for c by (simp add: before_def length_takeWhile_le)
  then show "length (user j) < length s" "length (server j) < length s"
    using assms s tw dw
    by (auto simp: jidDecode_def Let_def before_def after_def less_Suc_eq_le trans_le_add1
        split: if_splits option.splits)
qed

function writeString :: "string \<Rightarrow> bytes outcome" and writeJid :: "full_jid \<Rightarrow> bytes outcome" where
  "writeString s =
     (if s = [] then Ret (writeStringRaw s)
      else case map_of TOKEN_MAP s of
          Some t \<Rightarrow> Ret (writeToken t)
        | None \<Rightarrow>
            if isNibble s then writePackedBytes s True
            else if isHex s then writePackedBytes s False
            else (case jidDecode s of
                Ret (Some j) \<Rightarrow> writeJid j
              | Ret None \<Rightarrow> Ret (writeStringRaw s)
              | Throw \<Rightarrow> Throw
              | Trap \<Rightarrow> Trap))"
| "writeJid j =
     (if device j > 0
      then cat (Ret [AD_JID, word_of_int (domainType j), word_of_int (device j)])
             (writeString (user j))
      else cat (Ret [JID_PAIR])
             (cat (if user j = [] then Ret [LIST_EMPTY] else writeString (user j))
                (writeString (server j))))"
  by pat_completeness auto
termination
  by (relation "measure (\<lambda>x. case x of Inl s \<Rightarrow> 2 * length s + 1
        | Inr j \<Rightarrow> 2 * max (length (user j)) (length (server j)) + 2)")
    (auto dest: jidDecode_shorter simp: max_def)

declare writeString.simps [simp del] writeJid.simps [simp del]

definition writeListStart :: "nat \<Rightarrow> bytes" where
  "writeListStart n =
     (if n = 0 then [LIST_EMPTY]
      else if n < 256 then [LIST_8, word_of_nat n]
      else LIST_16 # pushInt16 (word_of_nat n))"

fun writeAttrs :: "(string \<times> string) list \<Rightarrow> bytes outcome" where
  "writeAttrs [] = Ret []"
| "writeAttrs ((k, v) # as) =
     (if v \<noteq> [] then cat (writeString k) (cat (writeString v) (writeAttrs as)) else writeAttrs as)"

definition validAttrs :: "(string \<times> string) list \<Rightarrow> nat" where
  "validAttrs as = length (filter (\<lambda>(k, v). v \<noteq> []) as)"

definition hasContent :: "BinaryNodeContent \<Rightarrow> bool" where
  "hasContent c = (case c of Monostate \<Rightarrow> False | _ \<Rightarrow> True)"

fun encodeNode :: "BinaryNode \<Rightarrow> bytes outcome"
and encodeContent :: "BinaryNodeContent \<Rightarrow> bytes outcome"
and encodeNodes :: "BinaryNode list \<Rightarrow> bytes outcome" where
  "encodeNode (BinaryNode t as c) =
     cat (Ret (writeListStart (2 * validAttrs as + 1 + of_bool (hasContent c))))
       (cat (writeString t) (cat (writeAttrs as) (encodeContent c)))"
| "encodeContent Monostate = Ret []"
| "encodeContent (Str s) = writeString s"
| "encodeContent (Bytes bs) = Ret (writeByteLength (length bs) @ bs)"
| "encodeContent (Nodes cs) = cat (Ret (writeListStart (length cs))) (encodeNodes cs)"
| "encodeNodes [] = Ret []"
| "encodeNodes (c # cs) = cat (encodeNode c) (encodeNodes cs)"

definition encodeBinaryNode :: "BinaryNode \<Rightarrow> bytes outcome" where
  "encodeBinaryNode n = cat (Ret [0]) (encodeNode n)"

subsection \<open>Decoder\<close>

definition readByte :: "bytes \<Rightarrow> (u8 \<times> bytes) outcome" where
  "readByte bs = (case bs of [] \<Rightarrow> Throw | b # bs' \<Rightarrow> Ret (b, bs'))"

definition readBytes :: "nat \<Rightarrow> bytes \<Rightarrow> (bytes \<times> bytes) outcome" where
  "readBytes n bs = (if n \<le> length bs then Ret (take n bs, drop n bs) else Throw)"

definition readInt16 :: "bytes \<Rightarrow> (u16 \<times> bytes) outcome" where
  "readInt16 bs = bind_outcome (readBytes 2 bs) (\<lambda>(b, bs).
     Ret (push_bit 8 (ucast (b ! 0)) OR ucast (b ! 1), bs))"

definition readInt20 :: "bytes \<Rightarrow> (u32 \<times> bytes) outcome" where
  "readInt20 bs = bind_outcome (readBytes 3 bs) (\<lambda>(b, bs).
     Ret (push_bit 16 (ucast (b ! 0) AND 0x0f) OR push_bit 8 (ucast (b ! 1)) OR ucast (b ! 2), bs))"

definition readInt32 :: "bytes \<Rightarrow> (u32 \<times> bytes) outcome" where
  "readInt32 bs = bind_outcome (readBytes 4 bs) (\<lambda>(b, bs).
     Ret (push_bit 24 (ucast (b ! 0)) OR push_bit 16 (ucast (b ! 1))
          OR push_bit 8 (ucast (b ! 2)) OR ucast (b ! 3), bs))"

definition readStr :: "nat \<Rightarrow> bytes \<Rightarrow> (string \<times> bytes) outcome" where
  "readStr n bs = bind_outcome (readBytes n bs) (\<lambda>(b, bs). Ret (map to_char b, bs))"

definition unpackNibble :: "u8 \<Rightarrow> char outcome" where
  "unpackNibble v =
     (if v \<le> 9 then Ret (to_char (48 + v))
      else if v = 10 then Ret (CHR ''-'')
      else if v = 11 then Ret (CHR ''.'')
      else if v = 15 then Ret (CHR 0x00)
      else Throw)"

definition unpackHex :: "u8 \<Rightarrow> char outcome" where
  "unpackHex v =
     (if v < 10 then Ret (to_char (48 + v))
      else if v < 16 then Ret (to_char (65 + v - 10))
      else Throw)"

fun unpack_pairs :: "(u8 \<Rightarrow> char outcome) \<Rightarrow> nat \<Rightarrow> bytes \<Rightarrow> (string \<times> bytes) outcome" where
  "unpack_pairs fn 0 bs = Ret ([], bs)"
| "unpack_pairs fn (Suc n) bs =
     bind_outcome (readByte bs) (\<lambda>(b, bs).
       bind_outcome (fn (drop_bit 4 b)) (\<lambda>c. bind_outcome (fn (b AND 0x0f)) (\<lambda>d.
         bind_outcome (unpack_pairs fn n bs) (\<lambda>(s, bs). Ret (c # d # s, bs)))))"

definition pop_back :: "string \<Rightarrow> string outcome" where
  "pop_back s = (if s = [] then Trap else Ret (butlast s))"

definition readPacked8 :: "u8 \<Rightarrow> bytes \<Rightarrow> (string \<times> bytes) outcome" where
  "readPacked8 t bs =
     bind_outcome (readByte bs) (\<lambda>(start, bs).
       bind_outcome (unpack_pairs (if t = NIBBLE_8 then unpackNibble else unpackHex)
                       (unat (start AND 0x7f)) bs) (\<lambda>(val, bs).
         if drop_bit 7 start \<noteq> 0 then bind_outcome (pop_back val) (\<lambda>val. Ret (val, bs))
         else Ret (val, bs)))"

definition readListSize :: "u8 \<Rightarrow> bytes \<Rightarrow> (nat \<times> bytes) outcome" where
  "readListSize t bs =
     (if t = LIST_EMPTY then Ret (0, bs)
      else if t = LIST_8 then bind_outcome (readByte bs) (\<lambda>(b, bs). Ret (unat b, bs))
      else if t = LIST_16 then bind_outcome (readInt16 bs) (\<lambda>(n, bs). Ret (unat n, bs))
      else Throw)"

definition isListTag :: "u8 \<Rightarrow> bool" where
  "isListTag t = (t = LIST_EMPTY \<or> t = LIST_8 \<or> t = LIST_16)"

definition getTokenDouble :: "int \<Rightarrow> u8 \<Rightarrow> string outcome" where
  "getTokenDouble dict idx =
     (case map_of DOUBLE_BYTE_TOKENS dict of
        None \<Rightarrow> Throw
      | Some d \<Rightarrow> of_opt (map_of d (uint idx)))"

definition ad_server :: "u8 \<Rightarrow> string" where
  "ad_server dt = (if dt = 1 then ''lid'' else if dt = 128 then ''hosted''
     else if dt = 129 then ''hosted.lid'' else ''s.whatsapp.net'')"

function readString :: "u8 \<Rightarrow> bytes \<Rightarrow> (string \<times> bytes) outcome"
and readJidPair :: "bytes \<Rightarrow> (string \<times> bytes) outcome"
and readAdJid :: "bytes \<Rightarrow> (string \<times> bytes) outcome" where
  "readString t bs =
     (if 1 \<le> t \<and> unat t < length SINGLE_BYTE_TOKENS then Ret (SINGLE_BYTE_TOKENS ! unat t, bs)
      else if DICTIONARY_0 \<le> t \<and> t \<le> DICTIONARY_3 then
        bind_outcome (readByte bs) (\<lambda>(i, bs).
          bind_outcome (getTokenDouble (uint t - 236) i) (\<lambda>s. Ret (s, bs)))
      else if t = LIST_EMPTY then Ret ([], bs)
      else if t = BINARY_8 then bind_outcome (readByte bs) (\<lambda>(n, bs). readStr (unat n) bs)
      else if t = BINARY_20 then bind_outcome (readInt20 bs) (\<lambda>(n, bs). readStr (unat n) bs)
      else if t = BINARY_32 then bind_outcome (readInt32 bs) (\<lambda>(n, bs). readStr (unat n) bs)
      else if t = JID_PAIR then readJidPair bs
      else if t = AD_JID then readAdJid bs
      else if t = HEX_8 \<or> t = NIBBLE_8 then readPacked8 t bs
      else Throw)"
| "readJidPair bs =
     bind_outcome (readByte bs) (\<lambda>(t, bs).
       bind_outcome (readString t bs) (\<lambda>(i, bs).
         bind_outcome (readByte bs) (\<lambda>(t, bs).
           bind_outcome (readString t bs) (\<lambda>(j, bs).
             if j = [] then Throw else Ret (i @ ''@'' @ j, bs)))))"
| "readAdJid bs =
     bind_outcome (readByte bs) (\<lambda>(dt, bs).
       bind_outcome (readByte bs) (\<lambda>(dev, bs).
         bind_outcome (readByte bs) (\<lambda>(t, bs).
           bind_outcome (readString t bs) (\<lambda>(u, bs).
             Ret (jidEncode u (ad_server dt) (uint dev), bs)))))"
  by pat_completeness auto

declare length_SINGLE_BYTE_TOKENS [simp]

text \<open>A reader leaves a suffix of what it was given: this bounds its own recursion.\<close>

lemma bind_outcome_Ret [simp]:
  "bind_outcome m f = Ret y \<longleftrightarrow> (\<exists>x. m = Ret x \<and> f x = Ret y)"
  by (cases m) auto

lemma readByte_Ret [simp]: "readByte bs = Ret (b, bs') \<longleftrightarrow> bs = b # bs'"
  by (auto simp: readByte_def split: list.splits)

lemma readByte_Cons [simp]: "readByte (b # bs) = Ret (b, bs)"
  by (simp add: readByte_def)

definition leaves_suffix :: "bytes \<Rightarrow> ('a \<times> bytes) outcome \<Rightarrow> bool" where
  "leaves_suffix bs r = (\<forall>x bs'. r = Ret (x, bs') \<longrightarrow> suffix bs' bs)"

lemma leaves_suffixD: "leaves_suffix bs r \<Longrightarrow> r = Ret (x, bs') \<Longrightarrow> suffix bs' bs"
  by (simp add: leaves_suffix_def)

named_theorems reads "readers leave a suffix of their input"

lemma leaves_Ret [reads]: "leaves_suffix bs (Ret (x, bs))" "leaves_suffix bs Throw"
  "leaves_suffix bs Trap"
  by (simp_all add: leaves_suffix_def)

lemma leaves_if [reads]:
  "(c \<Longrightarrow> leaves_suffix bs a) \<Longrightarrow> (\<not> c \<Longrightarrow> leaves_suffix bs b) \<Longrightarrow> leaves_suffix bs (if c then a else b)"
  by simp

lemma leaves_bind [reads]:
  assumes "leaves_suffix bs r" "\<And>x bs'. r = Ret (x, bs') \<Longrightarrow> leaves_suffix bs' (f x bs')"
  shows "leaves_suffix bs (bind_outcome r (\<lambda>(x, bs). f x bs))"
  using assms by (fastforce simp: leaves_suffix_def intro: suffix_order.order_trans)

lemma leaves_value [reads]:
  assumes "\<And>x. m = Ret x \<Longrightarrow> leaves_suffix bs (f x)"
  shows "leaves_suffix bs (bind_outcome m f)"
  using assms by (cases m) (auto intro: reads)

lemma leaves_readByte [reads]: "leaves_suffix bs (readByte bs)"
  by (auto simp: leaves_suffix_def intro: suffix_ConsI)

lemma leaves_readBytes [reads]: "leaves_suffix bs (readBytes n bs)"
  by (auto simp: leaves_suffix_def readBytes_def suffix_drop split: if_splits)

lemma leaves_readInt [reads]:
  "leaves_suffix bs (readInt16 bs)" "leaves_suffix bs (readInt20 bs)" "leaves_suffix bs (readInt32 bs)"
  unfolding readInt16_def readInt20_def readInt32_def by (intro reads)+

lemma leaves_readStr [reads]: "leaves_suffix bs (readStr n bs)"
  unfolding readStr_def by (intro reads)

lemma leaves_unpack_pairs [reads]: "leaves_suffix bs (unpack_pairs fn n bs)"
proof (induction n arbitrary: bs)
  case 0
  show ?case unfolding unpack_pairs.simps by (intro reads)
next
  case (Suc n)
  show ?case unfolding unpack_pairs.simps by (intro reads Suc)
qed

lemma leaves_readPacked8 [reads]: "leaves_suffix bs (readPacked8 t bs)"
  unfolding readPacked8_def by (intro reads)

lemma leaves_readListSize [reads]: "leaves_suffix bs (readListSize t bs)"
  unfolding readListSize_def by (intro reads)

lemma readString_suffix_dom:
  "readString_readJidPair_readAdJid_dom (Inl (t, bs)) \<Longrightarrow> leaves_suffix bs (readString t bs)"
  "readString_readJidPair_readAdJid_dom (Inr (Inl bs)) \<Longrightarrow> leaves_suffix bs (readJidPair bs)"
  "readString_readJidPair_readAdJid_dom (Inr (Inr bs)) \<Longrightarrow> leaves_suffix bs (readAdJid bs)"
proof (induction t bs and bs and bs rule: readString_readJidPair_readAdJid.pinduct)
  case (1 t bs)
  show ?case unfolding readString.psimps[OF 1(1)] by (intro reads 1(2,3))
next
  case (2 bs)
  show ?case unfolding readJidPair.psimps[OF 2(1)] by (intro reads 2(2,3)) auto
next
  case (3 bs)
  show ?case unfolding readAdJid.psimps[OF 3(1)] by (intro reads 3(2)) auto
qed

termination readString
proof (relation "measure (\<lambda>x. case x of Inl (t, bs) \<Rightarrow> 2 * length bs + 2
      | Inr (Inl bs) \<Rightarrow> 2 * length bs + 1 | Inr (Inr bs) \<Rightarrow> 2 * length bs + 1)", goal_cases)
  case (5 bs x t bs1 y i bs2 z t' bs3)
  then have "readString t bs1 = Ret (i, bs2)" by simp
  then have "length bs2 \<le> length bs1"
    using leaves_suffixD[OF readString_suffix_dom(1)[OF 5(7)]] suffix_length_le by blast
  then show ?case using 5 by auto
qed auto

declare readString.simps [simp del] readJidPair.simps [simp del] readAdJid.simps [simp del]

lemma leaves_readString [reads]:
  "leaves_suffix bs (readString t bs)" "leaves_suffix bs (readJidPair bs)"
  "leaves_suffix bs (readAdJid bs)"
proof (induction t bs and bs and bs rule: readString_readJidPair_readAdJid.induct)
  case (1 t bs)
  show ?case unfolding readString.simps[of t bs] by (intro reads 1)
next
  case (2 bs)
  show ?case unfolding readJidPair.simps[of bs] by (intro reads 2) auto
next
  case (3 bs)
  show ?case unfolding readAdJid.simps[of bs] by (intro reads 3) auto
qed

subsection \<open>Nodes\<close>

text \<open>\<open>(listSize - 1) / 2\<close> attributes, on \<open>size_t\<close>: none is 2^63 - 1 of them.\<close>

fun readAttrs :: "nat \<Rightarrow> bytes \<Rightarrow> ((string \<times> string) list \<times> bytes) outcome" where
  "readAttrs n bs =
     (if n = 0 then Ret ([], bs)
      else bind_outcome (readByte bs) (\<lambda>(t, bs). bind_outcome (readString t bs) (\<lambda>(k, bs).
        bind_outcome (readByte bs) (\<lambda>(t, bs). bind_outcome (readString t bs) (\<lambda>(v, bs).
          bind_outcome (readAttrs (n - 1) bs) (\<lambda>(as, bs). Ret ((k, v) # as, bs)))))))"

declare readAttrs.simps [simp del]

definition attr_count :: "nat \<Rightarrow> nat" where
  "attr_count ls = unat ((word_of_nat ls - 1 :: u64) div 2)"

text \<open>The list size, the tag and the attributes; the node has no content yet.\<close>

definition decodeHeader :: "bytes \<Rightarrow> ((nat \<times> BinaryNode) \<times> bytes) outcome" where
  "decodeHeader bs =
     bind_outcome (readByte bs) (\<lambda>(t, bs). bind_outcome (readListSize t bs) (\<lambda>(ls, bs).
       bind_outcome (readByte bs) (\<lambda>(t, bs). bind_outcome (readString t bs) (\<lambda>(hdr, bs).
         bind_outcome (readAttrs (attr_count ls) bs) (\<lambda>(as, bs).
           Ret ((ls, BinaryNode hdr as Monostate), bs))))))"

definition with_content :: "BinaryNode \<Rightarrow> BinaryNodeContent \<Rightarrow> BinaryNode" where
  "with_content n c = BinaryNode (tag n) (attrs n) c"

definition readLeaf :: "u8 \<Rightarrow> bytes \<Rightarrow> (BinaryNodeContent \<times> bytes) outcome" where
  "readLeaf t bs =
     (if t = BINARY_8 then
        bind_outcome (readByte bs) (\<lambda>(n, bs).
          bind_outcome (readBytes (unat n) bs) (\<lambda>(b, bs). Ret (Bytes b, bs)))
      else if t = BINARY_20 then
        bind_outcome (readInt20 bs) (\<lambda>(n, bs).
          bind_outcome (readBytes (unat n) bs) (\<lambda>(b, bs). Ret (Bytes b, bs)))
      else if t = BINARY_32 then
        bind_outcome (readInt32 bs) (\<lambda>(n, bs).
          bind_outcome (readBytes (unat n) bs) (\<lambda>(b, bs). Ret (Bytes b, bs)))
      else bind_outcome (readString t bs) (\<lambda>(s, bs). Ret (Str s, bs)))"

function decodeNode :: "bytes \<Rightarrow> (BinaryNode \<times> bytes) outcome"
and readNodes :: "nat \<Rightarrow> bytes \<Rightarrow> (BinaryNode list \<times> bytes) outcome" where
  "decodeNode bs =
     bind_outcome (decodeHeader bs) (\<lambda>(h, bs).
       if even (fst h) then
         bind_outcome (readByte bs) (\<lambda>(t, bs).
           if isListTag t then
             bind_outcome (readListSize t bs) (\<lambda>(n, bs).
               bind_outcome (readNodes n bs) (\<lambda>(cs, bs).
                 Ret (with_content (snd h) (Nodes cs), bs)))
           else bind_outcome (readLeaf t bs) (\<lambda>(c, bs). Ret (with_content (snd h) c, bs)))
       else Ret (snd h, bs))"
| "readNodes n bs =
     (if n = 0 then Ret ([], bs)
      else bind_outcome (decodeNode bs) (\<lambda>(c, bs).
        bind_outcome (readNodes (n - 1) bs) (\<lambda>(cs, bs). Ret (c # cs, bs))))"
  by pat_completeness auto

lemma leaves_readAttrs [reads]: "leaves_suffix bs (readAttrs n bs)"
proof (induction n bs rule: readAttrs.induct)
  case (1 n bs)
  show ?case unfolding readAttrs.simps[of n bs] by (intro reads 1) auto
qed

text \<open>A node takes at least the byte of its list tag.\<close>

lemma leaves_tl: "leaves_suffix (tl bs) r \<Longrightarrow> leaves_suffix bs r"
  unfolding leaves_suffix_def by (metis suffix_tl suffix_order.order_trans)

lemma leaves_header: "leaves_suffix (tl bs) (decodeHeader bs)"
proof (cases bs)
  case Nil
  then show ?thesis by (simp add: decodeHeader_def readByte_def leaves_suffix_def)
next
  case (Cons b cs)
  show ?thesis unfolding Cons decodeHeader_def
    by (simp only: readByte_Cons bind_outcome.simps prod.case list.sel) (intro reads)
qed

lemma header_shorter:
  assumes "decodeHeader bs = Ret (h, bs')"
  shows "length bs' < length bs"
proof (cases bs)
  case Nil
  then show ?thesis using assms by (simp add: decodeHeader_def readByte_def)
next
  case (Cons b cs)
  then show ?thesis
    using leaves_suffixD[OF leaves_header assms] suffix_length_le by (fastforce simp: less_Suc_eq_le)
qed

lemma leaves_readLeaf [reads]: "leaves_suffix bs (readLeaf t bs)"
  unfolding readLeaf_def by (intro reads)

lemma decodeNode_suffix_dom:
  "decodeNode_readNodes_dom (Inl bs) \<Longrightarrow> leaves_suffix (tl bs) (decodeNode bs)"
  "decodeNode_readNodes_dom (Inr (n, bs)) \<Longrightarrow> leaves_suffix bs (readNodes n bs)"
proof (induction bs and n bs rule: decodeNode_readNodes.pinduct)
  case (1 bs)
  show ?case unfolding decodeNode.psimps[OF 1(1)] 
    by (intro leaves_bind leaves_header reads) (rule 1(2)[OF _ refl _ _ refl _ _ refl]; assumption)
next
  case (2 n bs)
  show ?case unfolding readNodes.psimps[OF 2(1)] by (intro reads leaves_tl[OF 2(2)] 2(3)) auto
qed

lemma decodeNode_shorter_dom:
  assumes "decodeNode_readNodes_dom (Inl bs)" "decodeNode bs = Ret (n, bs')"
  shows "length bs' < length bs"
proof (cases bs)
  case Nil
  then show ?thesis
    using assms by (simp add: decodeNode.psimps decodeHeader_def readByte_def)
next
  case (Cons b cs)
  then have "suffix bs' cs"
    using leaves_suffixD[OF decodeNode_suffix_dom(1)[OF assms(1)] assms(2)] by simp
  then show ?thesis using Cons suffix_length_le by (fastforce simp: less_Suc_eq_le)
qed

termination decodeNode
proof (relation "measure (\<lambda>x. case x of Inl bs \<Rightarrow> 2 * length bs
      | Inr (n, bs) \<Rightarrow> 2 * length bs + 1)", goal_cases)
  case (2 bs x h y xb t ya xd n yb)
  then have "suffix yb ya" and y: "y = t # ya" and "decodeHeader bs = Ret (h, y)"
    using leaves_suffixD[OF leaves_readListSize] by auto
  then have "length yb \<le> length ya" "length y < length bs"
    using suffix_length_le header_shorter by blast+
  then show ?case using y by simp
next
  case (4 n bs x c y)
  then show ?case using decodeNode_shorter_dom[of bs c y] by simp
qed auto

declare decodeNode.simps [simp del] readNodes.simps [simp del]

lemma leaves_decodeNode:
  "leaves_suffix (tl bs) (decodeNode bs)" "leaves_suffix bs (readNodes n bs)"
proof (induction bs and n bs rule: decodeNode_readNodes.induct)
  case (1 bs)
  show ?case unfolding decodeNode.simps[of bs]
    by (intro leaves_bind leaves_header reads) (rule 1[OF _ refl _ _ refl _ _ refl]; assumption)
next
  case (2 n bs)
  show ?case unfolding readNodes.simps[of n bs] by (intro reads leaves_tl[OF 2(1)] 2(2)) auto
qed

text \<open>What \<open>zlib\<close> makes of the rest of a compressed frame is a parameter: \<open>None\<close> when it does not
  end with \<open>Z_STREAM_END\<close>.\<close>

definition decodeBinaryNode :: "(bytes \<Rightarrow> bytes option) \<Rightarrow> bytes \<Rightarrow> BinaryNode outcome" where
  "decodeBinaryNode inflate raw =
     (case raw of
        [] \<Rightarrow> Throw
      | flags # src \<Rightarrow>
          bind_outcome (if flags AND 0x02 \<noteq> 0 then of_opt (inflate src) else Ret src)
            (\<lambda>decompressed. bind_outcome (decodeNode decompressed) (\<lambda>(n, rest). Ret n)))"

subsection \<open>Printing\<close>

fun nodeStr :: "BinaryNode \<Rightarrow> nat \<Rightarrow> string" and contentStr :: "string \<Rightarrow> BinaryNodeContent \<Rightarrow> nat \<Rightarrow> string"
and nodesStr :: "BinaryNode list \<Rightarrow> nat \<Rightarrow> string" where
  "nodeStr (BinaryNode t as c) ind =
     replicate ind (CHR '' '') @ ''<'' @ t
     @ concat (map (\<lambda>(k, v). '' '' @ k @ ''='' @ [CHR 0x22] @ v @ [CHR 0x22]) as) @ contentStr t c ind"
| "contentStr t Monostate ind = ''/>''"
| "contentStr t (Str s) ind = ''>'' @ s @ ''</'' @ t @ ''>''"
| "contentStr t (Bytes bs) ind = ''>['' @ dec (length bs) @ '' bytes]</'' @ t @ ''>''"
| "contentStr t (Nodes cs) ind =
     ''>'' @ [CHR 0x0A] @ nodesStr cs (ind + 2) @ replicate ind (CHR '' '') @ ''</'' @ t @ ''>''"
| "nodesStr [] ind = []"
| "nodesStr (c # cs) ind = nodeStr c ind @ [CHR 0x0A] @ nodesStr cs ind"

definition binaryNodeToString :: "BinaryNode \<Rightarrow> string" where
  "binaryNodeToString n = nodeStr n 0"

end
