(* ===== verification/WAWire.thy ===== *)
theory WAWire
  imports WABinary
begin

unbundle bit_operations_syntax

text \<open>
  What the binary node format of \<open>WABinary\<close> promises: every encoder has a reader that takes its
  bytes back from any longer input, so nodes survive the wire up to a stated normal form; what
  the decoder builds is bounded by the bytes it read; and the inputs on which the format loses
  data or the decoder is undefined.
\<close>

subsection \<open>Integers, lengths and raw strings read back\<close>

lemma readBytes_append [simp]: "length b = n \<Longrightarrow> readBytes n (b @ bs) = Ret (b, bs)"
  by (auto simp: readBytes_def)

lemma readStr_append [simp]: "length s = n \<Longrightarrow> readStr n (map to_byte s @ bs) = Ret (s, bs)"
  by (simp add: readStr_def del: map_map)

lemma readInt16_push [simp]: "readInt16 (pushInt16 v @ bs) = Ret (v, bs)"
proof -
  have "push_bit 8 (ucast (ucast (drop_bit 8 v) :: u8)) OR ucast (ucast (v AND 0xff) :: u8) = v"
    unfolding masks by (rule bit_word_eqI) (auto simp: bit_simps)
  then show ?thesis by (simp add: readInt16_def pushInt16_def readBytes_def)
qed

lemma readInt20_push [simp]:
  assumes "v < 2 ^ 20"
  shows "readInt20 (pushInt20 v @ bs) = Ret (v, bs)"
proof -
  have small: "\<not> bit v n" if "20 \<le> n" for n
    using arg_cong[OF less_mask_eq[OF assms], of "\<lambda>w. bit w n"] that by (auto simp: bit_simps)
  have "push_bit 16 (ucast (ucast (drop_bit 16 v AND 0x0f) :: u8) AND 0x0f)
      OR push_bit 8 (ucast (ucast (drop_bit 8 v AND 0xff) :: u8)) OR ucast (ucast (v AND 0xff) :: u8) = v"
    unfolding masks
  proof (rule bit_word_eqI)
    fix n :: nat
    assume "n < LENGTH(32)"
    consider "n < 8" | "8 \<le> n \<and> n < 16" | "16 \<le> n \<and> n < 20" | "20 \<le> n"
      by fastforce
    then show "bit (push_bit 16 (ucast (ucast (drop_bit 16 v AND mask 4) :: u8) AND mask 4)
        OR push_bit 8 (ucast (ucast (drop_bit 8 v AND mask 8) :: u8))
        OR ucast (ucast (v AND mask 8) :: u8) :: u32) n = bit v n"
      by cases (auto simp: bit_simps small)
  qed
  then show ?thesis by (simp add: readInt20_def pushInt20_def readBytes_def)
qed

lemma readInt32_push [simp]: "readInt32 (pushInt32 v @ bs) = Ret (v, bs)"
  using u32_bytes[of v] by (simp add: readInt32_def pushInt32_def readBytes_def)

text \<open>The bytes of a value start with a tag; from that tag the reader gets the value back,
  whatever follows.\<close>

definition reads_as :: "bytes \<Rightarrow> string \<Rightarrow> bool" where
  "reads_as w s = (\<exists>t w'. w = t # w' \<and> \<not> isListTag t \<and> (\<forall>bs. readString t (w' @ bs) = Ret (s, bs)))"

lemma reads_asI: "\<not> isListTag t \<Longrightarrow> (\<And>bs. readString t (w @ bs) = Ret (s, bs)) \<Longrightarrow> reads_as (t # w) s"
  by (simp add: reads_as_def)

lemma readString_binary:
  "readString BINARY_8 bs = bind_outcome (readByte bs) (\<lambda>(n, bs). readStr (unat n) bs)"
  "readString BINARY_20 bs = bind_outcome (readInt20 bs) (\<lambda>(n, bs). readStr (unat n) bs)"
  "readString BINARY_32 bs = bind_outcome (readInt32 bs) (\<lambda>(n, bs). readStr (unat n) bs)"
  by (simp_all add: readString.simps[of _ bs])

lemma readString_jid:
  "readString JID_PAIR bs = readJidPair bs" "readString AD_JID bs = readAdJid bs"
  by (simp_all add: readString.simps[of _ bs])

lemma readString_packed:
  "readString HEX_8 bs = readPacked8 HEX_8 bs" "readString NIBBLE_8 bs = readPacked8 NIBBLE_8 bs"
  by (simp_all add: readString.simps[of _ bs])

text \<open>The three length prefixes, up to 2^32 - 1 bytes.\<close>

lemma writeByteLength_cases:
  assumes "n < 2 ^ 32"
  obtains "writeByteLength n = [BINARY_8, word_of_nat n]" "unat (word_of_nat n :: u8) = n"
  | "writeByteLength n = BINARY_20 # pushInt20 (word_of_nat n)" "unat (word_of_nat n :: u32) = n"
    "(word_of_nat n :: u32) < 2 ^ 20"
  | "writeByteLength n = BINARY_32 # pushInt32 (word_of_nat n)" "unat (word_of_nat n :: u32) = n"
proof -
  have u32: "unat (word_of_nat n :: u32) = n"
    using assms by (simp add: unat_of_nat take_bit_nat_eq_self)
  show ?thesis
  proof (cases "n \<ge> 2 ^ 20")
    case True
    then show ?thesis using that(3) u32 by (simp add: writeByteLength_def)
  next
    case False
    show ?thesis
    proof (cases "n \<ge> 256")
      case True
      have "(word_of_nat n :: u32) < 2 ^ 20"
        using False u32 by (simp add: word_less_nat_alt)
      then show ?thesis using that(2) u32 True False by (simp add: writeByteLength_def)
    next
      case small: False
      then have "unat (word_of_nat n :: u8) = n"
        by (simp add: unat_of_nat take_bit_nat_eq_self)
      then show ?thesis using that(1) small by (simp add: writeByteLength_def)
    qed
  qed
qed

lemma raw_reads: "length s < 2 ^ 32 \<Longrightarrow> reads_as (writeStringRaw s) s"
  by (erule writeByteLength_cases)
    (auto simp: writeStringRaw_def isListTag_def readString_binary intro!: reads_asI)

lemma bytes_read:
  assumes "length b < 2 ^ 32"
  obtains t w where "writeByteLength (length b) @ b = t # w" "\<not> isListTag t"
    "\<And>bs. readLeaf t (w @ bs) = Ret (Bytes b, bs)"
  using assms
  by (elim writeByteLength_cases) (auto simp: isListTag_def readLeaf_def)

subsection \<open>Tokens and packed strings read back\<close>

lemma token_reads:
  assumes "map_of TOKEN_MAP s = Some t" "s \<noteq> []"
  shows "reads_as (writeToken t) s"
proof -
  obtain d i where t: "t = (d, i)" by fastforce
  from token_read_back[OF assms(1)[unfolded t]] show ?thesis
  proof
    assume A: "d = -1 \<and> 0 \<le> i \<and> i < 236 \<and> SINGLE_BYTE_TOKENS ! nat i = s"
    have "i \<noteq> 0" using assms A t single_zero by auto
    with A have i: "1 \<le> i" "i < 236" by auto
    then have u: "unat (word_of_int i :: u8) = nat i"
      by (simp flip: nat_uint_eq add: uint_word_of_int take_bit_int_eq_self)
    have "(1 :: u8) \<le> word_of_int i" using i u by (simp add: word_le_nat_alt)
    moreover have "\<not> isListTag (word_of_int i)"
      using u i by (auto simp: isListTag_def)
    ultimately show ?thesis using A u i t
      by (auto simp: writeToken_def readString.simps intro!: reads_asI)
  next
    assume A: "0 \<le> d \<and> d \<le> 3 \<and> 0 \<le> i \<and> i < 256
      \<and> (\<exists>t. map_of DOUBLE_BYTE_TOKENS d = Some t \<and> map_of t i = Some s)"
    then have u: "uint (word_of_int i :: u8) = i" by (simp add: uint_word_of_int)
    from A consider "d = 0" | "d = 1" | "d = 2" | "d = 3" by linarith
    then show ?thesis using A u t
      by cases (auto simp: writeToken_def readString.simps getTokenDouble_def isListTag_def intro!: reads_asI)
  qed
qed

text \<open>Half bytes: what packs a character into four bits, what takes it out again, and the
  character the filler of an odd string comes out as.\<close>

lemma halves:
  fixes h l :: u8
  assumes "h < 16" "l < 16"
  shows "drop_bit 4 (push_bit 4 h OR l) = h" "(push_bit 4 h OR l) AND 0x0f = l"
proof -
  have hi: "n < 4" if "w < 16" "bit w n" for w :: u8 and n
    using arg_cong[OF less_mask_eq[of w 4], of "\<lambda>w. bit w n"] that by (auto simp: bit_simps)
  show "drop_bit 4 (push_bit 4 h OR l) = h"
    by (rule bit_word_eqI) (auto simp: bit_simps not_le dest: hi[OF assms(1)] hi[OF assms(2)])
  show "(push_bit 4 h OR l) AND 0x0f = l"
    unfolding masks by (rule bit_word_eqI) (auto simp: bit_simps not_le dest: hi[OF assms(2)])
qed

locale half_bytes =
  fixes pack :: "char \<Rightarrow> u8 outcome" and unpack :: "u8 \<Rightarrow> char outcome"
    and ok :: "char \<Rightarrow> bool" and fill :: char
  assumes packs: "ok c \<Longrightarrow> \<exists>v. pack c = Ret v \<and> v < 16 \<and> unpack v = Ret c"
    and fills: "unpack 15 = Ret fill"
begin

lemma pairs_back:
  assumes "list_all ok s"
  shows "\<exists>w. pack_pairs pack s = Ret w \<and> length w = (length s + 1) div 2
    \<and> (\<forall>bs. unpack_pairs unpack (length w) (w @ bs)
          = Ret (s @ (if odd (length s) then [fill] else []), bs))"
  using assms
proof (induction s rule: induct_list012)
  case 1
  then show ?case by simp
next
  case (2 c)
  then obtain v where "pack c = Ret v" "v < 16" "unpack v = Ret c" using packs by auto
  then show ?case using halves[of v 15] fills by auto
next
  case (3 c d s)
  then obtain v u where v: "pack c = Ret v" "v < 16" "unpack v = Ret c"
    and u: "pack d = Ret u" "u < 16" "unpack u = Ret d" using packs[of c] packs[of d] by auto
  obtain w where "pack_pairs pack s = Ret w" "length w = (length s + 1) div 2"
    "\<forall>bs. unpack_pairs unpack (length w) (w @ bs)
       = Ret (s @ (if odd (length s) then [fill] else []), bs)"
    using 3 by auto
  then show ?case using v u halves[OF v(2) u(2)] by auto
qed

end

lemma digit_half:
  assumes "is_digit c"
  shows "to_byte c - 48 \<le> 9" "to_byte c - 48 < 16" "48 + (to_byte c - 48) = to_byte c"
proof -
  have d: "48 \<le> (of_char c :: nat)" "(of_char c :: nat) \<le> 57" using assms by (auto simp: is_digit_def)
  then have "unat (to_byte c - 48) = of_char c - 48"
    by (subst unat_sub) (auto simp: word_le_nat_alt)
  with d show "to_byte c - 48 \<le> 9" "to_byte c - 48 < 16" "48 + (to_byte c - 48) = to_byte c"
    by (auto simp: word_le_nat_alt word_less_nat_alt)
qed

lemma upper_half:
  assumes "is_upper_hex c"
  shows "\<not> is_digit c" "10 \<le> 10 + to_byte c - 65" "10 + to_byte c - 65 < 16"
    "65 + (10 + to_byte c - 65) - 10 = to_byte c"
proof -
  have d: "65 \<le> (of_char c :: nat)" "(of_char c :: nat) \<le> 70" using assms by (auto simp: is_upper_hex_def)
  then have "unat (to_byte c - 55) = of_char c - 55"
    by (subst unat_sub) (auto simp: word_le_nat_alt)
  moreover have "10 + to_byte c - 65 = to_byte c - 55" by simp
  ultimately show "10 \<le> 10 + to_byte c - 65" "10 + to_byte c - 65 < 16"
    using d by (auto simp: word_le_nat_alt word_less_nat_alt)
  show "\<not> is_digit c" using d by (simp add: is_digit_def)
  show "65 + (10 + to_byte c - 65) - 10 = to_byte c" by simp
qed

interpretation nibble: half_bytes packNibble unpackNibble
  "\<lambda>c. is_digit c \<or> c = CHR ''-'' \<or> c = CHR ''.''" "CHR 0x00"
proof
  fix c :: char
  assume "is_digit c \<or> c = CHR ''-'' \<or> c = CHR ''.''"
  then show "\<exists>v. packNibble c = Ret v \<and> v < 16 \<and> unpackNibble v = Ret c"
    using digit_half[of c] by (cases "is_digit c") (auto simp: packNibble_def unpackNibble_def)
qed (simp add: unpackNibble_def)

interpretation hex: half_bytes packHex unpackHex "\<lambda>c. is_digit c \<or> is_upper_hex c" "CHR ''F''"
proof
  fix c :: char
  assume "is_digit c \<or> is_upper_hex c"
  then show "\<exists>v. packHex c = Ret v \<and> v < 16 \<and> unpackHex v = Ret c"
  proof
    assume d: "is_digit c"
    then have "to_byte c - 48 < 10" using digit_half(1)[of c] by (simp add: word_le_nat_alt word_less_nat_alt)
    then show ?thesis using d digit_half[of c] by (simp add: packHex_def unpackHex_def)
  next
    assume u: "is_upper_hex c"
    then have "\<not> 10 + to_byte c - 65 < 10" using upper_half(2)[OF u] by (simp only: not_less)
    then show ?thesis using u upper_half[OF u] by (simp add: packHex_def unpackHex_def)
  qed
next
  show "unpackHex 15 = Ret CHR ''F''" by code_simp
qed

text \<open>The byte before the packed halves: their number, and in the top bit whether the last one is
  filler.\<close>

lemma packed_start:
  fixes r :: u8
  assumes "r < 128"
  shows "r AND 0x7f = r" "drop_bit 7 r = 0" "(r OR 128) AND 0x7f = r" "drop_bit 7 (r OR 128) \<noteq> 0"
proof -
  have hi: "n < 7" if "bit r n" for n
    using arg_cong[OF less_mask_eq[of r 7], of "\<lambda>w. bit w n"] that assms by (auto simp: bit_simps)
  have top: "bit (128 :: u8) n \<longleftrightarrow> n = 7" for n
    using bit_exp_iff[where 'a = "8 word" and m = 7 and n = n] by auto
  show "r AND 0x7f = r" unfolding masks by (rule bit_word_eqI) (auto simp: bit_simps dest: hi)
  show "drop_bit 7 r = 0" by (rule bit_word_eqI) (auto simp: bit_simps dest: hi)
  show "(r OR 128) AND 0x7f = r"
    unfolding masks by (rule bit_word_eqI) (simp only: bit_and_iff bit_or_iff bit_mask_iff top, auto dest: hi)
  have "bit (drop_bit 7 (r OR 128)) 0"
    by (simp only: bit_drop_bit_eq comp_apply bit_or_iff top) simp
  then show "drop_bit 7 (r OR 128) \<noteq> 0" by auto
qed

lemma packed_reads:
  assumes "length s \<le> PACKED_MAX" "s \<noteq> []" and t: "t = (if nib then NIBBLE_8 else HEX_8)"
    and w: "pack_pairs (if nib then packNibble else packHex) s = Ret w"
    "length w = (length s + 1) div 2"
    "\<And>bs. unpack_pairs (if nib then unpackNibble else unpackHex) (length w) (w @ bs)
       = Ret (s @ (if odd (length s) then [c] else []), bs)"
  shows "\<exists>v. writePackedBytes s nib = Ret v \<and> reads_as v s"
proof -
  define r :: u8 where "r = word_of_nat ((length s + 1) div 2)"
  let ?start = "if odd (length s) then r OR 128 else r"
  have le: "(length s + 1) div 2 \<le> 64" using assms(1) by simp
  then have u: "unat r = length w"
    unfolding w(2) r_def by (subst unat_of_nat) (simp add: take_bit_nat_eq_self)
  then have r: "r < 128" using le w(2) by (simp add: word_less_nat_alt)
  have count: "unat (?start AND 0x7f) = length w" and fill: "drop_bit 7 ?start \<noteq> 0 \<longleftrightarrow> odd (length s)"
    using packed_start[OF r] u by simp_all
  have "readPacked8 t (?start # w @ bs) = Ret (s, bs)" for bs
    using w(3)[of bs] t count fill assms(2)
    by (cases nib) (auto simp: readPacked8_def pop_back_def)
  then show ?thesis unfolding writePackedBytes_def Let_def r_def[symmetric] using w(1) t
    by (cases nib) (auto simp: readString_packed isListTag_def intro!: reads_asI)
qed

lemma nibble_reads: "isNibble s \<Longrightarrow> \<exists>v. writePackedBytes s True = Ret v \<and> reads_as v s"
  using nibble.pairs_back[of s] packed_reads[of s NIBBLE_8 True _ "CHR 0x00"]
  by (auto simp: isNibble_def)

lemma hex_reads: "isHex s \<Longrightarrow> \<exists>v. writePackedBytes s False = Ret v \<and> reads_as v s"
  using hex.pairs_back[of s] packed_reads[of s HEX_8 False _ "CHR ''F''"]
  by (auto simp: isHex_def)

subsection \<open>Strings and JIDs read back\<close>

lemma cat_Ret [simp]: "cat (Ret x) (Ret y) = Ret (x @ y)"
  by (simp add: cat_def)

lemma plain_reads:
  assumes "CHR ''@'' \<notin> set s" "length s < 2 ^ 32"
  shows "\<exists>w. writeString s = Ret w \<and> reads_as w s"
proof -
  have "jidDecode s = Ret None" using assms(1) by (simp add: jidDecode_def)
  then show ?thesis
    using raw_reads[OF assms(2)] token_reads[of s] nibble_reads[of s] hex_reads[of s]
    by (subst writeString.simps) (auto split: option.splits)
qed

text \<open>The JIDs that keep their meaning: the parts the encoder sends are all the decoder needs to
  rebuild the text. Most strings are no JID and keep it anyway.\<close>

definition jid_ok :: "string \<Rightarrow> bool" where
  "jid_ok s =
     (case jidDecode s of
        Ret (Some j) \<Rightarrow>
          if device j > 0
          then device j < 256 \<and> s = jidEncode (user j) (ad_server (word_of_int (domainType j))) (device j)
          else s = user j @ ''@'' @ server j \<and> server j \<noteq> [] \<and> CHR ''@'' \<notin> set (server j)
      | _ \<Rightarrow> False)"

definition str_ok :: "string \<Rightarrow> bool" where
  "str_ok s = (length s < 2 ^ 32 \<and> (CHR ''@'' \<in> set s \<longrightarrow> jid_ok s))"

lemma user_no_at: "jidDecode s = Ret (Some j) \<Longrightarrow> CHR ''@'' \<notin> set (user j)"
  by (auto simp: jidDecode_def Let_def before_def dest!: set_takeWhileD
      split: if_splits option.splits)

lemma reads_asE:
  assumes "reads_as w s"
  obtains t w' where "w = t # w'" "\<not> isListTag t" "\<And>bs. readString t (w' @ bs) = Ret (s, bs)"
  using assms by (auto simp: reads_as_def)

lemma empty_reads: "readString LIST_EMPTY bs = Ret ([], bs)"
  by (simp add: readString.simps[of _ bs])

lemma jid_pair_reads:
  assumes "\<And>bs. readString t (u @ bs) = Ret (i, bs)" "reads_as v j" "j \<noteq> []"
  shows "reads_as (JID_PAIR # (t # u) @ v) (i @ ''@'' @ j)"
  using assms(2) by (rule reads_asE)
    (use assms(1,3) in \<open>auto simp: readString_jid readJidPair.simps isListTag_def intro!: reads_asI\<close>)

lemma ad_jid_reads:
  assumes "reads_as u i"
  shows "reads_as (AD_JID # dt # dev # u) (jidEncode i (ad_server dt) (uint dev))"
  using assms by (rule reads_asE)
    (auto simp: readString_jid readAdJid.simps isListTag_def intro!: reads_asI)

lemma jid_reads:
  assumes "jidDecode s = Ret (Some j)" "jid_ok s" "length s < 2 ^ 32"
  shows "\<exists>w. writeJid j = Ret w \<and> reads_as w s"
proof -
  have len: "length (user j) < 2 ^ 32" "length (server j) < 2 ^ 32"
    using jidDecode_shorter[OF assms(1)] assms(3) by auto
  obtain u where u: "writeString (user j) = Ret u" "reads_as u (user j)"
    using plain_reads[OF user_no_at[OF assms(1)] len(1)] by blast
  show ?thesis
  proof (cases "device j > 0")
    case True
    then have d: "device j < 256"
      "s = jidEncode (user j) (ad_server (word_of_int (domainType j))) (device j)"
      using assms(1,2) by (auto simp: jid_ok_def)
    then have "uint (word_of_int (device j) :: u8) = device j"
      using True by (simp add: uint_word_of_int)
    then have "reads_as (AD_JID # word_of_int (domainType j) # word_of_int (device j) # u) s"
      using ad_jid_reads[OF u(2), of "word_of_int (domainType j)" "word_of_int (device j)"] d(2) by simp
    then show ?thesis using True u(1) by (simp add: writeJid.simps)
  next
    case False
    then have s: "s = user j @ ''@'' @ server j" "server j \<noteq> []" "CHR ''@'' \<notin> set (server j)"
      using assms(1,2) by (auto simp: jid_ok_def)
    obtain v where v: "writeString (server j) = Ret v" "reads_as v (server j)"
      using plain_reads[OF s(3) len(2)] by blast
    show ?thesis
    proof (cases "user j = []")
      case True
      then have "reads_as (JID_PAIR # [LIST_EMPTY] @ v) s"
        using jid_pair_reads[of LIST_EMPTY "[]" "[]"] v(2) s empty_reads by simp
      then show ?thesis using True False v(1) by (simp add: writeJid.simps)
    next
      case ne: False
      obtain t u' where "u = t # u'" "\<And>bs. readString t (u' @ bs) = Ret (user j, bs)"
        using u(2) unfolding reads_as_def by blast
      then have "reads_as (JID_PAIR # u @ v) s"
        using jid_pair_reads[of t u' "user j" v "server j"] v(2) s by simp
      then show ?thesis using ne False u(1) v(1) by (simp add: writeJid.simps)
    qed
  qed
qed

lemma string_reads:
  assumes "str_ok s"
  shows "\<exists>w. writeString s = Ret w \<and> reads_as w s"
proof (cases "CHR ''@'' \<in> set s")
  case False
  then show ?thesis using assms plain_reads by (simp add: str_ok_def)
next
  case True
  then have ok: "jid_ok s" "length s < 2 ^ 32" using assms by (auto simp: str_ok_def)
  then obtain j where j: "jidDecode s = Ret (Some j)"
    by (auto simp: jid_ok_def split: outcome.splits option.splits)
  show ?thesis
    using True jid_reads[OF j ok] token_reads[of s] nibble_reads[of s] hex_reads[of s] j
    by (subst writeString.simps) (auto split: option.splits)
qed

subsection \<open>Nodes read back\<close>

text \<open>What a node comes back as: attributes without a value are not sent, and a string that no
  dictionary, packing or JID shortens is sent as bytes, which is what it is read as in the place
  of the content.\<close>

definition raw_text :: "string \<Rightarrow> bool" where
  "raw_text s = (s = [] \<or> (map_of TOKEN_MAP s = None \<and> \<not> isNibble s \<and> \<not> isHex s \<and> CHR ''@'' \<notin> set s))"

fun wire_node :: "BinaryNode \<Rightarrow> BinaryNode" and wire_content :: "BinaryNodeContent \<Rightarrow> BinaryNodeContent"
and wire_nodes :: "BinaryNode list \<Rightarrow> BinaryNode list" where
  "wire_node (BinaryNode t as c) = BinaryNode t (filter (\<lambda>(k, v). v \<noteq> []) as) (wire_content c)"
| "wire_content Monostate = Monostate"
| "wire_content (Str s) = (if raw_text s then Bytes (map to_byte s) else Str s)"
| "wire_content (Bytes bs) = Bytes bs"
| "wire_content (Nodes cs) = Nodes (wire_nodes cs)"
| "wire_nodes [] = []"
| "wire_nodes (c # cs) = wire_node c # wire_nodes cs"

text \<open>What the format has room for: lists below 2^16 entries, strings and contents below 2^32
  bytes, and only JIDs that keep their meaning.\<close>

fun node_ok :: "BinaryNode \<Rightarrow> bool" and content_ok :: "BinaryNodeContent \<Rightarrow> bool"
and nodes_ok :: "BinaryNode list \<Rightarrow> bool" where
  "node_ok (BinaryNode t as c) =
     (str_ok t \<and> list_all (\<lambda>(k, v). v \<noteq> [] \<longrightarrow> str_ok k \<and> str_ok v) as
      \<and> validAttrs as < 2 ^ 15 - 1 \<and> content_ok c)"
| "content_ok Monostate = True"
| "content_ok (Str s) = str_ok s"
| "content_ok (Bytes bs) = (length bs < 2 ^ 32)"
| "content_ok (Nodes cs) = (length cs < 2 ^ 16 \<and> nodes_ok cs)"
| "nodes_ok [] = True"
| "nodes_ok (c # cs) = (node_ok c \<and> nodes_ok cs)"

lemma word_of_int_below:
  assumes "0 \<le> i" "i < 256"
  shows "(word_of_int i :: u8) \<noteq> 252 \<or> i = 252" "(word_of_int i :: u8) \<noteq> 253 \<or> i = 253"
    "(word_of_int i :: u8) \<noteq> 254 \<or> i = 254"
  using assms by (auto simp: word_uint_eq_iff uint_word_of_int)

lemma text_tag:
  assumes "\<not> raw_text s" "writeString s = Ret (t # w)"
  shows "t \<noteq> BINARY_8 \<and> t \<noteq> BINARY_20 \<and> t \<noteq> BINARY_32"
proof -
  have ne: "s \<noteq> []" using assms(1) by (simp add: raw_text_def)
  show ?thesis
  proof (cases "map_of TOKEN_MAP s")
    case (Some di)
    obtain d i where di: "di = (d, i)" by fastforce
    have "writeToken (d, i) = t # w" using assms(2) ne Some di by (simp add: writeString.simps)
    moreover have "(d = -1 \<and> 0 \<le> i \<and> i < 236) \<or> (0 \<le> d \<and> d \<le> 3)"
      using token_read_back[of s d i] Some di by auto
    moreover have "d = 0 \<or> d = 1 \<or> d = 2 \<or> d = 3" if "0 \<le> d \<and> d \<le> 3" using that by linarith
    ultimately show ?thesis using word_of_int_below[of i] by (auto simp: writeToken_def)
  next
    case None
    show ?thesis
      using assms ne None
      by (subst (asm) writeString.simps)
        (auto simp: raw_text_def writePackedBytes_def Let_def writeJid.simps cat_def jidDecode_def
          split: if_splits outcome.splits option.splits)
  qed
qed

lemma text_reads:
  assumes "str_ok s" "\<not> raw_text s"
  shows "\<exists>t w. writeString s = Ret (t # w) \<and> \<not> isListTag t \<and> (\<forall>bs. readLeaf t (w @ bs) = Ret (Str s, bs))"
proof -
  obtain t w where w: "writeString s = Ret (t # w)" "\<not> isListTag t"
    "\<And>bs. readString t (w @ bs) = Ret (s, bs)"
    using string_reads[OF assms(1)] by (auto simp: reads_as_def)
  then show ?thesis using text_tag[OF assms(2) w(1)] by (simp add: readLeaf_def)
qed

lemma raw_content_reads:
  assumes "str_ok s" "raw_text s"
  shows "\<exists>t w. writeString s = Ret (t # w) \<and> \<not> isListTag t
    \<and> (\<forall>bs. readLeaf t (w @ bs) = Ret (Bytes (map to_byte s), bs))"
proof -
  have "writeString s = Ret (writeStringRaw s)"
    using assms(2) by (subst writeString.simps) (auto simp: raw_text_def jidDecode_def split: option.splits)
  moreover obtain t w where "writeByteLength (length s) @ map to_byte s = t # w" "\<not> isListTag t"
    "\<And>bs. readLeaf t (w @ bs) = Ret (Bytes (map to_byte s), bs)"
    using bytes_read[of "map to_byte s"] assms(1) by (auto simp: str_ok_def)
  ultimately show ?thesis by (simp add: writeStringRaw_def)
qed

lemma list_start_reads:
  assumes "n < 2 ^ 16"
  shows "\<exists>t w. writeListStart n = t # w \<and> isListTag t \<and> (\<forall>bs. readListSize t (w @ bs) = Ret (n, bs))"
proof -
  have "unat (word_of_nat n :: u16) = n" and "n < 256 \<Longrightarrow> unat (word_of_nat n :: u8) = n"
    using assms by (simp_all add: unat_of_nat take_bit_nat_eq_self)
  then show ?thesis by (auto simp: writeListStart_def readListSize_def isListTag_def)
qed

lemma attrs_read:
  assumes "list_all (\<lambda>(k, v). v \<noteq> [] \<longrightarrow> str_ok k \<and> str_ok v) as"
  shows "\<exists>w. writeAttrs as = Ret w
    \<and> (\<forall>bs. readAttrs (validAttrs as) (w @ bs) = Ret (filter (\<lambda>(k, v). v \<noteq> []) as, bs))"
  using assms
proof (induction as)
  case Nil
  then show ?case by (simp add: validAttrs_def readAttrs.simps)
next
  case (Cons a as)
  obtain k v where a: "a = (k, v)" by fastforce
  obtain w where w: "writeAttrs as = Ret w"
    "\<And>bs. readAttrs (validAttrs as) (w @ bs) = Ret (filter (\<lambda>(k, v). v \<noteq> []) as, bs)"
    using Cons by auto
  show ?case
  proof (cases "v = []")
    case True
    then show ?thesis using w a by (simp add: validAttrs_def)
  next
    case False
    then have "str_ok k" "str_ok v" using Cons.prems a by auto
    then obtain kw vw where "writeString k = Ret kw" "reads_as kw k" "writeString v = Ret vw" "reads_as vw v"
      using string_reads by meson
    then show ?thesis
      using False a w by (auto simp: validAttrs_def readAttrs.simps[of "Suc _"] reads_as_def)
  qed
qed

lemma attr_count_sent: "n < 2 ^ 15 - 1 \<Longrightarrow> b \<le> 1 \<Longrightarrow> attr_count (2 * n + 1 + b) = n"
proof -
  assume n: "n < 2 ^ 15 - 1" and b: "b \<le> 1"
  have w: "word_of_nat (2 * n + 1 + b) - 1 = (word_of_nat (2 * n + b) :: u64)" by simp
  have u: "unat (word_of_nat (2 * n + b) :: u64) = 2 * n + b"
    using n b by (subst unat_of_nat) (simp add: take_bit_nat_eq_self)
  show ?thesis unfolding attr_count_def w unat_div u using b by simp
qed

text \<open>From the tag that starts a content, the decoder gets the content.\<close>

definition readContent :: "BinaryNode \<Rightarrow> u8 \<Rightarrow> bytes \<Rightarrow> (BinaryNode \<times> bytes) outcome" where
  "readContent n t bs =
     (if isListTag t then
        bind_outcome (readListSize t bs) (\<lambda>(k, bs).
          bind_outcome (readNodes k bs) (\<lambda>(cs, bs). Ret (with_content n (Nodes cs), bs)))
      else bind_outcome (readLeaf t bs) (\<lambda>(c, bs). Ret (with_content n c, bs)))"

lemma decodeNode_content:
  "decodeNode bs = bind_outcome (decodeHeader bs) (\<lambda>(h, bs).
     if even (fst h) then bind_outcome (readByte bs) (\<lambda>(t, bs). readContent (snd h) t bs)
     else Ret (snd h, bs))"
  unfolding readContent_def by (rule decodeNode.simps)

lemma header_reads:
  assumes "str_ok t" "list_all (\<lambda>(k, v). v \<noteq> [] \<longrightarrow> str_ok k \<and> str_ok v) as"
    "validAttrs as < 2 ^ 15 - 1" "b \<le> 1"
  shows "\<exists>w. cat (Ret (writeListStart (2 * validAttrs as + 1 + b))) (cat (writeString t) (cat (writeAttrs as) (Ret v)))
       = Ret (w @ v)
    \<and> (\<forall>bs. decodeHeader (w @ bs)
        = Ret ((2 * validAttrs as + 1 + b, BinaryNode t (filter (\<lambda>(k, v). v \<noteq> []) as) Monostate), bs))"
proof -
  have "2 * validAttrs as + 1 + b < 2 ^ 16" using assms(3,4) by simp
  then obtain lt lw where l: "writeListStart (2 * validAttrs as + 1 + b) = lt # lw"
    "\<And>bs. readListSize lt (lw @ bs) = Ret (2 * validAttrs as + 1 + b, bs)"
    using list_start_reads by blast
  obtain tt tw where t: "writeString t = Ret (tt # tw)" "\<And>bs. readString tt (tw @ bs) = Ret (t, bs)"
    using string_reads[OF assms(1)] by (auto simp: reads_as_def)
  obtain aw where a: "writeAttrs as = Ret aw"
    "\<And>bs. readAttrs (validAttrs as) (aw @ bs) = Ret (filter (\<lambda>(k, v). v \<noteq> []) as, bs)"
    using attrs_read[OF assms(2)] by blast
  show ?thesis
    by (rule exI[of _ "lt # lw @ tt # tw @ aw"])
      (simp add: l[simplified] t a attr_count_sent[OF assms(3,4), simplified] decodeHeader_def)
qed

lemma nodes_read:
  "node_ok n \<Longrightarrow> \<exists>w. encodeNode n = Ret w \<and> (\<forall>bs. decodeNode (w @ bs) = Ret (wire_node n, bs))"
  "content_ok c \<Longrightarrow> c = Monostate \<or> (\<exists>t w. encodeContent c = Ret (t # w)
     \<and> (\<forall>h bs. readContent h t (w @ bs) = Ret (with_content h (wire_content c), bs)))"
  "nodes_ok cs \<Longrightarrow> \<exists>w. encodeNodes cs = Ret w
     \<and> (\<forall>bs. readNodes (length cs) (w @ bs) = Ret (wire_nodes cs, bs))"
proof (induction n and c and cs rule: encodeNode_encodeContent_encodeNodes.induct)
  case (1 t as c)
  then have ok: "str_ok t" "list_all (\<lambda>(k, v). v \<noteq> [] \<longrightarrow> str_ok k \<and> str_ok v) as"
    "validAttrs as < 2 ^ 15 - 1" by auto
  show ?case
  proof (cases "c = Monostate")
    case True
    obtain w where "cat (Ret (writeListStart (2 * validAttrs as + 1))) (cat (writeString t)
        (cat (writeAttrs as) (Ret []))) = Ret w"
      "\<And>bs. decodeHeader (w @ bs) = Ret ((2 * validAttrs as + 1,
         BinaryNode t (filter (\<lambda>(k, v). v \<noteq> []) as) Monostate), bs)"
      using header_reads[OF ok, of 0 "[]"] by auto
    then show ?thesis using True
      by (simp add: hasContent_def decodeNode_content del: bind_outcome_Ret)
  next
    case False
    then obtain u w where c: "encodeContent c = Ret (u # w)"
      "\<And>h bs. readContent h u (w @ bs) = Ret (with_content h (wire_content c), bs)"
      using 1 by auto
    obtain hw where "cat (Ret (writeListStart (2 * validAttrs as + 1 + 1))) (cat (writeString t)
        (cat (writeAttrs as) (Ret (u # w)))) = Ret (hw @ u # w)"
      "\<And>bs. decodeHeader (hw @ bs) = Ret ((2 * validAttrs as + 1 + 1,
         BinaryNode t (filter (\<lambda>(k, v). v \<noteq> []) as) Monostate), bs)"
      using header_reads[OF ok, of 1 "u # w"] by auto
    moreover have "hasContent c" using False by (cases c) (auto simp: hasContent_def)
    ultimately show ?thesis using c
      by (simp add: decodeNode_content with_content_def del: bind_outcome_Ret)
  qed
next
  case 2
  show ?case by simp
next
  case (3 s)
  then show ?case using text_reads[of s] raw_content_reads[of s]
    by (cases "raw_text s") (auto simp: readContent_def)
next
  case (4 b)
  then have "length b < 2 ^ 32" by simp
  then show ?case by (rule bytes_read) (auto simp: readContent_def)
next
  case (5 cs)
  then obtain t w where "writeListStart (length cs) = t # w" "isListTag t"
    "\<And>bs. readListSize t (w @ bs) = Ret (length cs, bs)"
    using list_start_reads[of "length cs"] by auto
  moreover obtain v where "encodeNodes cs = Ret v"
    "\<And>bs. readNodes (length cs) (v @ bs) = Ret (wire_nodes cs, bs)"
    using 5 by auto
  ultimately show ?case by (auto simp: readContent_def)
next
  case 6
  show ?case by (simp add: readNodes.simps)
next
  case (7 c cs)
  then obtain w v where "encodeNode c = Ret w" "\<And>bs. decodeNode (w @ bs) = Ret (wire_node c, bs)"
    "encodeNodes cs = Ret v" "\<And>bs. readNodes (length cs) (v @ bs) = Ret (wire_nodes cs, bs)"
    by fastforce
  then show ?case by (simp add: readNodes.simps[of "Suc _"])
qed

subsection \<open>What the format promises\<close>

text \<open>C20: A node whose parts fit the format (lists below 2^16 entries, contents below 2^32 bytes, JIDs
  that keep their meaning) is encoded without an exception and decoded again from the frame, with its
  attributes without a value left out and unshortened text of a content as bytes.\<close>

theorem node_round_trip:
  assumes "node_ok n"
  shows "\<exists>w. encodeBinaryNode n = Ret w \<and> decodeBinaryNode inflate w = Ret (wire_node n)"
proof -
  obtain w where w: "encodeNode n = Ret w" "\<And>bs. decodeNode (w @ bs) = Ret (wire_node n, bs)"
    using nodes_read(1)[OF assms] by blast
  from w(2)[of "[]"] have "decodeNode w = Ret (wire_node n, [])" by simp
  then show ?thesis using w(1) by (simp add: encodeBinaryNode_def decodeBinaryNode_def)
qed

text \<open>A message to a device of a user, with an attribute that has no value and a list of children.\<close>

definition demo_node :: BinaryNode where
  "demo_node = BinaryNode ''message''
     [(''to'', ''15551234567@s.whatsapp.net''), (''participant'', ''15551234567:12@s.whatsapp.net''),
      (''id'', ''3EB0C431''), (''edit'', '''')]
     (Nodes [BinaryNode ''enc'' [(''type'', ''pkmsg'')] (Bytes [1, 2, 3]),
             BinaryNode ''body'' [] (Str ''hello'')])"

lemma node_round_trip_witness:
  "node_ok demo_node
   \<and> (\<exists>w. encodeBinaryNode demo_node = Ret w
        \<and> decodeBinaryNode (\<lambda>_. None) w = Ret (wire_node demo_node))"
proof -
  have "jid_ok ''15551234567@s.whatsapp.net''" by code_simp
  moreover have "jid_ok ''15551234567:12@s.whatsapp.net''" by code_simp
  ultimately have "node_ok demo_node" by (simp add: demo_node_def str_ok_def validAttrs_def)
  then show ?thesis using node_round_trip[of demo_node "\<lambda>_. None"] by blast
qed

fun weight :: "BinaryNode \<Rightarrow> nat" and content_weight :: "BinaryNodeContent \<Rightarrow> nat"
and nodes_weight :: "BinaryNode list \<Rightarrow> nat" where
  "weight (BinaryNode t as c) = 1 + length as + content_weight c"
| "content_weight (Nodes cs) = nodes_weight cs"
| "content_weight _ = 0"
| "nodes_weight [] = 0"
| "nodes_weight (c # cs) = weight c + nodes_weight cs"

lemma suffix_pays: "leaves_suffix bs r \<Longrightarrow> r = Ret (x, bs') \<Longrightarrow> length bs' \<le> length bs"
  by (rule suffix_length_le, rule leaves_suffixD)

lemma attrs_pay: "readAttrs n bs = Ret (as, bs') \<Longrightarrow> 2 * length as + length bs' \<le> length bs"
proof (induction n bs arbitrary: as bs' rule: readAttrs.induct)
  case (1 n bs)
  show ?case
  proof (cases "n = 0")
    case True
    then show ?thesis using 1(2) by (simp add: readAttrs.simps)
  next
    case False
    from 1(2) False
    have "bind_outcome (readByte bs) (\<lambda>(t, bs). bind_outcome (readString t bs) (\<lambda>(k, bs).
        bind_outcome (readByte bs) (\<lambda>(t, bs). bind_outcome (readString t bs) (\<lambda>(v, bs).
          bind_outcome (readAttrs (n - 1) bs) (\<lambda>(as, bs). Ret ((k, v) # as, bs)))))) = Ret (as, bs')"
      by (simp only: readAttrs.simps[of n bs] if_False)
    then obtain t1 b1 k b2 t2 b3 v b4 as' where
      r: "bs = t1 # b1" "readString t1 b1 = Ret (k, b2)" "b2 = t2 # b3" "readString t2 b3 = Ret (v, b4)"
      "readAttrs (n - 1) b4 = Ret (as', bs')" "as = (k, v) # as'"
      by (elim bind_pairE) auto
    have "2 * length as' + length bs' \<le> length b4"
      using 1(1)[OF False _ refl r(2) refl _ refl r(4) refl r(5)] r by simp
    moreover have "length b4 \<le> length b3" "length b2 \<le> length b1"
      using suffix_pays[OF leaves_readString(1) r(4)] suffix_pays[OF leaves_readString(1) r(2)] by auto
    ultimately show ?thesis using r by simp
  qed
qed

lemma header_pays:
  assumes "decodeHeader bs = Ret (h, bs')"
  shows "2 * (1 + length (attrs (snd h))) + length bs' \<le> length bs" "content (snd h) = Monostate"
proof -
  obtain t b1 ls b2 t' b3 hdr b4 as where
    r: "bs = t # b1" "readListSize t b1 = Ret (ls, b2)" "b2 = t' # b3" "readString t' b3 = Ret (hdr, b4)"
    "readAttrs (attr_count ls) b4 = Ret (as, bs')" "h = (ls, BinaryNode hdr as Monostate)"
    using assms unfolding decodeHeader_def by (elim bind_pairE) auto
  have "length b2 \<le> length b1" "length b4 \<le> length b3" "2 * length as + length bs' \<le> length b4"
    using suffix_pays[OF leaves_readListSize r(2)] suffix_pays[OF leaves_readString(1) r(4)]
      attrs_pay[OF r(5)] by auto
  then show "2 * (1 + length (attrs (snd h))) + length bs' \<le> length bs" using r by simp
  show "content (snd h) = Monostate" using r by simp
qed

lemma weight_with_content: "weight (with_content n c) = 1 + length (attrs n) + content_weight c"
  by (simp add: with_content_def)

lemma weight_alt: "weight n = 1 + length (attrs n) + content_weight (content n)"
  by (cases n) simp

lemma readLeaf_weight: "readLeaf t bs = Ret (c, bs') \<Longrightarrow> content_weight c = 0"
  by (auto simp: readLeaf_def split: if_splits)

lemma nodes_pay:
  "decodeNode bs = Ret (n, bs') \<Longrightarrow> 2 * weight n + length bs' \<le> length bs"
  "readNodes k bs = Ret (cs, bs') \<Longrightarrow> 2 * nodes_weight cs + length bs' \<le> length bs"
proof (induction bs and k bs arbitrary: n bs' and cs bs' rule: decodeNode_readNodes.induct)
  case (1 bs)
  obtain h b1 where h: "decodeHeader bs = Ret (h, b1)"
    "(if even (fst h) then bind_outcome (readByte b1) (\<lambda>(t, bs). readContent (snd h) t bs)
      else Ret (snd h, b1)) = Ret (n, bs')"
    using 1(2) unfolding decodeNode_content by (elim bind_pairE)
  note pay = header_pays[OF h(1)]
  show ?case
  proof (cases "even (fst h)")
    case False
    then show ?thesis using h(2) pay by (simp add: weight_alt)
  next
    case True
    then obtain t b2 where t: "b1 = t # b2" "readContent (snd h) t b2 = Ret (n, bs')"
      using h(2) by auto
    show ?thesis
    proof (cases "isListTag t")
      case False
      then obtain c where c: "readLeaf t b2 = Ret (c, bs')" "n = with_content (snd h) c"
        using t(2) unfolding readContent_def by auto
      then show ?thesis using pay t(1) readLeaf_weight[OF c(1)] suffix_pays[OF leaves_readLeaf c(1)]
        by (simp add: weight_with_content)
    next
      case list: True
      then obtain j b3 cs where cs: "readListSize t b2 = Ret (j, b3)" "readNodes j b3 = Ret (cs, bs')"
        "n = with_content (snd h) (Nodes cs)"
        using t(2) unfolding readContent_def by auto
      have "2 * nodes_weight cs + length bs' \<le> length b3"
        using 1(1)[OF h(1) refl True _ refl list cs(1) refl cs(2)] t(1) by simp
      then show ?thesis using pay t(1) cs(3) suffix_pays[OF leaves_readListSize cs(1)]
        by (simp add: weight_with_content)
    qed
  qed
next
  case (2 k bs)
  show ?case
  proof (cases "k = 0")
    case True
    then show ?thesis using 2(3) by (simp add: readNodes.simps)
  next
    case False
    then obtain c b1 cs' where c: "decodeNode bs = Ret (c, b1)" "readNodes (k - 1) b1 = Ret (cs', bs')"
      "cs = c # cs'"
      using 2(3) unfolding readNodes.simps[of k bs] by auto
    then show ?thesis using 2(1)[OF False c(1)] 2(2)[OF False c(1) refl c(2)] by simp
  qed
qed



text \<open>A list of no elements stands for 2^63 - 1 attributes.\<close>

lemma attr_count_empty: "attr_count 0 = 2 ^ 63 - 1"
  by (simp add: attr_count_def)

lemma attrs_take_all: "readAttrs n bs = Ret (as, bs') \<Longrightarrow> length as = n"
proof (induction n bs arbitrary: as bs' rule: readAttrs.induct)
  case (1 n bs)
  show ?case
  proof (cases "n = 0")
    case True
    then show ?thesis using 1(2) by (simp add: readAttrs.simps)
  next
    case False
    from 1(2) False
    have "bind_outcome (readByte bs) (\<lambda>(t, bs). bind_outcome (readString t bs) (\<lambda>(k, bs).
        bind_outcome (readByte bs) (\<lambda>(t, bs). bind_outcome (readString t bs) (\<lambda>(v, bs).
          bind_outcome (readAttrs (n - 1) bs) (\<lambda>(as, bs). Ret ((k, v) # as, bs)))))) = Ret (as, bs')"
      by (simp only: readAttrs.simps[of n bs] if_False)
    then obtain t1 b1 k b2 t2 b3 v b4 as' where
      r: "readByte bs = Ret (t1, b1)" "readString t1 b1 = Ret (k, b2)" "readByte b2 = Ret (t2, b3)"
      "readString t2 b3 = Ret (v, b4)" "readAttrs (n - 1) b4 = Ret (as', bs')" "as = (k, v) # as'"
      by (elim bind_pairE) auto
    show ?thesis
      using 1(1)[OF False r(1) refl r(2) refl r(3) refl r(4) refl r(5)] r(6) False by simp
  qed
qed

lemma empty_list_never_a_node:
  assumes "length bs < 2 ^ 64 - 1"
  shows "decodeNode (LIST_EMPTY # bs) \<noteq> Ret (n, bs')"
proof
  assume "decodeNode (LIST_EMPTY # bs) = Ret (n, bs')"
  then obtain h b1 where h: "decodeHeader (LIST_EMPTY # bs) = Ret (h, b1)"
    unfolding decodeNode_content by (elim bind_pairE)
  then have "length (attrs (snd h)) = 2 ^ 63 - 1"
    unfolding decodeHeader_def
    by (elim bind_pairE) (auto simp: readListSize_def attr_count_empty dest!: attrs_take_all)
  then show False using header_pays(1)[OF h] assms by simp
qed

text \<open>A JID with a device loses a server the format has no domain for.\<close>

lemma writeString_jid:
  assumes "CHR ''@'' \<in> set s" "jidDecode s = Ret (Some j)"
  shows "writeString s = writeJid j"
proof -
  have "map_of TOKEN_MAP s = None" using token_no_at[of s] assms(1) by (cases "map_of TOKEN_MAP s") auto
  moreover have "\<not> isNibble s" "\<not> isHex s"
    using assms(1) by (force simp: isNibble_def isHex_def list_all_iff is_digit_def is_upper_hex_def)+
  ultimately show ?thesis using assms by (subst writeString.simps) auto
qed

lemma jidDecode_device:
  assumes "CHR ''@'' \<notin> set u" "CHR '':'' \<notin> set u" "0 < d" "d < 2 ^ 31"
  shows "jidDecode (jidEncode u srv (int d))
    = Ret (Some \<lparr>user = u, server = srv, device = int d, domainType = domain_of srv\<rparr>)"
proof -
  have text_of: "jidEncode u srv (int d) = (u @ '':'' @ dec d) @ CHR ''@'' # srv"
    using assms(3) by (simp add: jidEncode_def int_text_def)
  have nat: "CHR ''@'' \<notin> set (u @ '':'' @ dec d)"
    using assms(1) dec_digits[of d] by (auto simp: list_all_iff is_digit_def)
  have split: "before c (a @ c # b) = a" "after c (a @ c # b) = b" if "c \<notin> set a" for a b c
    using that by (auto simp: before_def after_def takeWhile_append dropWhile_append)
  have "before CHR '':'' (u @ '':'' @ dec d) = u" "after CHR '':'' (u @ '':'' @ dec d) = dec d"
    using split[OF assms(2), of "dec d"] by simp_all
  then show ?thesis
    unfolding text_of jidDecode_def split[OF nat] Let_def using assms(4) by simp
qed

text \<open>A JID \<open>user:device@server\<close> whose server is none of \<open>lid\<close>, \<open>hosted\<close> and \<open>hosted.lid\<close> arrives as
  \<open>user:device@s.whatsapp.net\<close>: with a device, the encoder sends the domain and not the server.\<close>

lemma device_server_lost:
  assumes "CHR ''@'' \<notin> set u" "CHR '':'' \<notin> set u" "length u < 2 ^ 32" "0 < d" "d < 256"
    and "domain_of srv = 0"
  shows "\<exists>t w. writeString (jidEncode u srv (int d)) = Ret (t # w)
    \<and> (\<forall>bs. readString t (w @ bs) = Ret (jidEncode u ''s.whatsapp.net'' (int d), bs))"
proof -
  let ?j = "\<lparr>user = u, server = srv, device = int d, domainType = domain_of srv\<rparr>"
  have j: "jidDecode (jidEncode u srv (int d)) = Ret (Some ?j)"
    using assms by (intro jidDecode_device) simp_all
  obtain v where v: "writeString u = Ret v" "reads_as v u" using plain_reads[OF assms(1,3)] by blast
  have w: "writeString (jidEncode u srv (int d)) = Ret (AD_JID # 0 # word_of_nat d # v)"
    using writeString_jid[OF _ j] v(1) assms(4,6) by (simp add: writeJid.simps jidEncode_def)
  have "uint (word_of_nat d :: u8) = int d" using assms(5) by (simp add: uint_nat unat_of_nat take_bit_nat_eq_self)
  then have "reads_as (AD_JID # 0 # word_of_nat d # v) (jidEncode u ''s.whatsapp.net'' (int d))"
    using ad_jid_reads[OF v(2), of 0 "word_of_nat d"] by (simp add: ad_server_def)
  then show ?thesis using w by (auto simp: reads_as_def)
qed

lemma device_server_lost_example:
  "domain_of ''g.us'' = 0 \<and> (\<exists>t w. writeString (jidEncode ''15551234567'' ''g.us'' (int 5)) = Ret (t # w)
     \<and> (\<forall>bs. readString t (w @ bs) = Ret (jidEncode ''15551234567'' ''s.whatsapp.net'' (int 5), bs)))"
  using device_server_lost[of "''15551234567''" 5 "''g.us''"] by (simp add: domain_of_def)

text \<open>A packed string of no bytes whose filler bit is set, in any frame, takes the last character of
  an empty string: undefined behaviour, before anything of the frame is checked.\<close>

lemma packed_filler_of_nothing:
  "decodeBinaryNode inflate (0 # LIST_8 # k # NIBBLE_8 # 128 # bs) = Trap"
proof -
  have "readString NIBBLE_8 (128 # bs) = Trap"
    by (simp add: readString_packed readPacked8_def pop_back_def)
  then show ?thesis
    by (simp add: decodeBinaryNode_def decodeNode.simps decodeHeader_def readListSize_def)
qed

end
