(* ===== verification/WAProto.thy ===== *)
theory WAProto
  imports Bytes
begin

unbundle bit_operations_syntax

text \<open>
  The hand-rolled protocol buffers of \<open>include/animus_kernel/whatsapp/WAProto.h\<close>: the primitives,
  the message types of the handshake, the chat and the Signal layer, and the padding. A position
  is the \<open>size_t\<close> the code keeps, with its wrap-around: the bound \<open>offset + length > len\<close> is
  computed as the code computes it. A read that may leave the buffer is \<open>Trap\<close>; a decoder's loop is
  a partial function, so that \<open>None\<close> is a call that does not return.
\<close>

subsection \<open>Writer\<close>

function writeVarint :: "u64 \<Rightarrow> bytes" where
  "writeVarint v =
     (if v > 0x7F then (ucast (v AND 0x7F) OR 0x80) # writeVarint (drop_bit 7 v) else [ucast v])"
  by pat_completeness auto
termination
proof (relation "measure unat")
  fix v :: u64
  assume "0x7F < v"
  then have "0 < unat v" by (simp add: word_less_nat_alt)
  then show "(drop_bit 7 v, v) \<in> measure unat"
    by (simp add: drop_bit_eq_div unat_div)
qed simp

declare writeVarint.simps [simp del]

definition writeTag :: "u32 \<Rightarrow> u32 \<Rightarrow> bytes" where
  "writeTag field wt = writeVarint (push_bit 3 (ucast field) OR ucast wt)"

definition writeVarintField :: "u32 \<Rightarrow> u64 \<Rightarrow> bytes" where
  "writeVarintField field v = writeTag field 0 @ writeVarint v"

definition writeBytesField :: "u32 \<Rightarrow> bytes \<Rightarrow> bytes" where
  "writeBytesField field b = writeTag field 2 @ writeVarint (word_of_nat (length b)) @ b"

definition writeStringField :: "u32 \<Rightarrow> string \<Rightarrow> bytes" where
  "writeStringField field s =
     writeTag field 2 @ writeVarint (word_of_nat (length s)) @ map to_byte s"

definition writeMessageField :: "u32 \<Rightarrow> bytes \<Rightarrow> bytes" where
  "writeMessageField field b = writeTag field 2 @ writeVarint (word_of_nat (length b)) @ b"

subsection \<open>Reader\<close>

record reader =
  rdata :: bytes
  offset :: u64

definition rlen :: "reader \<Rightarrow> u64" where
  "rlen r = word_of_nat (length (rdata r))"

definition new_reader :: "bytes \<Rightarrow> reader" where
  "new_reader d = \<lparr>rdata = d, offset = 0\<rparr>"

text \<open>\<open>readVarint\<close> stores into \<open>out\<close> as it goes, so the value is there when it fails too.\<close>

function varint_loop :: "reader \<Rightarrow> u64 \<Rightarrow> nat \<Rightarrow> bool \<times> u64 \<times> reader" where
  "varint_loop r out shift =
     (if offset r < rlen r then
        let b = rdata r ! unat (offset r);
            r' = r\<lparr>offset := offset r + 1\<rparr>;
            out' = out OR push_bit shift (ucast (b AND 0x7F))
        in if b AND 0x80 = 0 then (True, out', r')
           else if shift + 7 \<ge> 64 then (False, out', r')
           else varint_loop r' out' (shift + 7)
      else (False, out, r))"
  by pat_completeness auto
termination by (relation "measure (\<lambda>(r, out, shift). 64 - shift)") auto

declare varint_loop.simps [simp del]

definition readVarint :: "reader \<Rightarrow> bool \<times> u64 \<times> reader" where
  "readVarint r = varint_loop r 0 0"

definition readTag :: "reader \<Rightarrow> (u32 \<times> u32) option \<times> reader" where
  "readTag r =
     (case readVarint r of (ok, t, r') \<Rightarrow>
        ((if ok then Some (ucast (drop_bit 3 t), ucast (t AND 0x7)) else None), r'))"

text \<open>\<open>None\<close>: the call returned false and left \<open>out\<close> alone. A length that wraps past the end of the
  address space passes the test, and the range to copy ends before it begins.\<close>

definition readBytes :: "reader \<Rightarrow> (bytes option \<times> reader) outcome" where
  "readBytes r =
     (case readVarint r of (ok, l, r) \<Rightarrow>
        if \<not> ok then Ret (None, r)
        else if offset r + l > rlen r then Ret (None, r)
        else if offset r + l < offset r then Trap
        else Ret (Some (take (unat l) (drop (unat (offset r)) (rdata r))),
                  r\<lparr>offset := offset r + l\<rparr>))"

definition readString :: "reader \<Rightarrow> (string option \<times> reader) outcome" where
  "readString r = bind_outcome (readBytes r) (\<lambda>(b, r). Ret (map_option (map to_char) b, r))"

definition skip_fixed :: "u64 \<Rightarrow> reader \<Rightarrow> reader" where
  "skip_fixed n r = (if offset r + n > rlen r then r else r\<lparr>offset := offset r + n\<rparr>)"

text \<open>No caller looks at the result of \<open>skipField\<close>.\<close>

definition skipField :: "u32 \<Rightarrow> reader \<Rightarrow> reader" where
  "skipField wt r =
     (if wt = 0 then snd (snd (readVarint r))
      else if wt = 1 then skip_fixed 8 r
      else if wt = 2 then
        (case readVarint r of (ok, l, r) \<Rightarrow> if ok then skip_fixed l r else r)
      else if wt = 5 then skip_fixed 4 r
      else r)"

subsection \<open>The loop over the fields of a message\<close>

text \<open>What the body of the loop does with a field: go on with the message and the reader, or leave
  the loop.\<close>

datatype 'm step = Next 'm reader | Leave 'm

partial_function (option) read_fields ::
  "(u32 \<Rightarrow> u32 \<Rightarrow> 'm \<Rightarrow> reader \<Rightarrow> 'm step outcome option) \<Rightarrow> reader \<Rightarrow> 'm \<Rightarrow> 'm outcome option" where
  "read_fields body r m =
     (if offset r < rlen r then
        (case readTag r of
           (None, r') \<Rightarrow> Some (Ret m)
         | (Some (field, wt), r') \<Rightarrow>
             Option.bind (body field wt m r') (\<lambda>s.
               case s of
                 Ret (Next m' r'') \<Rightarrow> read_fields body r'' m'
               | Ret (Leave m') \<Rightarrow> Some (Ret m')
               | Throw \<Rightarrow> Some Throw
               | Trap \<Rightarrow> Some Trap))
      else Some (Ret m))"

definition skip :: "u32 \<Rightarrow> 'm \<Rightarrow> reader \<Rightarrow> 'm step outcome option" where
  "skip wt m r = Some (Ret (Next m (skipField wt r)))"

text \<open>\<open>if (wt == 2) r.readBytes(x); else r.skipField(wt);\<close> and its likes: \<open>upd\<close> stores.\<close>

definition on_bytes :: "(bytes \<Rightarrow> 'm \<Rightarrow> 'm) \<Rightarrow> 'm \<Rightarrow> reader \<Rightarrow> 'm step outcome option" where
  "on_bytes upd m r =
     Some (bind_outcome (readBytes r) (\<lambda>(b, r).
       Ret (Next (case b of None \<Rightarrow> m | Some x \<Rightarrow> upd x m) r)))"

definition on_string :: "(string \<Rightarrow> 'm \<Rightarrow> 'm) \<Rightarrow> 'm \<Rightarrow> reader \<Rightarrow> 'm step outcome option" where
  "on_string upd m r =
     Some (bind_outcome (readString r) (\<lambda>(s, r).
       Ret (Next (case s of None \<Rightarrow> m | Some x \<Rightarrow> upd x m) r)))"

definition on_varint :: "(u64 \<Rightarrow> 'm \<Rightarrow> 'm) \<Rightarrow> 'm \<Rightarrow> reader \<Rightarrow> 'm step outcome option" where
  "on_varint upd m r =
     (case readVarint r of (ok, v, r) \<Rightarrow> Some (Ret (Next (upd v m) r)))"

text \<open>An embedded message: \<open>f\<close> reads its bytes into the message. A reader of its own walks over
  them, so whether \<open>f\<close> returns is part of the step.\<close>

definition on_message :: "(bytes \<Rightarrow> 'm \<Rightarrow> 'm outcome option) \<Rightarrow> 'm \<Rightarrow> reader \<Rightarrow> 'm step outcome option" where
  "on_message f m r =
     (case readBytes r of
        Ret (Some b, r') \<Rightarrow> Option.bind (f b m) (\<lambda>s.
          case s of Ret m' \<Rightarrow> Some (Ret (Next m' r')) | Throw \<Rightarrow> Some Throw | Trap \<Rightarrow> Some Trap)
      | Ret (None, r') \<Rightarrow> Some (Ret (Next m r'))
      | Throw \<Rightarrow> Some Throw
      | Trap \<Rightarrow> Some Trap)"

subsection \<open>Signal messages\<close>

record pre_key_signal_message =
  pre_key_id :: u32
  base_key :: bytes
  identity_key :: bytes
  message :: bytes
  registration_id :: u32
  signed_pre_key_id :: u32

definition no_pre_key_message :: pre_key_signal_message where
  "no_pre_key_message = \<lparr>pre_key_id = 0, base_key = [], identity_key = [], message = [],
     registration_id = 0, signed_pre_key_id = 0\<rparr>"

record signal_message_inner =
  ratchet_key :: bytes
  counter :: u32
  previous_counter :: u32
  ciphertext :: bytes

definition no_signal_message :: signal_message_inner where
  "no_signal_message = \<lparr>ratchet_key = [], counter = 0, previous_counter = 0, ciphertext = []\<rparr>"

definition pre_key_field ::
  "u32 \<Rightarrow> u32 \<Rightarrow> pre_key_signal_message \<Rightarrow> reader \<Rightarrow> pre_key_signal_message step outcome option" where
  "pre_key_field field wt m r =
     (if field = 1 \<and> wt = 0 then on_varint (\<lambda>v m. m\<lparr>pre_key_id := ucast v\<rparr>) m r
      else if field = 2 \<and> wt = 2 then on_bytes (\<lambda>b m. m\<lparr>base_key := b\<rparr>) m r
      else if field = 3 \<and> wt = 2 then on_bytes (\<lambda>b m. m\<lparr>identity_key := b\<rparr>) m r
      else if field = 4 \<and> wt = 2 then on_bytes (\<lambda>b m. m\<lparr>message := b\<rparr>) m r
      else if field = 5 \<and> wt = 0 then on_varint (\<lambda>v m. m\<lparr>registration_id := ucast v\<rparr>) m r
      else if field = 6 \<and> wt = 0 then on_varint (\<lambda>v m. m\<lparr>signed_pre_key_id := ucast v\<rparr>) m r
      else skip wt m r)"

definition decodePreKeySignalMessage :: "bytes \<Rightarrow> pre_key_signal_message outcome option" where
  "decodePreKeySignalMessage d = read_fields pre_key_field (new_reader d) no_pre_key_message"

definition signal_field ::
  "u32 \<Rightarrow> u32 \<Rightarrow> signal_message_inner \<Rightarrow> reader \<Rightarrow> signal_message_inner step outcome option" where
  "signal_field field wt m r =
     (if field = 1 \<and> wt = 2 then on_bytes (\<lambda>b m. m\<lparr>ratchet_key := b\<rparr>) m r
      else if field = 2 \<and> wt = 0 then on_varint (\<lambda>v m. m\<lparr>counter := ucast v\<rparr>) m r
      else if field = 3 \<and> wt = 0 then on_varint (\<lambda>v m. m\<lparr>previous_counter := ucast v\<rparr>) m r
      else if field = 4 \<and> wt = 2 then on_bytes (\<lambda>b m. m\<lparr>ciphertext := b\<rparr>) m r
      else skip wt m r)"

definition decodeSignalMessageInner :: "bytes \<Rightarrow> signal_message_inner outcome option" where
  "decodeSignalMessageInner d = read_fields signal_field (new_reader d) no_signal_message"

definition encodeSignalMessageProto :: "bytes \<Rightarrow> u32 \<Rightarrow> u32 \<Rightarrow> bytes \<Rightarrow> bytes" where
  "encodeSignalMessageProto ratchetKey cnt previousCounter ct =
     writeBytesField 1 ratchetKey @ writeVarintField 2 (ucast cnt)
     @ writeVarintField 3 (ucast previousCounter) @ writeBytesField 4 ct"

definition encodePreKeySignalMessageProto ::
  "u32 \<Rightarrow> bytes \<Rightarrow> bytes \<Rightarrow> bytes \<Rightarrow> u32 \<Rightarrow> u32 \<Rightarrow> bytes" where
  "encodePreKeySignalMessageProto preKeyId baseKey identityKey innerMessage registrationId signedPreKeyId =
     (if preKeyId > 0 then writeVarintField 1 (ucast preKeyId) else [])
     @ writeBytesField 2 baseKey @ writeBytesField 3 identityKey @ writeBytesField 4 innerMessage
     @ writeVarintField 5 (ucast registrationId) @ writeVarintField 6 (ucast signedPreKeyId)"

subsection \<open>Chat messages\<close>

record chat_message =
  conversation :: string
  ext_text :: string
  ext_matched_text :: string
  ext_canonical_url :: string

definition no_chat :: chat_message where
  "no_chat = \<lparr>conversation = [], ext_text = [], ext_matched_text = [], ext_canonical_url = []\<rparr>"

definition hasText :: "chat_message \<Rightarrow> bool" where
  "hasText m = (conversation m \<noteq> [] \<or> ext_text m \<noteq> [])"

definition text_of :: "chat_message \<Rightarrow> string" where
  "text_of m = (if conversation m \<noteq> [] then conversation m else ext_text m)"

definition encodeMessage :: "chat_message \<Rightarrow> bytes" where
  "encodeMessage m =
     (if conversation m \<noteq> [] then writeStringField 1 (conversation m) else [])
     @ (if ext_text m \<noteq> [] \<or> ext_canonical_url m \<noteq> [] then
          writeMessageField 2
            ((if ext_text m \<noteq> [] then writeStringField 1 (ext_text m) else [])
             @ (if ext_canonical_url m \<noteq> [] then writeStringField 17 (ext_canonical_url m) else []))
        else [])"

definition ext_field :: "u32 \<Rightarrow> u32 \<Rightarrow> chat_message \<Rightarrow> reader \<Rightarrow> chat_message step outcome option" where
  "ext_field field wt m r =
     (if field = 1 \<and> wt = 2 then on_string (\<lambda>s m. m\<lparr>ext_text := s\<rparr>) m r else skip wt m r)"

definition chat_field :: "u32 \<Rightarrow> u32 \<Rightarrow> chat_message \<Rightarrow> reader \<Rightarrow> chat_message step outcome option" where
  "chat_field field wt m r =
     (if field = 1 \<and> wt = 2 then on_string (\<lambda>s m. m\<lparr>conversation := s\<rparr>) m r
      else if field = 2 \<and> wt = 2 then on_message (\<lambda>b. read_fields ext_field (new_reader b)) m r
      else skip wt m r)"

definition decodeMessage :: "bytes \<Rightarrow> chat_message outcome option" where
  "decodeMessage d = read_fields chat_field (new_reader d) no_chat"

definition extractTextFromDecryptedPayload :: "bytes \<Rightarrow> string outcome option" where
  "extractTextFromDecryptedPayload d =
     map_option (\<lambda>m. bind_outcome m (\<lambda>m. Ret (text_of m))) (decodeMessage d)"

record message_key =
  remote_jid :: string
  from_me :: string
  key_id :: string
  key_participant :: string

record web_message_info =
  wkey :: message_key
  wmessage :: chat_message
  message_timestamp :: u64

definition no_web_message :: web_message_info where
  "no_web_message = \<lparr>wkey = \<lparr>remote_jid = [], from_me = [], key_id = [], key_participant = []\<rparr>,
     wmessage = no_chat, message_timestamp = 0\<rparr>"

definition key_field ::
  "u32 \<Rightarrow> u32 \<Rightarrow> web_message_info \<Rightarrow> reader \<Rightarrow> web_message_info step outcome option" where
  "key_field field wt m r =
     (if field = 1 then on_string (\<lambda>s m. m\<lparr>wkey := (wkey m)\<lparr>remote_jid := s\<rparr>\<rparr>) m r
      else if field = 3 then on_string (\<lambda>s m. m\<lparr>wkey := (wkey m)\<lparr>key_id := s\<rparr>\<rparr>) m r
      else if field = 4 then on_string (\<lambda>s m. m\<lparr>wkey := (wkey m)\<lparr>key_participant := s\<rparr>\<rparr>) m r
      else skip wt m r)"

definition web_field ::
  "u32 \<Rightarrow> u32 \<Rightarrow> web_message_info \<Rightarrow> reader \<Rightarrow> web_message_info step outcome option" where
  "web_field field wt m r =
     (if field = 1 \<and> wt = 2 then on_message (\<lambda>b. read_fields key_field (new_reader b)) m r
      else if field = 2 \<and> wt = 2 then
        on_message (\<lambda>b m. map_option (\<lambda>c. bind_outcome c (\<lambda>c. Ret (m\<lparr>wmessage := c\<rparr>))) (decodeMessage b)) m r
      else if field = 3 \<and> wt = 0 then on_varint (\<lambda>v m. m\<lparr>message_timestamp := v\<rparr>) m r
      else skip wt m r)"

definition decodeWebMessageInfo :: "bytes \<Rightarrow> web_message_info outcome option" where
  "decodeWebMessageInfo d = read_fields web_field (new_reader d) no_web_message"

text \<open>Padding: the code takes the length in place of the random byte of the protocol.\<close>

definition padRandomMax16 :: "bytes \<Rightarrow> bytes" where
  "padRandomMax16 d =
     (if d = [] then d
      else let p = (word_of_nat (length d + 1) :: u8) AND 0x0f;
               padByte = (if p = 0 then 0x0f else p)
        in d @ replicate (unat padByte) padByte)"

definition unpadRandomMax16 :: "bytes \<Rightarrow> bytes" where
  "unpadRandomMax16 d =
     (if d = [] then d
      else let padLen = last d
        in if padLen < 1 \<or> padLen > 16 \<or> unat padLen > length d then d
           else if list_all (\<lambda>b. b = padLen) (drop (length d - unat padLen) d)
           then take (length d - unat padLen) d
           else d)"

definition encodeTextMessage :: "string \<Rightarrow> bytes" where
  "encodeTextMessage t = padRandomMax16 (encodeMessage (no_chat\<lparr>conversation := t\<rparr>))"

subsection \<open>The Noise handshake\<close>

record server_hello =
  sh_ephemeral :: bytes
  sh_static_key :: bytes
  sh_payload :: bytes

definition no_hello :: server_hello where
  "no_hello = \<lparr>sh_ephemeral = [], sh_static_key = [], sh_payload = []\<rparr>"

definition encodeClientHello :: "bytes \<Rightarrow> bytes" where
  "encodeClientHello ephemeral =
     writeMessageField 2 (if ephemeral \<noteq> [] then writeBytesField 1 ephemeral else [])"

definition encodeClientFinish :: "bytes \<Rightarrow> bytes \<Rightarrow> bytes" where
  "encodeClientFinish static_key payload =
     writeMessageField 4
       ((if static_key \<noteq> [] then writeBytesField 1 static_key else [])
        @ (if payload \<noteq> [] then writeBytesField 2 payload else []))"

definition hello_field :: "u32 \<Rightarrow> u32 \<Rightarrow> server_hello \<Rightarrow> reader \<Rightarrow> server_hello step outcome option" where
  "hello_field field wt m r =
     (if field = 1 \<and> wt = 2 then on_bytes (\<lambda>b m. m\<lparr>sh_ephemeral := b\<rparr>) m r
      else if field = 2 \<and> wt = 2 then on_bytes (\<lambda>b m. m\<lparr>sh_static_key := b\<rparr>) m r
      else if field = 3 \<and> wt = 2 then on_bytes (\<lambda>b m. m\<lparr>sh_payload := b\<rparr>) m r
      else skip wt m r)"

text \<open>The only decoder that leaves its loop on a field it cannot read.\<close>

definition handshake_field :: "u32 \<Rightarrow> u32 \<Rightarrow> server_hello \<Rightarrow> reader \<Rightarrow> server_hello step outcome option" where
  "handshake_field field wt m r =
     (if field = 3 \<and> wt = 2 then
        (case readBytes r of
           Ret (None, r') \<Rightarrow> Some (Ret (Leave m))
         | _ \<Rightarrow> on_message (\<lambda>b. read_fields hello_field (new_reader b)) m r)
      else skip wt m r)"

definition decodeServerHello :: "bytes \<Rightarrow> server_hello outcome option" where
  "decodeServerHello d = read_fields handshake_field (new_reader d) no_hello"

record version_info =
  primary :: int
  secondary :: int
  tertiary :: u64
  buildHash :: bytes

text \<open>\<open>std::stoull\<close>: a minus sign is accepted and negates modulo 2^64.\<close>

definition stoull :: "string \<Rightarrow> u64 option" where
  "stoull s = Option.bind (strtol s) (\<lambda>n. if \<bar>n\<bar> < 2 ^ 64 then Some (word_of_int n) else None)"

definition user_agent :: "version_info \<Rightarrow> bytes" where
  "user_agent v =
     writeVarintField 1 14
     @ writeMessageField 2 (writeVarintField 1 (word_of_int (primary v))
         @ writeVarintField 2 (word_of_int (secondary v)) @ writeVarintField 3 (tertiary v))
     @ writeStringField 3 ''000'' @ writeStringField 4 ''000'' @ writeStringField 5 ''0.1''
     @ writeStringField 7 ''Desktop'' @ writeStringField 8 ''0.1'' @ writeStringField 11 ''en''
     @ writeStringField 12 ''US''"

definition device_props :: bytes where
  "device_props =
     writeStringField 1 ''Mac OS''
     @ writeMessageField 2 (writeVarintField 1 10 @ writeVarintField 2 15 @ writeVarintField 3 7)
     @ writeVarintField 3 7 @ writeVarintField 4 1
     @ writeMessageField 5 (writeVarintField 3 10240 @ writeVarintField 4 1 @ writeVarintField 6 0
         @ writeVarintField 7 1 @ writeVarintField 8 1 @ writeVarintField 9 1 @ writeVarintField 10 1
         @ writeVarintField 11 1 @ writeVarintField 12 1 @ writeVarintField 14 1
         @ writeVarintField 15 0)"

definition device_pairing_data :: "version_info \<Rightarrow> u32 \<Rightarrow> bytes \<Rightarrow> bytes \<Rightarrow> bytes \<Rightarrow> u32 \<Rightarrow> bytes" where
  "device_pairing_data v regId identityPubKey signedPreKeyPub signedPreKeySig signedPreKeyId =
     writeBytesField 1 [ucast (drop_bit 24 regId AND 0xff), ucast (drop_bit 16 regId AND 0xff),
                        ucast (drop_bit 8 regId AND 0xff), ucast (regId AND 0xff)]
     @ writeBytesField 2 [0x05]
     @ (if identityPubKey \<noteq> [] then writeBytesField 3 identityPubKey else [])
     @ writeBytesField 4 [ucast (drop_bit 16 signedPreKeyId AND 0xff),
                          ucast (drop_bit 8 signedPreKeyId AND 0xff), ucast (signedPreKeyId AND 0xff)]
     @ (if signedPreKeyPub \<noteq> [] then writeBytesField 5 signedPreKeyPub else [])
     @ (if signedPreKeySig \<noteq> [] then writeBytesField 6 signedPreKeySig else [])
     @ writeBytesField 7 (buildHash v)
     @ writeBytesField 8 device_props"

text \<open>The user and the device of a login: what \<open>stoull\<close> throws is caught, after the user may have
  been written. \<open>substr\<close> takes the rest when the at sign comes first, since the length wraps.\<close>

definition login_user :: "string \<Rightarrow> bytes" where
  "login_user jid =
     (case (find_sub ''@'' jid, find_sub '':'' jid) of
        (Some atPos, Some colonPos) \<Rightarrow>
          (case stoull (take colonPos jid) of
             None \<Rightarrow> []
           | Some u \<Rightarrow>
               writeVarintField 1 u
               @ (let tail = drop (colonPos + 1) jid
                  in case stoull (if colonPos < atPos then take (atPos - colonPos - 1) tail else tail) of
                       None \<Rightarrow> []
                     | Some d \<Rightarrow> writeVarintField 18 d))
      | _ \<Rightarrow> [])"

definition encodeClientPayload ::
  "bool \<Rightarrow> version_info \<Rightarrow> string \<Rightarrow> u32 \<Rightarrow> bytes \<Rightarrow> bytes \<Rightarrow> bytes \<Rightarrow> u32 \<Rightarrow> bytes" where
  "encodeClientPayload isNewLogin v jid regId identityPubKey signedPreKeyPub signedPreKeySig signedPreKeyId =
     writeVarintField 3 (if isNewLogin then 0 else 1)
     @ writeMessageField 5 (user_agent v)
     @ writeMessageField 6 (writeVarintField 4 0)
     @ writeStringField 7 ''Kestrel''
     @ writeVarintField 12 1 @ writeVarintField 13 1
     @ (if isNewLogin \<and> regId \<noteq> 0
        then writeMessageField 19
               (device_pairing_data v regId identityPubKey signedPreKeyPub signedPreKeySig signedPreKeyId)
             @ writeVarintField 33 0
        else writeVarintField 33 1 @ (if jid \<noteq> [] then login_user jid else []) @ writeVarintField 41 0)"

subsection \<open>Device identities of the pairing\<close>

record adv_device_identity =
  rawId :: u32
  adv_timestamp :: u64
  keyIndex :: u32
  accountType :: u32
  deviceType :: u32

definition no_device_identity :: adv_device_identity where
  "no_device_identity = \<lparr>rawId = 0, adv_timestamp = 0, keyIndex = 0, accountType = 0, deviceType = 0\<rparr>"

record adv_signed_device_identity =
  adv_details :: bytes
  accountSignatureKey :: bytes
  accountSignature :: bytes
  deviceSignature :: bytes

definition no_signed_identity :: adv_signed_device_identity where
  "no_signed_identity = \<lparr>adv_details = [], accountSignatureKey = [], accountSignature = [],
     deviceSignature = []\<rparr>"

record adv_hmac =
  hmac_details :: bytes
  hmac :: bytes
  hmac_accountType :: u32

definition no_adv_hmac :: adv_hmac where
  "no_adv_hmac = \<lparr>hmac_details = [], hmac = [], hmac_accountType = 0\<rparr>"

definition adv_hmac_field :: "u32 \<Rightarrow> u32 \<Rightarrow> adv_hmac \<Rightarrow> reader \<Rightarrow> adv_hmac step outcome option" where
  "adv_hmac_field field wt m r =
     (if field = 1 \<and> wt = 2 then on_bytes (\<lambda>b m. m\<lparr>hmac_details := b\<rparr>) m r
      else if field = 2 \<and> wt = 2 then on_bytes (\<lambda>b m. m\<lparr>hmac := b\<rparr>) m r
      else if field = 3 \<and> wt = 0 then on_varint (\<lambda>v m. m\<lparr>hmac_accountType := ucast v\<rparr>) m r
      else skip wt m r)"

text \<open>The loops of these three decoders test only \<open>readTag\<close>, which fails at the end of the data.\<close>

definition decodeADVSignedDeviceIdentityHMAC :: "bytes \<Rightarrow> adv_hmac outcome option" where
  "decodeADVSignedDeviceIdentityHMAC d = read_fields adv_hmac_field (new_reader d) no_adv_hmac"

definition adv_signed_field ::
  "u32 \<Rightarrow> u32 \<Rightarrow> adv_signed_device_identity \<Rightarrow> reader \<Rightarrow> adv_signed_device_identity step outcome option" where
  "adv_signed_field field wt m r =
     (if field = 1 \<and> wt = 2 then on_bytes (\<lambda>b m. m\<lparr>adv_details := b\<rparr>) m r
      else if field = 2 \<and> wt = 2 then on_bytes (\<lambda>b m. m\<lparr>accountSignatureKey := b\<rparr>) m r
      else if field = 3 \<and> wt = 2 then on_bytes (\<lambda>b m. m\<lparr>accountSignature := b\<rparr>) m r
      else if field = 4 \<and> wt = 2 then on_bytes (\<lambda>b m. m\<lparr>deviceSignature := b\<rparr>) m r
      else skip wt m r)"

definition decodeADVSignedDeviceIdentity :: "bytes \<Rightarrow> adv_signed_device_identity outcome option" where
  "decodeADVSignedDeviceIdentity d = read_fields adv_signed_field (new_reader d) no_signed_identity"

definition adv_device_field ::
  "u32 \<Rightarrow> u32 \<Rightarrow> adv_device_identity \<Rightarrow> reader \<Rightarrow> adv_device_identity step outcome option" where
  "adv_device_field field wt m r =
     (if field = 1 \<and> wt = 0 then on_varint (\<lambda>v m. m\<lparr>rawId := ucast v\<rparr>) m r
      else if field = 2 \<and> wt = 0 then on_varint (\<lambda>v m. m\<lparr>adv_timestamp := v\<rparr>) m r
      else if field = 3 \<and> wt = 0 then on_varint (\<lambda>v m. m\<lparr>keyIndex := ucast v\<rparr>) m r
      else if field = 4 \<and> wt = 0 then on_varint (\<lambda>v m. m\<lparr>accountType := ucast v\<rparr>) m r
      else if field = 5 \<and> wt = 0 then on_varint (\<lambda>v m. m\<lparr>deviceType := ucast v\<rparr>) m r
      else skip wt m r)"

definition decodeADVDeviceIdentity :: "bytes \<Rightarrow> adv_device_identity outcome option" where
  "decodeADVDeviceIdentity d = read_fields adv_device_field (new_reader d) no_device_identity"

definition encodeADVSignedDeviceIdentity :: "adv_signed_device_identity \<Rightarrow> bytes" where
  "encodeADVSignedDeviceIdentity i =
     (if adv_details i \<noteq> [] then writeBytesField 1 (adv_details i) else [])
     @ (if accountSignature i \<noteq> [] then writeBytesField 3 (accountSignature i) else [])
     @ (if deviceSignature i \<noteq> [] then writeBytesField 4 (deviceSignature i) else [])"

end
