(* ===== verification/ProtoWire.thy ===== *)
theory ProtoWire
  imports WAProto
begin

unbundle bit_operations_syntax

text \<open>
  What the protocol buffers of \<open>WAProto\<close> promise: every writer has a reader that takes its bytes
  back, so the messages the program writes survive, padding included; and the one way a decoder
  never returns.
\<close>

subsection \<open>Varints\<close>

lemma bit_top: "bit (0x80 :: u8) n \<longleftrightarrow> n = 7"
  using bit_exp_iff[where 'a = "8 word" and m = 7 and n = n] by auto

lemma last_group:
  fixes v :: u64
  assumes "\<not> v > 0x7F"
  shows "(ucast v :: u8) AND 0x80 = 0" "ucast ((ucast v :: u8) AND 0x7F) = v"
proof -
  have "v < 128" using assms by (simp add: word_less_nat_alt word_le_nat_alt)
  then have b: "bit v n \<Longrightarrow> n < 7" for n using bit_below[of v 7 n] by simp
  show "(ucast v :: u8) AND 0x80 = 0"
    by (rule bit_word_eqI) (simp only: bit_and_iff bit_top, auto simp: bit_simps dest: b)
  show "ucast ((ucast v :: u8) AND 0x7F) = v"
    unfolding masks by (rule bit_word_eqI) (auto simp: bit_simps dest: b)
qed

lemma more_group:
  fixes v :: u64
  shows "((ucast (v AND 0x7F) :: u8) OR 0x80) AND 0x80 \<noteq> 0"
    "ucast (((ucast (v AND 0x7F) :: u8) OR 0x80) AND 0x7F) = v AND 0x7F"
proof -
  have "bit (((ucast (v AND 0x7F) :: u8) OR 0x80) AND 0x80) 7"
    by (simp only: bit_and_iff bit_or_iff bit_top) simp
  then show "((ucast (v AND 0x7F) :: u8) OR 0x80) AND 0x80 \<noteq> 0" by auto
  show "ucast (((ucast (v AND 0x7F) :: u8) OR 0x80) AND 0x7F) = v AND 0x7F"
    unfolding masks
    by (rule bit_word_eqI)
      (simp only: bit_unsigned_iff bit_and_iff bit_or_iff bit_top bit_mask_iff, auto)
qed

lemma groups_join:
  fixes v :: u64
  shows "push_bit s (v AND 0x7F) OR push_bit (s + 7) (drop_bit 7 v) = push_bit s v"
  unfolding masks
proof (rule bit_word_eqI)
  fix n :: nat
  assume "n < LENGTH(64)"
  then show "bit (push_bit s (v AND mask 7) OR push_bit (s + 7) (drop_bit 7 v)) n = bit (push_bit s v) n"
    by (cases "n < s"; cases "n < s + 7") (auto simp: bit_simps)
qed

text \<open>A reader stands before \<open>xs\<close>.\<close>

definition at :: "reader \<Rightarrow> bytes \<Rightarrow> bool" where
  "at r xs = (length (rdata r) < 2 ^ 63 \<and> unat (offset r) \<le> length (rdata r)
     \<and> drop (unat (offset r)) (rdata r) = xs)"

lemma at_new: "length d < 2 ^ 63 \<Longrightarrow> at (new_reader d) d"
  by (simp add: at_def new_reader_def)

lemma at_rlen: "at r xs \<Longrightarrow> unat (rlen r) = length (rdata r)"
  by (simp add: at_def rlen_def unat_of_nat take_bit_nat_eq_self)

lemma at_length: "at r xs \<Longrightarrow> unat (offset r) + length xs = length (rdata r)"
  by (auto simp: at_def)

lemma at_empty: "at r [] \<Longrightarrow> \<not> offset r < rlen r"
  using at_rlen[of r "[]"] at_length[of r "[]"] by (simp add: word_less_nat_alt)

lemma at_Cons:
  assumes "at r (x # xs)"
  shows "offset r < rlen r" "rdata r ! unat (offset r) = x" "at (r\<lparr>offset := offset r + 1\<rparr>) xs"
proof -
  have l: "unat (offset r) + Suc (length xs) = length (rdata r)" using at_length[OF assms] by simp
  then show "offset r < rlen r" using at_rlen[OF assms] by (simp add: word_less_nat_alt)
  have d: "drop (unat (offset r)) (rdata r) = x # xs" using assms by (simp add: at_def)
  then show "rdata r ! unat (offset r) = x" using l by (metis nth_via_drop)
  have "unat (offset r + 1) = unat (offset r) + 1"
    using l assms by (subst unat_add_lem[THEN iffD1]) (auto simp: at_def)
  then show "at (r\<lparr>offset := offset r + 1\<rparr>) xs"
    using assms l tl_drop[of "unat (offset r)" "rdata r"] d by (simp add: at_def drop_Suc)
qed

lemma varint_back:
  assumes "at r (writeVarint v @ ys)" "s < 64" "unat v < 2 ^ (64 - s)"
  shows "\<exists>r'. varint_loop r out s = (True, out OR push_bit s v, r') \<and> at r' ys"
  using assms
proof (induction v arbitrary: r out s rule: writeVarint.induct)
  case (1 v)
  show ?case
  proof (cases "v > 0x7F")
    case False
    then have "at r (ucast v # ys)" using 1(2) by (simp add: writeVarint.simps[of v])
    from at_Cons[OF this] show ?thesis using last_group[OF False]
      by (simp add: varint_loop.simps[of r])
  next
    case True
    let ?b = "ucast (v AND 0x7F) OR 0x80 :: u8"
    have "at r (?b # writeVarint (drop_bit 7 v) @ ys)"
      using 1(2) True by (simp add: writeVarint.simps[of v])
    note r = at_Cons[OF this]
    have "2 ^ 7 < (2 :: nat) ^ (64 - s)"
      using True 1(4) by (simp add: word_less_nat_alt)
    then have s: "7 < 64 - s" by (rule power_less_imp_less_exp[rotated]) simp
    then have s': "s + 7 < 64" by linarith
    have "unat (drop_bit 7 v) = unat v div 2 ^ 7" by (simp add: drop_bit_eq_div unat_div)
    also have "\<dots> < 2 ^ (64 - (s + 7))"
    proof -
      have e: "64 - s = (64 - (s + 7)) + 7" using s by simp
      have "(2 :: nat) ^ (64 - s) = 2 ^ (64 - (s + 7)) * 2 ^ 7"
        by (subst e) (simp only: power_add)
      then show ?thesis using 1(4) by (simp add: less_mult_imp_div_less)
    qed
    finally have small: "unat (drop_bit 7 v) < 2 ^ (64 - (s + 7))" .
    obtain r' where r': "varint_loop (r\<lparr>offset := offset r + 1\<rparr>) (out OR push_bit s (v AND 0x7F)) (s + 7)
        = (True, (out OR push_bit s (v AND 0x7F)) OR push_bit (s + 7) (drop_bit 7 v), r')" "at r' ys"
      using 1(1)[OF True r(3) s' small] by blast
    moreover have "varint_loop r out s
        = varint_loop (r\<lparr>offset := offset r + 1\<rparr>) (out OR push_bit s (v AND 0x7F)) (s + 7)"
      using r(1,2) more_group[of v] s' by (subst varint_loop.simps) (simp add: Let_def)
    ultimately show ?thesis using groups_join[of s v] by (simp add: or.assoc)
  qed
qed

lemma readVarint_back:
  assumes "at r (writeVarint v @ ys)"
  obtains r' where "readVarint r = (True, v, r')" "at r' ys"
  using varint_back[OF assms, of 0 0] unsigned_less[of v, where 'a = nat] by (auto simp: readVarint_def)

subsection \<open>Fields\<close>

lemma tag_parts:
  fixes f wt :: u32
  assumes "wt < 8"
  shows "ucast (drop_bit 3 (push_bit 3 (ucast f) OR ucast wt :: u64)) = f"
    "ucast ((push_bit 3 (ucast f) OR ucast wt :: u64) AND 0x7) = wt"
proof -
  have b: "bit wt n \<Longrightarrow> n < 3" for n using bit_below[of wt 3 n] assms by simp
  have m: "(0x7 :: u64) = mask 3" by (simp add: mask_eq_exp_minus_1)
  show "ucast (drop_bit 3 (push_bit 3 (ucast f) OR ucast wt :: u64)) = f"
    by (rule bit_word_eqI) (auto simp: bit_simps dest: b)
  show "ucast ((push_bit 3 (ucast f) OR ucast wt :: u64) AND 0x7) = wt"
    unfolding m by (rule bit_word_eqI) (auto simp: bit_simps dest: b)
qed

lemma readTag_back:
  assumes "at r (writeTag f wt @ ys)" "wt < 8"
  obtains r' where "readTag r = (Some (f, wt), r')" "at r' ys"
proof -
  obtain r' where "readVarint r = (True, push_bit 3 (ucast f) OR ucast wt, r')" "at r' ys"
    using assms(1) unfolding writeTag_def by (rule readVarint_back)
  then show thesis using that[of r'] tag_parts[OF assms(2), of f] by (simp add: readTag_def)
qed

lemma at_advance:
  assumes "at r (b @ ys)"
  shows "offset r + word_of_nat (length b) \<le> rlen r" "offset r \<le> offset r + word_of_nat (length b)"
    "at (r\<lparr>offset := offset r + word_of_nat (length b)\<rparr>) ys"
proof -
  have l: "unat (offset r) + length b + length ys = length (rdata r)" using at_length[OF assms] by simp
  have n: "unat (word_of_nat (length b) :: u64) = length b"
    using l assms by (simp add: at_def unat_of_nat take_bit_nat_eq_self)
  have u: "unat (offset r + word_of_nat (length b)) = unat (offset r) + length b"
    using l n assms by (subst unat_add_lem[THEN iffD1]) (auto simp: at_def)
  then show "offset r + word_of_nat (length b) \<le> rlen r" "offset r \<le> offset r + word_of_nat (length b)"
    using l at_rlen[OF assms] by (simp_all add: word_le_nat_alt)
  have "drop (unat (offset r)) (rdata r) = b @ ys" using assms by (simp add: at_def)
  then have "drop (length b) (drop (unat (offset r)) (rdata r)) = ys" by simp
  then show "at (r\<lparr>offset := offset r + word_of_nat (length b)\<rparr>) ys"
    using assms l u by (simp add: at_def add.commute)
qed

lemma readBytes_back:
  assumes "at r (writeVarint (word_of_nat (length b)) @ b @ ys)"
  obtains r' where "readBytes r = Ret (Some b, r')" "at r' ys"
proof -
  obtain q where q: "readVarint r = (True, word_of_nat (length b), q)" "at q (b @ ys)"
    using assms by (rule readVarint_back)
  have n: "unat (word_of_nat (length b) :: u64) = length b"
    using at_length[OF q(2)] q(2) by (simp add: at_def unat_of_nat take_bit_nat_eq_self)
  have "drop (unat (offset q)) (rdata q) = b @ ys" using q(2) by (simp add: at_def)
  then have "readBytes r = Ret (Some b, q\<lparr>offset := offset q + word_of_nat (length b)\<rparr>)"
    using at_advance(1,2)[OF q(2)] q(1) n by (simp add: readBytes_def not_less)
  then show thesis using that at_advance(3)[OF q(2)] by blast
qed

text \<open>The loop reads \<open>xs\<close> to the end and turns \<open>m\<close> into \<open>m'\<close>.\<close>

definition parses ::
  "(u32 \<Rightarrow> u32 \<Rightarrow> 'm \<Rightarrow> reader \<Rightarrow> 'm step outcome option) \<Rightarrow> bytes \<Rightarrow> 'm \<Rightarrow> 'm \<Rightarrow> bool" where
  "parses body xs m m' = (\<forall>r. at r xs \<longrightarrow> read_fields body r m = Some (Ret m'))"

named_theorems field_intros "what the loop makes of a field that was written"

lemma parses_end [field_intros]: "parses body [] m m"
  using at_empty by (auto simp: parses_def read_fields.simps)

lemma parses_tag:
  assumes "wt < 8"
    and "\<And>r. at r xs \<Longrightarrow> \<exists>r'. body f wt m r = Some (Ret (Next m1 r')) \<and> at r' ys"
    and "parses body ys m1 m'"
  shows "parses body (writeTag f wt @ xs) m m'"
  unfolding parses_def
proof (intro allI impI)
  fix r
  assume r: "at r (writeTag f wt @ xs)"
  obtain q where q: "readTag r = (Some (f, wt), q)" "at q xs" using r assms(1) by (rule readTag_back)
  obtain r' where r': "body f wt m q = Some (Ret (Next m1 r'))" "at r' ys" using assms(2) q(2) by blast
  have "writeTag f wt \<noteq> []" by (simp add: writeTag_def writeVarint.simps)
  then obtain x zs where "writeTag f wt @ xs = x # zs" by (cases "writeTag f wt") auto
  then have "offset r < rlen r" using at_Cons(1)[of r x zs] r by simp
  then have "read_fields body r m = read_fields body r' m1"
    using q(1) r'(1) by (subst read_fields.simps) simp
  then show "read_fields body r m = Some (Ret m')" using assms(3) r'(2) by (simp add: parses_def)
qed

lemma parses_bytes [field_intros]:
  assumes "\<And>m r. body f 2 m r = on_bytes upd m r" "parses body ys (upd b m) m'"
  shows "parses body (writeBytesField f b @ ys) m m'"
  unfolding writeBytesField_def append_assoc
proof (rule parses_tag[OF _ _ assms(2)])
  fix r
  assume "at r (writeVarint (word_of_nat (length b)) @ b @ ys)"
  then obtain r' where "readBytes r = Ret (Some b, r')" "at r' ys" by (rule readBytes_back)
  then show "\<exists>r'. body f 2 m r = Some (Ret (Next (upd b m) r')) \<and> at r' ys"
    by (simp add: assms(1) on_bytes_def)
qed simp

lemma parses_string [field_intros]:
  assumes "\<And>m r. body f 2 m r = on_string upd m r" "parses body ys (upd s m) m'"
  shows "parses body (writeStringField f s @ ys) m m'"
  unfolding writeStringField_def append_assoc
proof (rule parses_tag[OF _ _ assms(2)])
  fix r
  assume "at r (writeVarint (word_of_nat (length s)) @ map to_byte s @ ys)"
  then obtain r' where "readBytes r = Ret (Some (map to_byte s), r')" "at r' ys"
    using readBytes_back[of r "map to_byte s"] by auto
  then show "\<exists>r'. body f 2 m r = Some (Ret (Next (upd s m) r')) \<and> at r' ys"
    by (simp add: assms(1) on_string_def readString_def del: map_map)
qed simp

lemma parses_varint [field_intros]:
  assumes "\<And>m r. body f 0 m r = on_varint upd m r" "parses body ys (upd v m) m'"
  shows "parses body (writeVarintField f v @ ys) m m'"
  unfolding writeVarintField_def append_assoc
proof (rule parses_tag[OF _ _ assms(2)])
  fix r
  assume "at r (writeVarint v @ ys)"
  then obtain r' where "readVarint r = (True, v, r')" "at r' ys" by (rule readVarint_back)
  then show "\<exists>r'. body f 0 m r = Some (Ret (Next (upd v m) r')) \<and> at r' ys"
    by (simp add: assms(1) on_varint_def)
qed simp

lemma parses_message [field_intros]:
  assumes "\<And>m r. body f 2 m r = on_message g m r" "g b m = Some (Ret m1)" "parses body ys m1 m'"
  shows "parses body (writeMessageField f b @ ys) m m'"
  unfolding writeMessageField_def append_assoc
proof (rule parses_tag[OF _ _ assms(3)])
  fix r
  assume "at r (writeVarint (word_of_nat (length b)) @ b @ ys)"
  then obtain r' where "readBytes r = Ret (Some b, r')" "at r' ys" by (rule readBytes_back)
  then show "\<exists>r'. body f 2 m r = Some (Ret (Next m1 r')) \<and> at r' ys"
    by (simp add: assms(1,2) on_message_def)
qed simp

text \<open>The last field of a message.\<close>

lemmas last_field = parses_bytes[where ys = "[]", simplified] parses_string[where ys = "[]", simplified]
  parses_varint[where ys = "[]", simplified] parses_message[where ys = "[]", simplified]

lemma parses_run: "parses body d m m' \<Longrightarrow> length d < 2 ^ 63 \<Longrightarrow> read_fields body (new_reader d) m = Some (Ret m')"
  using at_new[of d] by (simp add: parses_def)

subsection \<open>Messages read back\<close>

lemma ucast_up: "ucast (ucast (v :: u32) :: u64) = v"
  by (rule bit_word_eqI) (auto simp: bit_simps)

lemma signal_message_back:
  assumes "length (encodeSignalMessageProto rk cnt prev ct) < 2 ^ 63"
  shows "decodeSignalMessageInner (encodeSignalMessageProto rk cnt prev ct)
    = Some (Ret \<lparr>ratchet_key = rk, counter = cnt, previous_counter = prev, ciphertext = ct\<rparr>)"
proof -
  have "parses signal_field (encodeSignalMessageProto rk cnt prev ct) no_signal_message
      \<lparr>ratchet_key = rk, counter = cnt, previous_counter = prev, ciphertext = ct\<rparr>"
    unfolding encodeSignalMessageProto_def
    by (rule parses_bytes, simp add: signal_field_def, rule parses_varint, simp add: signal_field_def,
        rule parses_varint, simp add: signal_field_def, rule last_field(1), simp add: signal_field_def)
      (use parses_end in \<open>simp add: no_signal_message_def ucast_up\<close>)
  then show ?thesis using assms unfolding decodeSignalMessageInner_def by (rule parses_run)
qed

text \<open>C23: A Signal message the program writes is read back with the key, the counters and the
  ciphertext it was written with, and the decoder returns.\<close>

theorem signal_message_round_trip:
  assumes "length (encodeSignalMessageProto rk cnt prev ct) < 2 ^ 63"
  shows "decodeSignalMessageInner (encodeSignalMessageProto rk cnt prev ct)
    = Some (Ret \<lparr>ratchet_key = rk, counter = cnt, previous_counter = prev, ciphertext = ct\<rparr>)"
  using assms by (rule signal_message_back)

text \<open>The loop on a field nobody knows whose length is 2^64 - 11: adding it to the position takes the
  reader back to the tag of the field.\<close>

definition hang :: bytes where
  "hang = [0x7A, 0xF5, 0xFF, 0xFF, 0xFF, 0xFF, 0xFF, 0xFF, 0xFF, 0xFF, 0x01]"

lemma hang_field: "hang = writeTag 15 2 @ writeVarint (- 11)"
  by code_simp

lemma varint_rdata: "rdata (snd (snd (varint_loop r out s))) = rdata r"
  by (induction r out s rule: varint_loop.induct) (subst varint_loop.simps, simp add: Let_def)

lemma hang_step:
  assumes "length rest < 2 ^ 62" and r0: "r0 = new_reader (hang @ rest)"
  obtains r1 where "offset r0 < rlen r0" "readTag r0 = (Some (15, 2), r1)" "skipField 2 r1 = r0"
proof -
  have len: "length (hang @ rest) = 11 + length rest" by (simp add: hang_def)
  have a: "at r0 (writeTag 15 2 @ writeVarint (- 11) @ rest)"
    using at_new[of "hang @ rest"] assms(1) len unfolding r0 hang_field append_assoc by simp
  have lt: "offset r0 < rlen r0"
    using at_Cons(1)[of r0 "0x7A" "tl hang @ rest"] at_new[of "hang @ rest"] assms(1)
    by (simp add: r0 hang_def)
  obtain r1 where r1: "readTag r0 = (Some (15, 2), r1)" "at r1 (writeVarint (- 11) @ rest)"
    using readTag_back[OF a] by auto
  obtain r2 where r2: "readVarint r1 = (True, - 11, r2)" "at r2 rest" using r1(2) by (rule readVarint_back)
  have d1: "rdata r1 = rdata r0"
    using varint_rdata[of r0 0 0] r1(1) by (auto simp: readTag_def readVarint_def split: prod.splits)
  have d2: "rdata r2 = hang @ rest"
    using varint_rdata[of r1 0 0] r2(1) d1 by (simp add: readVarint_def r0 new_reader_def)
  have "unat (offset r2) = 11" using at_length[OF r2(2)] d2 len by simp
  then have o2: "offset r2 = 11" by (simp add: word_unat_eq_iff)
  have "skipField 2 r1 = r2\<lparr>offset := 0\<rparr>"
    using r2(1) o2 by (simp add: skipField_def skip_fixed_def)
  also have "\<dots> = r0" using d2 by (simp add: r0 new_reader_def)
  finally show thesis using that lt r1(1) by blast
qed

lemma hang_forever:
  assumes "length rest < 2 ^ 62" "\<And>m r. body 15 2 m r = skip 2 m r"
  shows "read_fields body (new_reader (hang @ rest)) m = None"
proof (rule ccontr)
  assume "read_fields body (new_reader (hang @ rest)) m \<noteq> None"
  then obtain y where y: "read_fields body (new_reader (hang @ rest)) m = Some y" by blast
  have "body' = body \<longrightarrow> r \<noteq> new_reader (hang @ rest)"
    if "read_fields body' r m' = Some y'" for body' r m' y'
  proof (rule read_fields.raw_induct[where P = "\<lambda>b r m y. b = body \<longrightarrow> r \<noteq> new_reader (hang @ rest)",
        OF _ that], goal_cases)
    case (1 f body' r m' y')
    show ?case
    proof (intro impI notI)
      assume b: "body' = body" and r: "r = new_reader (hang @ rest)"
      obtain r1 where "offset r < rlen r" "readTag r = (Some (15, 2), r1)" "skipField 2 r1 = r"
        using assms(1) r by (rule hang_step)
      then have "f body' r m' = Some y'"
        using 1(2) b assms(2) by (simp add: skip_def)
      then show False using 1(1) b r by blast
    qed
  qed
  with y show False by blast
qed

text \<open>C24: Eleven bytes in front of any data keep every decoder in its loop for ever: a field of an unknown
  number whose length, added to the position, wraps around to the start of the field.\<close>

theorem decoders_never_return:
  assumes "length rest < 2 ^ 62"
  shows "decodeSignalMessageInner (hang @ rest) = None \<and> decodePreKeySignalMessage (hang @ rest) = None
    \<and> decodeMessage (hang @ rest) = None \<and> decodeWebMessageInfo (hang @ rest) = None
    \<and> decodeServerHello (hang @ rest) = None \<and> decodeADVSignedDeviceIdentityHMAC (hang @ rest) = None
    \<and> decodeADVSignedDeviceIdentity (hang @ rest) = None \<and> decodeADVDeviceIdentity (hang @ rest) = None"
  unfolding decodeSignalMessageInner_def decodePreKeySignalMessage_def decodeMessage_def
    decodeWebMessageInfo_def decodeServerHello_def decodeADVSignedDeviceIdentityHMAC_def
    decodeADVSignedDeviceIdentity_def decodeADVDeviceIdentity_def
  by (intro conjI hang_forever assms)
    (simp_all add: signal_field_def pre_key_field_def chat_field_def web_field_def handshake_field_def
      adv_hmac_field_def adv_signed_field_def adv_device_field_def)

lemma decoders_never_return_witness: "decodeSignalMessageInner (hang @ [0x12, 0x00]) = None"
  using decoders_never_return[of "[0x12, 0x00]"] by simp

text \<open>Padding comes off again, and a text survives the whole way.\<close>

lemma pad_byte:
  defines "pb n \<equiv> (let p = (word_of_nat (n + 1) :: u8) AND 0x0f in if p = 0 then 0x0f else p)"
  shows "1 \<le> pb n \<and> pb n < 16"
proof -
  let ?p = "(word_of_nat (n + 1) :: u8) AND 0x0f"
  have "?p < 16" unfolding masks using and_mask_less'[of 4 "word_of_nat (n + 1) :: u8"] by simp
  then show ?thesis by (auto simp: pb_def Let_def word_le_nat_alt Suc_le_eq unat_gt_0)
qed

lemma unpad_pad: "unpadRandomMax16 (padRandomMax16 d) = d"
proof (cases "d = []")
  case True
  then show ?thesis by (simp add: padRandomMax16_def unpadRandomMax16_def)
next
  case False
  define p where "p = (let p = (word_of_nat (length d + 1) :: u8) AND 0x0f in if p = 0 then 0x0f else p)"
  have p: "1 \<le> p" "p < 16" using pad_byte[of "length d"] by (simp_all add: p_def)
  have pad: "padRandomMax16 d = d @ replicate (unat p) p"
    using False by (simp add: padRandomMax16_def p_def Let_def)
  have n: "unat p \<noteq> 0" using p(1) by (auto simp: word_le_nat_alt)
  have "\<not> p < 1" "\<not> p > 16" using p by (auto simp: word_le_nat_alt word_less_nat_alt)
  then show ?thesis unfolding pad
    using n by (simp add: unpadRandomMax16_def list_all_iff)
qed

lemma length_varint: "unat v < 2 ^ (7 * k) \<Longrightarrow> 0 < k \<Longrightarrow> length (writeVarint v) \<le> k"
proof (induction v arbitrary: k rule: writeVarint.induct)
  case (1 v)
  show ?case
  proof (cases "v > 0x7F")
    case False
    then show ?thesis using 1(3) by (simp add: writeVarint.simps[of v])
  next
    case True
    have "2 ^ 7 < (2 :: nat) ^ (7 * k)" using True 1(2) by (simp add: word_less_nat_alt)
    then have "7 < 7 * k" by (rule power_less_imp_less_exp[rotated]) simp
    then obtain j where j: "k = Suc j" "0 < j" by (cases k) auto
    have e: "7 * k = 7 * j + 7" using j by simp
    have "(2 :: nat) ^ (7 * k) = 2 ^ (7 * j) * 2 ^ 7" by (subst e) (simp only: power_add)
    then have "unat (drop_bit 7 v) < 2 ^ (7 * j)"
      using 1(2) by (simp add: drop_bit_eq_div unat_div less_mult_imp_div_less)
    then have "length (writeVarint (drop_bit 7 v)) \<le> j" using 1(1)[OF True _ j(2)] by blast
    then show ?thesis using True j by (simp add: writeVarint.simps[of v])
  qed
qed

lemma length_writeVarint: "length (writeVarint v) \<le> 10"
  using length_varint[of v 10] unsigned_less[of v, where 'a = nat] by simp

lemma length_chat: "length (encodeMessage (no_chat\<lparr>conversation := t\<rparr>)) \<le> 20 + length t"
  using length_writeVarint[of "word_of_nat (length t)"]
    length_writeVarint[of "push_bit 3 (ucast (1 :: u32)) OR ucast (2 :: u32)"]
  by (simp add: encodeMessage_def no_chat_def writeStringField_def writeTag_def)

lemma chat_back:
  assumes "length t < 2 ^ 60"
  shows "decodeMessage (encodeMessage (no_chat\<lparr>conversation := t\<rparr>)) = Some (Ret (no_chat\<lparr>conversation := t\<rparr>))"
proof -
  let ?m = "no_chat\<lparr>conversation := t\<rparr>"
  have p: "parses chat_field (encodeMessage ?m) no_chat ?m"
  proof (cases "t = []")
    case True
    then show ?thesis using parses_end[of chat_field no_chat] by (simp add: encodeMessage_def no_chat_def)
  next
    case False
    have "parses chat_field (writeStringField 1 t) no_chat ?m"
      by (rule last_field(2)[where upd = "\<lambda>s m. m\<lparr>conversation := s\<rparr>"])
        (simp_all add: chat_field_def parses_end)
    then show ?thesis using False by (simp add: encodeMessage_def no_chat_def)
  qed
  then show ?thesis
    using parses_run[OF p] length_chat[of t] assms by (simp add: decodeMessage_def)
qed

text \<open>C22: The text of a chat message, encoded and padded, is what the receiver extracts after removing
  the padding.\<close>

theorem text_round_trip:
  assumes "length t < 2 ^ 60"
  shows "extractTextFromDecryptedPayload (unpadRandomMax16 (encodeTextMessage t)) = Some (Ret t)"
  using chat_back[OF assms]
  by (simp add: extractTextFromDecryptedPayload_def encodeTextMessage_def unpad_pad text_of_def no_chat_def)

lemma text_round_trip_witness:
  "extractTextFromDecryptedPayload (unpadRandomMax16 (encodeTextMessage ''hello'')) = Some (Ret ''hello'')"
  by (rule text_round_trip) simp

lemma signal_message_round_trip_witness:
  "decodeSignalMessageInner (encodeSignalMessageProto [5, 1] 300 2 [9, 9, 9])
    = Some (Ret \<lparr>ratchet_key = [5, 1], counter = 300, previous_counter = 2, ciphertext = [9, 9, 9]\<rparr>)"
proof -
  have "length (encodeSignalMessageProto [5, 1] 300 2 [9, 9, 9]) = 14" by code_simp
  then show ?thesis by (intro signal_message_round_trip) simp
qed

lemma pre_key_message_round_trip:
  assumes "length (encodePreKeySignalMessageProto pk bk ik im reg spk) < 2 ^ 63"
  shows "decodePreKeySignalMessage (encodePreKeySignalMessageProto pk bk ik im reg spk)
    = Some (Ret \<lparr>pre_key_id = pk, base_key = bk, identity_key = ik, message = im,
        registration_id = reg, signed_pre_key_id = spk\<rparr>)"
proof -
  let ?m = "\<lparr>pre_key_id = pk, base_key = bk, identity_key = ik, message = im,
        registration_id = reg, signed_pre_key_id = spk\<rparr>"
  have rest: "parses pre_key_field
      (writeBytesField 2 bk @ writeBytesField 3 ik @ writeBytesField 4 im
       @ writeVarintField 5 (ucast reg) @ writeVarintField 6 (ucast spk))
      (no_pre_key_message\<lparr>pre_key_id := pk\<rparr>) ?m"
    by (rule parses_bytes, simp add: pre_key_field_def, rule parses_bytes, simp add: pre_key_field_def,
        rule parses_bytes, simp add: pre_key_field_def, rule parses_varint, simp add: pre_key_field_def,
        rule last_field(3), simp add: pre_key_field_def)
      (use parses_end in \<open>simp add: no_pre_key_message_def ucast_up\<close>)
  have "parses pre_key_field (encodePreKeySignalMessageProto pk bk ik im reg spk) no_pre_key_message ?m"
  proof (cases "pk > 0")
    case False
    then have "pk = 0" by (simp add: word_gt_0)
    then have "no_pre_key_message\<lparr>pre_key_id := pk\<rparr> = no_pre_key_message" by (simp add: no_pre_key_message_def)
    then show ?thesis using rest False by (simp add: encodePreKeySignalMessageProto_def)
  next
    case True
    have "parses pre_key_field (writeVarintField 1 (ucast pk) @ writeBytesField 2 bk @ writeBytesField 3 ik
       @ writeBytesField 4 im @ writeVarintField 5 (ucast reg) @ writeVarintField 6 (ucast spk))
       no_pre_key_message ?m"
      by (rule parses_varint[where upd = "\<lambda>v m. m\<lparr>pre_key_id := ucast v\<rparr>"])
        (simp_all add: pre_key_field_def ucast_up rest)
    then show ?thesis using True by (simp add: encodePreKeySignalMessageProto_def)
  qed
  then show ?thesis using assms unfolding decodePreKeySignalMessage_def by (rule parses_run)
qed

end
