(* ===== verification/WALink.thy ===== *)
theory WALink
  imports NoiseXX WSTransport WAWire ProtoWire
begin

text \<open>
  The connection of \<open>src/kernel/WhatsAppGatewayLoop.cpp\<close>, from the websocket frames to the nodes: the
  frame callback, which takes the server hello and then every Noise frame of a websocket frame, and
  \<open>sendNode\<close>. What the callback does with a node, and the nodes it sends in answer, is an argument, a
  function of the node and the Noise state that may throw.
\<close>

subsection \<open>The handshake\<close>

datatype link_effect = Sent bytes | Got BinaryNode

text \<open>What becomes of the server hello: ignored, refused with an exception the callback prints, accepted
  with the answer sent, a trap, or a call that never returns (\<open>None\<close>).\<close>

definition accept_hello ::
  "noise_crypto \<Rightarrow> noise_keys \<Rightarrow> bytes \<Rightarrow> server_hello \<Rightarrow> bytes noisy" where
  "accept_hello N noiseKey clientPayload h s =
     (if length (sh_ephemeral h) \<noteq> 32 then (Throw, s)
      else and_then (processServerHello N (sh_ephemeral h) (sh_static_key h) (sh_payload h) noiseKey s) (\<lambda>c s.
        case encryptClientPayload N clientPayload s of (pe, s) \<Rightarrow>
          let proto = encodeClientFinish c pe
          in (Ret (be24 (length proto) @ proto), finishHandshake N s)))"

definition on_hello ::
  "noise_crypto \<Rightarrow> noise_keys \<Rightarrow> bytes \<Rightarrow> bytes \<Rightarrow> noise_state
    \<Rightarrow> ((bool \<times> link_effect list) outcome \<times> noise_state) option" where
  "on_hello N noiseKey clientPayload frame s =
     (case frame of
        a # b # c # rest \<Rightarrow>
          let len = frame_length a b c
          in if length rest < len then Some (Ret (False, []), s)
             else (case decodeServerHello (take len rest) of
                     None \<Rightarrow> None
                   | Some (Ret h) \<Rightarrow>
                       (case accept_hello N noiseKey clientPayload h s of
                          (Ret f, s) \<Rightarrow> Some (Ret (True, [Sent f]), s)
                        | (Throw, s) \<Rightarrow> Some (Ret (False, []), s)
                        | (Trap, s) \<Rightarrow> Some (Trap, s))
                   | Some Throw \<Rightarrow> Some (Ret (False, []), s)
                   | Some Trap \<Rightarrow> Some (Trap, s))
      | _ \<Rightarrow> Some (Ret (False, []), s))"

subsection \<open>Nodes\<close>

type_synonym react = "BinaryNode \<Rightarrow> noise_state \<Rightarrow> unit outcome \<times> noise_state"

text \<open>The loop over the Noise frames of a websocket frame: the nodes handled, and how it ended. An
  exception of the decryption, of the decoder or of the handler ends the loop and is printed, and the
  rest of the websocket frame is dropped.\<close>

function noise_frames ::
  "noise_crypto \<Rightarrow> (bytes \<Rightarrow> bytes option) \<Rightarrow> react \<Rightarrow> bytes \<Rightarrow> noise_state
    \<Rightarrow> (BinaryNode list \<times> unit outcome) \<times> noise_state" where
  "noise_frames N inflate react (a # b # c # rest) s =
     (let encLen = frame_length a b c
      in if length rest < encLen \<or> encLen = 0 then (([], Ret ()), s)
         else (case noise_decrypt N (take encLen rest) s of
                 (Ret p, s) \<Rightarrow>
                   (case decodeBinaryNode inflate p of
                      Ret n \<Rightarrow>
                        (case react n s of
                           (Ret _, s) \<Rightarrow>
                             (case noise_frames N inflate react (drop encLen rest) s of
                                ((ns, r), s) \<Rightarrow> ((n # ns, r), s))
                         | (Throw, s) \<Rightarrow> (([n], Throw), s)
                         | (Trap, s) \<Rightarrow> (([n], Trap), s))
                    | Throw \<Rightarrow> (([], Throw), s)
                    | Trap \<Rightarrow> (([], Trap), s))
               | (Throw, s) \<Rightarrow> (([], Throw), s)
               | (Trap, s) \<Rightarrow> (([], Trap), s)))"
| "noise_frames N inflate react [] s = (([], Ret ()), s)"
| "noise_frames N inflate react [a] s = (([], Ret ()), s)"
| "noise_frames N inflate react [a, b] s = (([], Ret ()), s)"
  by pat_completeness auto
termination by (relation "measure (\<lambda>(N, inflate, react, d, s). length d)") auto

declare noise_frames.simps(1) [simp del]

text \<open>The callback once the handshake is complete. A frame of fewer than 20 bytes is
  decoded as it is and printed; an
  exception goes no further than the callback, a trap ends the process.\<close>

definition on_frame ::
  "noise_crypto \<Rightarrow> (bytes \<Rightarrow> bytes option) \<Rightarrow> react \<Rightarrow> bytes \<Rightarrow> noise_state
    \<Rightarrow> BinaryNode list outcome \<times> noise_state" where
  "on_frame N inflate react frame s =
     (if length frame < 20 then (case decodeBinaryNode inflate frame of Trap \<Rightarrow> (Trap, s) | _ \<Rightarrow> (Ret [], s))
      else case noise_frames N inflate react frame s of
             ((ns, Trap), s) \<Rightarrow> (Trap, s)
           | ((ns, _), s) \<Rightarrow> (Ret ns, s))"

fun on_frames ::
  "noise_crypto \<Rightarrow> (bytes \<Rightarrow> bytes option) \<Rightarrow> react \<Rightarrow> bytes list \<Rightarrow> noise_state
    \<Rightarrow> BinaryNode list outcome \<times> noise_state" where
  "on_frames N inflate react [] s = (Ret [], s)"
| "on_frames N inflate react (f # fs) s =
     and_then (on_frame N inflate react f s) (\<lambda>ns s.
       and_then (on_frames N inflate react fs s) (\<lambda>ns' s. (Ret (ns @ ns'), s)))"

text \<open>\<open>sendNode\<close>, which takes no lock although its comment says so.\<close>

definition sendNode ::
  "noise_crypto \<Rightarrow> bool \<Rightarrow> bytes \<Rightarrow> BinaryNode \<Rightarrow> noise_state \<Rightarrow> bytes option outcome \<times> noise_state" where
  "sendNode N connected key n s =
     (case encodeBinaryNode n of
        Ret encoded \<Rightarrow>
          (case encodeFrame N encoded s of (frame, s) \<Rightarrow> (Ret (ws_send connected key frame), s))
      | Throw \<Rightarrow> (Throw, s)
      | Trap \<Rightarrow> (Trap, s))"

subsection \<open>The other side\<close>

text \<open>A server seals its payloads with consecutive nonces and sends them as frames, one or more to a
  websocket frame.\<close>

definition server_seal :: "noise_crypto \<Rightarrow> bytes \<Rightarrow> nat \<Rightarrow> bytes \<Rightarrow> bytes" where
  "server_seal N k i p = (let c = aesEncryptGCM N p k (nonce_of i) [] in be24 (length c) @ c)"

fun server_frame :: "noise_crypto \<Rightarrow> bytes \<Rightarrow> nat \<Rightarrow> bytes list \<Rightarrow> bytes" where
  "server_frame N k i [] = []"
| "server_frame N k i (p # ps) = server_seal N k i p @ server_frame N k (i + 1) ps"

fun server_frames :: "noise_crypto \<Rightarrow> bytes \<Rightarrow> nat \<Rightarrow> bytes list list \<Rightarrow> bytes list" where
  "server_frames N k i [] = []"
| "server_frames N k i (g # gs) = server_frame N k i g # server_frames N k (i + length g) gs"

definition expects :: "noise_state \<Rightarrow> bytes \<Rightarrow> nat \<Rightarrow> bool" where
  "expects s k i = (\<exists>t. transport s = Some t \<and> t_dec t = k \<and> read_counter t = word_of_nat i)"

text \<open>The handler of nodes does not touch what is read with.\<close>

definition keeps_reading :: "react \<Rightarrow> bool" where
  "keeps_reading react = (\<forall>n s k i. expects s k i \<longrightarrow> expects (snd (react n s)) k i)"

definition payload_ok :: "bytes \<Rightarrow> bool" where
  "payload_ok p = (p \<noteq> [] \<and> length p + 16 < 2 ^ 24)"

lemma decrypt_sealed:
  assumes "noise_ok N" "expects s k i" "i < 2 ^ 32"
  shows "\<exists>s'. noise_decrypt N (aesEncryptGCM N p k (nonce_of i) []) s = (Ret p, s') \<and> expects s' k (i + 1)"
  using assms gcm_back[OF assms(1)]
  by (auto simp: expects_def noise_decrypt_def generateIV_nonce add.commute)

lemma noise_frames_step:
  assumes "noise_ok N" "payload_ok p"
  shows "noise_frames N inflate react (server_seal N k i p @ rest) s =
    (case noise_decrypt N (aesEncryptGCM N p k (nonce_of i) []) s of
       (Ret p, s) \<Rightarrow>
         (case decodeBinaryNode inflate p of
            Ret n \<Rightarrow>
              (case react n s of
                 (Ret _, s) \<Rightarrow> (case noise_frames N inflate react rest s of ((ns, r), s) \<Rightarrow> ((n # ns, r), s))
               | (Throw, s) \<Rightarrow> (([n], Throw), s)
               | (Trap, s) \<Rightarrow> (([n], Trap), s))
          | Throw \<Rightarrow> (([], Throw), s)
          | Trap \<Rightarrow> (([], Trap), s))
     | (Throw, s) \<Rightarrow> (([], Throw), s)
     | (Trap, s) \<Rightarrow> (([], Trap), s))"
proof -
  let ?c = "aesEncryptGCM N p k (nonce_of i) []"
  have len: "length ?c = length p + 16" by (rule length_noise_sealed[OF assms(1)])
  obtain a b c where e: "be24 (length ?c) = [a, b, c]" by (simp add: be24_def)
  have fl: "frame_length a b c = length ?c" using assms(2) len e by (intro frame_length_be24) (auto simp: payload_ok_def)
  have cond: "\<not> (length (?c @ rest) < length ?c \<or> length ?c = 0)" using len by simp
  have parts: "take (length ?c) (?c @ rest) = ?c" "drop (length ?c) (?c @ rest) = rest" by simp_all
  show ?thesis
    unfolding server_seal_def Let_def e append_assoc append_Cons append_Nil noise_frames.simps(1) fl
    by (simp only: cond parts if_False)
qed

subsection \<open>The nodes of a server are handled in order\<close>

lemma noise_frames_read:
  assumes ok: "noise_ok N" "keeps_reading react" "\<And>n s. fst (react n s) = Ret ()"
    and "expects s k i" "i + length ps \<le> 2 ^ 32" "\<forall>p \<in> set ps. payload_ok p"
    and "map (decodeBinaryNode inflate) ps = map Ret ns"
  shows "\<exists>s'. noise_frames N inflate react (server_frame N k i ps) s = ((ns, Ret ()), s') \<and> expects s' k (i + length ps)"
  using assms(4-)
proof (induction ps arbitrary: s i ns)
  case (Cons p ps)
  obtain n ns' where ns: "ns = n # ns'" "decodeBinaryNode inflate p = Ret n"
    "map (decodeBinaryNode inflate) ps = map Ret ns'" using Cons.prems(4) by (cases ns) auto
  obtain s1 where s1: "noise_decrypt N (aesEncryptGCM N p k (nonce_of i) []) s = (Ret p, s1)" "expects s1 k (i + 1)"
    using decrypt_sealed[OF ok(1) Cons.prems(1)] Cons.prems(2) by auto
  obtain s2 where s2: "react n s1 = (Ret (), s2)" using ok(3)[of n s1] by (cases "react n s1") auto
  have "expects s2 k (i + 1)" using ok(2) s1(2) s2 by (metis keeps_reading_def snd_conv)
  then obtain s3 where "noise_frames N inflate react (server_frame N k (i + 1) ps) s2 = ((ns', Ret ()), s3)"
    "expects s3 k (i + 1 + length ps)"
    using Cons.IH[of s2 "i + 1" ns'] Cons.prems(2,3) ns(3) by auto
  then show ?case
    using noise_frames_step[OF ok(1), of p] Cons.prems(3) s1(1) s2 ns(1,2) by simp
qed simp

lemma length_server_seal: "noise_ok N \<Longrightarrow> length (server_seal N k i p) = length p + 19"
  by (simp add: server_seal_def Let_def length_noise_sealed be24_def)

lemma length_server_frame:
  "noise_ok N \<Longrightarrow> length (server_frame N k i ps) = sum_list (map (\<lambda>p. length p + 19) ps)"
  by (induction ps arbitrary: i) (simp_all add: length_server_seal)

lemma server_frame_long:
  assumes "noise_ok N" "ps \<noteq> []" "\<forall>p \<in> set ps. payload_ok p"
  shows "20 \<le> length (server_frame N k i ps)"
  using assms by (cases ps) (auto simp: length_server_frame length_server_seal payload_ok_def Suc_le_eq)

lemma on_frames_read:
  assumes ok: "noise_ok N" "keeps_reading react" "\<And>n s. fst (react n s) = Ret ()"
    and "expects s k i" "i + length (concat gs) \<le> 2 ^ 32" "\<forall>g \<in> set gs. g \<noteq> [] \<and> (\<forall>p \<in> set g. payload_ok p)"
    and "map (map (decodeBinaryNode inflate)) gs = map (map Ret) nss"
  shows "fst (on_frames N inflate react (server_frames N k i gs) s) = Ret (concat nss)"
  using assms(4-)
proof (induction gs arbitrary: s i nss)
  case (Cons g gs)
  obtain ns nss' where nss: "nss = ns # nss'" "map (decodeBinaryNode inflate) g = map Ret ns"
    "map (map (decodeBinaryNode inflate)) gs = map (map Ret) nss'" using Cons.prems(4) by (cases nss) auto
  obtain s1 where s1: "noise_frames N inflate react (server_frame N k i g) s = ((ns, Ret ()), s1)"
    "expects s1 k (i + length g)"
    using noise_frames_read[OF ok, of s k i g inflate ns] Cons.prems nss(2) by auto
  have "20 \<le> length (server_frame N k i g)" using server_frame_long[OF ok(1)] Cons.prems(3) by simp
  then have "on_frame N inflate react (server_frame N k i g) s = (Ret ns, s1)" using s1(1) by (simp add: on_frame_def)
  moreover have "fst (on_frames N inflate react (server_frames N k (i + length g) gs) s1) = Ret (concat nss')"
    using Cons.IH[OF s1(2)] Cons.prems(2,3) nss(3) by simp
  ultimately show ?case using nss(1)
    by (cases "on_frames N inflate react (server_frames N k (i + length g) gs) s1") simp
qed simp

definition messages :: "ws_effect list \<Rightarrow> bytes list" where
  "messages es = concat (map (\<lambda>e. case e of FrameCb d \<Rightarrow> [d] | _ \<Rightarrow> []) es)"

definition payload_of :: "BinaryNode \<Rightarrow> bytes" where
  "payload_of n = (case encodeBinaryNode n of Ret w \<Rightarrow> w | _ \<Rightarrow> [])"

text \<open>A websocket frame of binary data, without a key as a server sends it.\<close>

definition ws_binary :: "bytes \<Rightarrow> bytes option \<times> u8 \<times> bytes" where
  "ws_binary d = (None, 0x2, d)"

lemma messages_deliver: "messages (deliver (map ws_binary ds)) = ds"
  by (induction ds) (simp_all add: messages_def dispatch_def ws_binary_def)

lemma payload_decodes:
  assumes "node_ok n"
  shows "decodeBinaryNode inflate (payload_of n) = Ret (wire_node n)" "payload_of n \<noteq> []"
proof -
  obtain w where w: "encodeNode n = Ret w" "\<And>bs. decodeNode (w @ bs) = Ret (wire_node n, bs)"
    using nodes_read(1)[OF assms] by blast
  from w(2)[of "[]"] have "decodeNode w = Ret (wire_node n, [])" by simp
  then show "decodeBinaryNode inflate (payload_of n) = Ret (wire_node n)" "payload_of n \<noteq> []"
    using w(1) by (simp_all add: payload_of_def encodeBinaryNode_def decodeBinaryNode_def)
qed

lemma node_encodes: "node_ok n \<Longrightarrow> \<exists>w. encodeBinaryNode n = Ret w"
  using nodes_read(1)[of n] by (auto simp: encodeBinaryNode_def cat_def)

definition groups_fit :: "BinaryNode list list \<Rightarrow> bool" where
  "groups_fit gs = (\<forall>g \<in> set gs. g \<noteq> [] \<and> (\<forall>n \<in> set g. node_ok n)
     \<and> sum_list (map (\<lambda>n. length (payload_of n) + 19) g) \<le> 65535)"

lemma group_payload_ok:
  assumes "groups_fit gs" "g \<in> set gs" "n \<in> set g"
  shows "payload_ok (payload_of n)"
proof -
  have "length (payload_of n) + 19 \<le> sum_list (map (\<lambda>n. length (payload_of n) + 19) g)"
    using assms(3) by (intro member_le_sum_list) auto
  also have "\<dots> \<le> 65535" using assms(1,2) by (simp add: groups_fit_def)
  finally show ?thesis using payload_decodes(2)[of n] assms by (auto simp: payload_ok_def groups_fit_def)
qed

lemma server_frames_fit:
  assumes "noise_ok N" "groups_fit gs" "f \<in> set (map ws_binary (server_frames N k i (map (map payload_of) gs)))"
  shows "frame_fits f"
  using assms(2,3)
proof (induction gs arbitrary: i)
  case (Cons g gs)
  have fits: "groups_fit gs" using Cons.prems(1) by (simp add: groups_fit_def)
  have g: "g \<noteq> []" "length (server_frame N k i (map payload_of g)) \<le> 65535"
    using Cons.prems(1) by (simp_all add: groups_fit_def length_server_frame[OF assms(1)] comp_def)
  have "20 \<le> length (server_frame N k i (map payload_of g))"
    using g(1) group_payload_ok[OF Cons.prems(1), of g] by (intro server_frame_long[OF assms(1)]) auto
  then have "frame_fits (ws_binary (server_frame N k i (map payload_of g)))"
    using g(2) by (auto simp: frame_fits_def ws_binary_def)
  then show ?case using Cons.prems(2) Cons.IH[OF fits] by auto
qed simp


text \<open>A handler that answers nothing, and a node both ends can hold.\<close>

definition quiet :: react where "quiet n s = (Ret (), s)"

definition linked :: "bytes \<Rightarrow> noise_state" where
  "linked k = new_noise\<lparr>sent_intro := True,
     transport := Some \<lparr>t_enc = k, t_dec = k, write_counter = 0, read_counter = 0\<rparr>\<rparr>"

lemma linked_expects: "expects (linked k) k 0"
  by (simp add: expects_def linked_def)

lemma quiet_keeps: "keeps_reading quiet"
  by (simp add: keeps_reading_def quiet_def)

definition bare_node :: "u8 \<Rightarrow> BinaryNode" where
  "bare_node b = BinaryNode '''' [] (Bytes [b])"

lemma bare_node_payload: "payload_of (bare_node b) = [0, 248, 2, 252, 0, 252, 1, b]"
  by (simp add: bare_node_def payload_of_def encodeBinaryNode_def hasContent_def validAttrs_def writeListStart_def
    writeByteLength_def writeStringRaw_def writeString.simps cat_def)

lemma demo_groups: "groups_fit [[bare_node 1, bare_node 2], [bare_node 3]]"
  by (simp add: groups_fit_def bare_node_payload) (simp add: bare_node_def str_ok_def validAttrs_def)


subsection \<open>One bad node\<close>

text \<open>What authenticated encryption adds: a text sealed with one nonce does not open with another.\<close>

definition nonce_bound :: "noise_crypto \<Rightarrow> bool" where
  "nonce_bound N = (\<forall>k i j aad p. i \<noteq> j \<longrightarrow> i < 2 ^ 32 \<longrightarrow> j < 2 ^ 32 \<longrightarrow>
     unseal N k (nonce_of j) aad (fst (seal N k (nonce_of i) aad p)) (snd (seal N k (nonce_of i) aad p)) = None)"

lemma decrypt_lagging:
  assumes "noise_ok N" "nonce_bound N" "expects s k m" "m < i" "i < 2 ^ 32"
  shows "\<exists>s'. noise_decrypt N (aesEncryptGCM N p k (nonce_of i) []) s = (Throw, s') \<and> expects s' k (m + 1)"
proof -
  have "aesDecryptGCM N (aesEncryptGCM N p k (nonce_of i) []) k (nonce_of m) [] = Throw"
    using assms by (auto simp: aesDecryptGCM_def aesEncryptGCM_def noise_ok_def nonce_bound_def Let_def
      case_prod_beta of_opt_def)
  then show ?thesis using assms(3-5)
    by (auto simp: expects_def noise_decrypt_def generateIV_nonce add.commute)
qed

lemma lagging_frame:
  assumes "noise_ok N" "nonce_bound N" "expects s k m" "m < i" "i < 2 ^ 32" "payload_ok p"
  shows "\<exists>s'. on_frame N inflate react (server_frame N k i (p # ps)) s = (Ret [], s') \<and> expects s' k (m + 1)"
proof -
  obtain s' where s': "noise_decrypt N (aesEncryptGCM N p k (nonce_of i) []) s = (Throw, s')" "expects s' k (m + 1)"
    using decrypt_lagging[OF assms(1-5)] by blast
  then have "noise_frames N inflate react (server_frame N k i (p # ps)) s = (([], Throw), s')"
    using noise_frames_step[OF assms(1,6)] by simp
  moreover have "20 \<le> length (server_frame N k i (p # ps))"
    using assms(6) by (cases p) (auto simp: length_server_seal[OF assms(1)] payload_ok_def)
  ultimately show ?thesis using s'(2) by (simp add: on_frame_def)
qed

lemma lagging_for_good:
  assumes ok: "noise_ok N" "nonce_bound N"
    and "expects s k m" "m < i" "i + length (concat gs) \<le> 2 ^ 32" "\<forall>g \<in> set gs. g \<noteq> [] \<and> (\<forall>p \<in> set g. payload_ok p)"
  shows "fst (on_frames N inflate react (server_frames N k i gs) s) = Ret []"
  using assms(3-)
proof (induction gs arbitrary: s m i)
  case (Cons g gs)
  obtain p ps where g: "g = p # ps" using Cons.prems(4) by (cases g) auto
  then obtain s1 where s1: "on_frame N inflate react (server_frame N k i g) s = (Ret [], s1)" "expects s1 k (m + 1)"
    using lagging_frame[OF ok Cons.prems(1,2), of p inflate react ps] Cons.prems(3,4) by auto
  have "m + 1 < i + length g" using Cons.prems(2) g by simp
  from Cons.IH[OF s1(2) this] have "fst (on_frames N inflate react (server_frames N k (i + length g) gs) s1) = Ret []"
    using Cons.prems(3,4) by simp
  then show ?case using s1(1) by (cases "on_frames N inflate react (server_frames N k (i + length g) gs) s1") simp
qed simp


lemma generateIV_inj:
  assumes "generateIV a = generateIV b"
  shows "a = b"
proof -
  have e: "(ucast (drop_bit 24 a) :: u8) = ucast (drop_bit 24 b)"
      "(ucast (drop_bit 16 a AND 0xff) :: u8) = ucast (drop_bit 16 b AND 0xff)"
      "(ucast (drop_bit 8 a AND 0xff) :: u8) = ucast (drop_bit 8 b AND 0xff)"
      "(ucast (a AND 0xff) :: u8) = ucast (b AND 0xff)"
    using assms by (simp_all add: generateIV_def top_byte_mask)
  show ?thesis using u32_bytes[of a] unfolding e u32_bytes[of b] by simp
qed

lemma demo_nonce_bound: "nonce_bound demo_noise"
proof -
  have "demo_tag (nonce_of i) \<noteq> demo_tag (nonce_of j)" if "i \<noteq> j" "i < 2 ^ 32" "j < 2 ^ 32" for i j
  proof
    assume eq: "demo_tag (nonce_of i) = demo_tag (nonce_of j)"
    have "length (nonce_of n) = 12" for n by (simp add: nonce_of_def)
    then have "nonce_of i = nonce_of j" using arg_cong[OF eq, of "take 12"] by (simp add: demo_tag_def)
    then have "(word_of_nat i :: u32) = word_of_nat j" using that generateIV_nonce generateIV_inj by metis
    then show False using that by (simp add: word_of_nat_eq_iff take_bit_nat_eq_self)
  qed
  then show ?thesis by (auto simp: nonce_bound_def demo_noise_def)
qed


subsection \<open>The handshake as the callback runs it\<close>

text \<open>A server wraps its three fields in field 3 of a handshake message.\<close>

definition hello_frame :: "bytes \<Rightarrow> bytes \<Rightarrow> bytes \<Rightarrow> bytes" where
  "hello_frame re rs c =
     (let proto = writeMessageField 3 (writeBytesField 1 re @ writeBytesField 2 rs @ writeBytesField 3 c)
      in be24 (length proto) @ proto)"

lemma server_hello_back:
  assumes "length (writeMessageField 3 (writeBytesField 1 re @ writeBytesField 2 rs @ writeBytesField 3 c)) < 2 ^ 63"
  shows "decodeServerHello (writeMessageField 3 (writeBytesField 1 re @ writeBytesField 2 rs @ writeBytesField 3 c))
    = Some (Ret \<lparr>sh_ephemeral = re, sh_static_key = rs, sh_payload = c\<rparr>)"
proof -
  let ?h = "\<lparr>sh_ephemeral = re, sh_static_key = rs, sh_payload = c\<rparr>"
  let ?body = "writeBytesField 1 re @ writeBytesField 2 rs @ writeBytesField 3 c"
  have "parses hello_field ?body no_hello ?h"
    apply (rule parses_bytes, simp add: hello_field_def)
    apply (rule parses_bytes, simp add: hello_field_def)
    apply (rule last_field(1), simp add: hello_field_def)
    apply (simp add: parses_end no_hello_def)
    done
  moreover have "length ?body < 2 ^ 63" using assms by (simp add: writeMessageField_def)
  ultimately have inner: "read_fields hello_field (new_reader ?body) no_hello = Some (Ret ?h)" by (rule parses_run)
  have "parses handshake_field (writeTag 3 2 @ (writeVarint (word_of_nat (length ?body)) @ ?body @ [])) no_hello ?h"
  proof (rule parses_tag)
    fix r
    assume "at r (writeVarint (word_of_nat (length ?body)) @ ?body @ [])"
    then obtain r' where "readBytes r = Ret (Some ?body, r')" "at r' []" by (rule readBytes_back)
    then show "\<exists>r'. handshake_field 3 2 no_hello r = Some (Ret (Next ?h r')) \<and> at r' []"
      using inner by (simp add: handshake_field_def on_message_def)
  qed (use parses_end in simp_all)
  then have "parses handshake_field (writeMessageField 3 ?body) no_hello ?h" by (simp add: writeMessageField_def)
  then show ?thesis using assms unfolding decodeServerHello_def by (rule parses_run)
qed

text \<open>C38: The callback takes the hello of any responder that follows the pattern: it answers with the
  frame of a client finish the responder accepts, and expects the responder's texts from nonce 0 on.\<close>

theorem hello_accepted:
  assumes ok: "noise_ok N" and sized: "keys_sized ek" "keys_sized nk" "keys_sized ss" "keys_sized se"
    and meet: "pair_agrees N ek se" "pair_agrees N ek ss" "pair_agrees N nk se" and fresh: "transport s = None"
    and hello: "responder_hello N NOISE_WA_HEADER ss se cert (pub ek) = Some (re, rs, c, q)"
    and small: "length (hello_frame re rs c) < 2 ^ 24"
  shows "\<exists>cs pe q' s'. on_hello N nk payload (hello_frame re rs c) (noise_init N ek NOISE_WA_HEADER s)
      = Some (Ret (True, [Sent (be24 (length (encodeClientFinish cs pe)) @ encodeClientFinish cs pe)]), s')
    \<and> responder_finish N cs pe q = Some (payload, q')
    \<and> expects s' (snd (split_keys N q')) 0"
proof -
  let ?proto = "writeMessageField 3 (writeBytesField 1 re @ writeBytesField 2 rs @ writeBytesField 3 c)"
  obtain x y z where e: "be24 (length ?proto) = [x, y, z]" by (simp add: be24_def)
  have len: "length ?proto < 2 ^ 24" using small by (simp add: hello_frame_def Let_def be24_def)
  then have fl: "frame_length x y z = length ?proto" using e by (rule frame_length_be24)
  have dec: "decodeServerHello ?proto = Some (Ret \<lparr>sh_ephemeral = re, sh_static_key = rs, sh_payload = c\<rparr>)"
    using len by (intro server_hello_back) simp
  obtain cs pe q' where x: "xx_initiator N NOISE_WA_HEADER nk ek re rs c payload = Some ([cs], pe, split_keys N q')"
    "responder_finish N cs pe q = Some (payload, q')" "re = pub se" "length rs = 48"
    using ok sized(3) meet hello by (rule xx_agrees)
  have re: "length re = 32" using x(3) sized(4) by (simp add: keys_sized_def)
  obtain k1 k2 where k: "split_keys N q' = (k1, k2)" by fastforce
  from xx_refined[OF ok sized(2,1) re x(4) fresh, where prologue = NOISE_WA_HEADER and cert = c and payload = payload]
  obtain s' where s': "client_finish N re rs c nk payload (noise_init N ek NOISE_WA_HEADER s) = (Ret (cs, pe), s')"
    "transport s' = Some \<lparr>t_enc = k1, t_dec = k2, write_counter = 0, read_counter = 0\<rparr>"
    unfolding x(1) k by auto
  let ?s = "noise_init N ek NOISE_WA_HEADER s"
  have "accept_hello N nk payload \<lparr>sh_ephemeral = re, sh_static_key = rs, sh_payload = c\<rparr> ?s
    = (Ret (be24 (length (encodeClientFinish cs pe)) @ encodeClientFinish cs pe), s')"
    using s'(1) re unfolding client_finish_def accept_hello_def
    by (cases "processServerHello N re rs c nk ?s"; cases "fst (processServerHello N re rs c nk ?s)")
      (auto simp: Let_def split: prod.splits)
  then have "on_hello N nk payload (hello_frame re rs c) ?s
    = Some (Ret (True, [Sent (be24 (length (encodeClientFinish cs pe)) @ encodeClientFinish cs pe)]), s')"
    using dec fl e by (simp add: on_hello_def hello_frame_def Let_def)
  moreover have "expects s' (snd (split_keys N q')) 0" using s'(2) k by (simp add: expects_def)
  ultimately show ?thesis using x(2) by blast
qed

lemma responder_sizes:
  assumes "noise_ok N" "responder_hello N prologue s e cert ce = Some (re, rs, c, q)" "keys_sized s" "keys_sized e"
  shows "length re = 32" "length rs = 48" "length c = length cert + 16"
proof -
  define p where "p = mix_hash N ce ((start_party N False prologue s e)\<lparr>p_re := ce\<rparr>)"
  define p1 where "p1 = mix_hash N (pub e) p"
  define p2 where "p2 = mix_key N (dh_of N EE p1) p1"
  obtain d p3 where d: "encrypt_and_hash N (pub s) p2 = (d, p3)" by fastforce
  define p4 where "p4 = mix_key N (dh_of N ES p3) p3"
  obtain c' p5 where c: "encrypt_and_hash N cert p4 = (c', p5)" by fastforce
  have "p_e p = e" "p_s p2 = s" "p_e p4 = e"
    using encrypt_frame[OF d] by (simp_all add: p_def p1_def p2_def p4_def start_party_def Let_def)
  then have r: "re = pub e" "rs = d" "c = c'"
    using assms(2) d c unfolding responder_hello_def
    by (simp_all add: p_def[symmetric] p1_def[symmetric] p2_def[symmetric] p4_def[symmetric])
  have "p_k p2 \<noteq> None" "p_k p4 \<noteq> None" by (simp_all add: p2_def p4_def)
  then show "length re = 32" "length rs = 48" "length c = length cert + 16"
    using encrypt_nonempty[OF assms(1) d] encrypt_nonempty[OF assms(1) c] assms(3,4) r
    by (simp_all add: keys_sized_def)
qed

lemma hello_accepted_witness:
  "\<exists>re rs c q cs pe q' s'. responder_hello demo_noise NOISE_WA_HEADER (demo_keys 3) (demo_keys 4) [5, 6]
      (pub (demo_keys 2)) = Some (re, rs, c, q)
    \<and> on_hello demo_noise (demo_keys 1) [7] (hello_frame re rs c)
        (noise_init demo_noise (demo_keys 2) NOISE_WA_HEADER new_noise)
      = Some (Ret (True, [Sent (be24 (length (encodeClientFinish cs pe)) @ encodeClientFinish cs pe)]), s')
    \<and> responder_finish demo_noise cs pe q = Some ([7], q')
    \<and> expects s' (snd (split_keys demo_noise q')) 0"
proof -
  note ok = demo_noise_ok
  obtain re rs c q where h: "responder_hello demo_noise NOISE_WA_HEADER (demo_keys 3) (demo_keys 4) [5, 6]
      (pub (demo_keys 2)) = Some (re, rs, c, q)"
    using responder_answers by (metis prod_cases4)
  note sizes = responder_sizes[OF ok h demo_keys_ok(1) demo_keys_ok(1)]
  have tag: "length (writeTag f w) \<le> 10" for f w by (simp add: writeTag_def length_writeVarint)
  have "length (hello_frame re rs c) \<le> 200"
    using sizes tag[of 3 2] tag[of 1 2] tag[of 2 2]
      length_writeVarint[of "word_of_nat (length (writeBytesField 1 re @ writeBytesField 2 rs @ writeBytesField 3 c))"]
      length_writeVarint[of 32] length_writeVarint[of 48] length_writeVarint[of 18]
    by (simp add: hello_frame_def Let_def be24_def writeMessageField_def writeBytesField_def)
  then have "length (hello_frame re rs c) < 2 ^ 24" by simp
  from hello_accepted[OF ok demo_keys_ok(1) demo_keys_ok(1) demo_keys_ok(1) demo_keys_ok(1)
      demo_keys_ok(2) demo_keys_ok(2) demo_keys_ok(2) _ h this, where s = new_noise and payload = "[7]"]
  show ?thesis using h by (fastforce simp: new_noise_def)
qed

subsection \<open>The nodes of the program arrive\<close>

fun send_nodes ::
  "noise_crypto \<Rightarrow> (bytes \<times> BinaryNode) list \<Rightarrow> noise_state \<Rightarrow> bytes option list outcome \<times> noise_state" where
  "send_nodes N [] s = (Ret [], s)"
| "send_nodes N ((key, n) # ns) s =
     and_then (sendNode N True key n s) (\<lambda>f s. and_then (send_nodes N ns s) (\<lambda>fs s. (Ret (f # fs), s)))"

lemma send_nodes_frames:
  assumes "\<forall>(key, n) \<in> set ns. node_ok n"
  shows "\<exists>frames. length frames = length ns
    \<and> fst (send_nodes N ns s) = Ret (map2 (\<lambda>(key, n) f. Some (rfc_frame (Some key) 0x2 f)) ns frames)
    \<and> concat frames = fst (encode_all N (map (payload_of \<circ> snd) ns) s)"
  using assms
proof (induction ns arbitrary: s)
  case (Cons kn ns)
  obtain key n where kn: "kn = (key, n)" by (cases kn)
  have "node_ok n" using Cons.prems kn by simp
  then obtain w where w: "encodeBinaryNode n = Ret w" using node_encodes by blast
  obtain f s1 where f: "encodeFrame N w s = (f, s1)" by fastforce
  obtain frames where fr: "length frames = length ns"
    "fst (send_nodes N ns s1) = Ret (map2 (\<lambda>(key, n) f. Some (rfc_frame (Some key) 0x2 f)) ns frames)"
    "concat frames = fst (encode_all N (map (payload_of \<circ> snd) ns) s1)"
    using Cons.IH[of s1] Cons.prems by (metis list.set_intros(2))
  have "payload_of n = w" using w by (simp add: payload_of_def)
  then have "concat (f # frames) = fst (encode_all N (map (payload_of \<circ> snd) (kn # ns)) s)"
    using f fr(3) kn by (simp add: case_prod_beta)
  moreover have "fst (send_nodes N (kn # ns) s)
      = Ret (map2 (\<lambda>(key, n) f. Some (rfc_frame (Some key) 0x2 f)) (kn # ns) (f # frames))"
    using w f fr(2) kn by (cases "send_nodes N ns s1") (simp add: sendNode_def ws_send_def sent_is_rfc)
  moreover have "length (f # frames) = length (kn # ns)" using fr(1) by simp
  ultimately show ?case by blast
qed simp



text \<open>Two threads call \<open>sendNode\<close>, the main loop for pings and queued texts and the reading thread for
  receipts, and nothing keeps a frame that was sealed first from being sent second.\<close>

lemma swapped_sends_refused:
  assumes "noise_ok N" "nonce_bound N" "transport s = Some t" "sent_intro s" "write_counter t = word_of_nat i"
    and "i + 1 < 2 ^ 32" "length p + 16 < 2 ^ 24" "length q + 16 < 2 ^ 24"
    and "encodeFrame N p s = (f, s1)" "encodeFrame N q s1 = (g, s2)"
  shows "Option.bind (split_frames (g @ f)) (open_all N (t_enc t) i) = None"
proof -
  define c where "c = aesEncryptGCM N p (t_enc t) (nonce_of i) []"
  define d where "d = aesEncryptGCM N q (t_enc t) (nonce_of (i + 1)) []"
  have ivs: "generateIV (write_counter t) = nonce_of i" "generateIV (write_counter t + 1) = nonce_of (i + 1)"
    using generateIV_nonce[of i] generateIV_nonce[of "i + 1"] assms(5,6) by (simp_all add: add.commute)
  have f: "f = be24 (length c) @ c" "g = be24 (length d) @ d"
    using assms(3,4,9,10) ivs by (auto simp: encodeFrame_def noise_encrypt_def c_def d_def Let_def)
  have len: "length c < 2 ^ 24" "length d < 2 ^ 24" using assms(7,8) by (simp_all add: c_def d_def length_noise_sealed[OF assms(1)])
  have "split_frames (g @ f) = Some [d, c]"
    unfolding f using split_frames_one[OF len(2), of "be24 (length c) @ c"] split_frames_one[OF len(1), of "[]"] by simp
  moreover have "aesDecryptGCM N d (t_enc t) (nonce_of i) [] = Throw"
    using assms(1,2,6) by (auto simp: d_def aesDecryptGCM_def aesEncryptGCM_def noise_ok_def nonce_bound_def Let_def
      case_prod_beta of_opt_def)
  ultimately show ?thesis by simp
qed

end
