(* ===== verification/SignalTypes.thy ===== *)
theory SignalTypes
  imports Bytes
begin

unbundle bit_operations_syntax

text \<open>
  The records of the Signal library and their length-prefixed codecs
  (\<open>src/kernel/signal/SignalTypes.cpp\<close>, \<open>include/animus_kernel/signal/SignalTypes.h\<close>). A
  \<open>std::array<uint8_t, 32>\<close> is a list of 32 bytes, zero by default; the unread part of the data
  stands for the offset. A reader that runs out of data returns what it has, as the code does.
\<close>

subsection \<open>Records\<close>

definition zero_key :: bytes where
  "zero_key = replicate 32 0"

lemma length_zero_key [simp]: "length zero_key = 32"
  by (simp add: zero_key_def)

record keypair =
  public_key :: bytes
  private_key :: bytes

definition no_keypair :: keypair where
  "no_keypair = \<lparr>public_key = zero_key, private_key = zero_key\<rparr>"

record address =
  name :: string
  device_id :: u32

definition to_string :: "address \<Rightarrow> string" where
  "to_string a = (if device_id a = 0 then name a else name a @ ''.'' @ dec (unat (device_id a)))"

record pre_key =
  pk_id :: u32
  pk_keypair :: keypair

record signed_pre_key =
  spk_id :: u32
  spk_keypair :: keypair
  spk_signature :: bytes

record key_bundle =
  b_registration_id :: u32
  b_device_id :: u32
  b_pre_key :: keypair
  b_pre_key_id :: "u32 option"
  b_signed_pre_key :: signed_pre_key
  b_identity_key :: keypair

text \<open>The type of a message is any byte that was cast to the enumeration.\<close>

record encrypted_message =
  em_type :: u8
  em_ciphertext :: bytes
  em_header :: bytes
  em_counter :: u32

abbreviation Whisper :: u8 where "Whisper \<equiv> 2"
abbreviation PreKey :: u8 where "PreKey \<equiv> 3"

record group_message =
  gm_group_id :: string
  gm_sender :: address
  gm_ciphertext :: bytes
  gm_counter :: u32

record session_record =
  sr_state :: bytes
  sr_version :: u32
  sr_is_fresh :: bool

record sender_key_record =
  sk_group_id :: string
  sk_sender :: address
  sk_iteration :: u32
  sk_chain_key :: bytes
  sk_signing_key :: keypair
  sk_state :: bytes

definition no_pre_key :: pre_key where
  "no_pre_key = \<lparr>pk_id = 0, pk_keypair = no_keypair\<rparr>"

definition no_signed_pre_key :: signed_pre_key where
  "no_signed_pre_key = \<lparr>spk_id = 0, spk_keypair = no_keypair, spk_signature = []\<rparr>"

definition no_bundle :: key_bundle where
  "no_bundle = \<lparr>b_registration_id = 0, b_device_id = 0, b_pre_key = no_keypair, b_pre_key_id = None,
     b_signed_pre_key = no_signed_pre_key, b_identity_key = no_keypair\<rparr>"

definition no_encrypted :: encrypted_message where
  "no_encrypted = \<lparr>em_type = Whisper, em_ciphertext = [], em_header = [], em_counter = 0\<rparr>"

definition no_group_message :: group_message where
  "no_group_message = \<lparr>gm_group_id = [], gm_sender = \<lparr>name = [], device_id = 0\<rparr>,
     gm_ciphertext = [], gm_counter = 0\<rparr>"

definition no_session :: session_record where
  "no_session = \<lparr>sr_state = [], sr_version = 1, sr_is_fresh = True\<rparr>"

definition no_sender_key :: sender_key_record where
  "no_sender_key = \<lparr>sk_group_id = [], sk_sender = \<lparr>name = [], device_id = 0\<rparr>, sk_iteration = 0,
     sk_chain_key = [], sk_signing_key = no_keypair, sk_state = []\<rparr>"

subsection \<open>Writing and reading\<close>

definition write_u32_be :: "u32 \<Rightarrow> bytes" where
  "write_u32_be v = [ucast (drop_bit 24 v AND 0xff), ucast (drop_bit 16 v AND 0xff),
     ucast (drop_bit 8 v AND 0xff), ucast (v AND 0xff)]"

text \<open>Only called where four bytes were seen to be there.\<close>

definition read_u32_be :: "bytes \<Rightarrow> u32" where
  "read_u32_be d = push_bit 24 (ucast (d ! 0)) OR push_bit 16 (ucast (d ! 1))
     OR push_bit 8 (ucast (d ! 2)) OR ucast (d ! 3)"

definition write_bytes :: "bytes \<Rightarrow> bytes" where
  "write_bytes b = write_u32_be (word_of_nat (length b)) @ b"

definition read_bytes :: "bytes \<Rightarrow> bytes option \<times> bytes" where
  "read_bytes d =
     (if length d < 4 then (None, d)
      else let len = unat (read_u32_be d); d = drop 4 d
        in if length d < len then (None, d) else (Some (take len d), drop len d))"

definition read_fixed32 :: "bytes \<Rightarrow> bytes \<Rightarrow> bytes \<times> bytes" where
  "read_fixed32 arr d = (if length d < 32 then (arr, d) else (take 32 d, drop 32 d))"

text \<open>The two keys of a pair one after the other.\<close>

definition read_keypair :: "keypair \<Rightarrow> bytes \<Rightarrow> keypair \<times> bytes" where
  "read_keypair kp d =
     (case read_fixed32 (public_key kp) d of (p, d) \<Rightarrow>
        case read_fixed32 (private_key kp) d of (s, d) \<Rightarrow> (\<lparr>public_key = p, private_key = s\<rparr>, d))"

definition serialize_pre_key :: "pre_key \<Rightarrow> bytes" where
  "serialize_pre_key k =
     write_u32_be (pk_id k) @ public_key (pk_keypair k) @ private_key (pk_keypair k)"

definition deserialize_pre_key :: "bytes \<Rightarrow> pre_key" where
  "deserialize_pre_key d =
     (if length d < 4 then no_pre_key
      else \<lparr>pk_id = read_u32_be d, pk_keypair = fst (read_keypair no_keypair (drop 4 d))\<rparr>)"

definition serialize_signed_pre_key :: "signed_pre_key \<Rightarrow> bytes" where
  "serialize_signed_pre_key k =
     write_u32_be (spk_id k) @ public_key (spk_keypair k) @ private_key (spk_keypair k)
     @ write_bytes (spk_signature k)"

definition deserialize_signed_pre_key :: "bytes \<Rightarrow> signed_pre_key" where
  "deserialize_signed_pre_key d =
     (if length d < 4 then no_signed_pre_key
      else case read_keypair no_keypair (drop 4 d) of (kp, r) \<Rightarrow>
        \<lparr>spk_id = read_u32_be d, spk_keypair = kp,
         spk_signature = (case fst (read_bytes r) of None \<Rightarrow> [] | Some s \<Rightarrow> s)\<rparr>)"

definition serialize_bundle :: "key_bundle \<Rightarrow> bytes" where
  "serialize_bundle b =
     write_u32_be (b_registration_id b) @ write_u32_be (b_device_id b)
     @ (case b_pre_key_id b of
          Some i \<Rightarrow> write_u32_be 1 @ write_u32_be i @ public_key (b_pre_key b)
        | None \<Rightarrow> write_u32_be 0)
     @ write_u32_be (spk_id (b_signed_pre_key b)) @ public_key (spk_keypair (b_signed_pre_key b))
     @ write_bytes (spk_signature (b_signed_pre_key b)) @ public_key (b_identity_key b)"

text \<open>The second half of the bundle, after the optional pre-key.\<close>

definition read_bundle_rest :: "key_bundle \<Rightarrow> bytes \<Rightarrow> key_bundle" where
  "read_bundle_rest b d =
     (if length d < 4 then b
      else let spk = (b_signed_pre_key b)\<lparr>spk_id := read_u32_be d\<rparr>
        in case read_fixed32 (public_key (spk_keypair spk)) (drop 4 d) of (p, d1) \<Rightarrow>
           case read_bytes d1 of (sig, d2) \<Rightarrow>
           case read_fixed32 (public_key (b_identity_key b)) d2 of (i, d3) \<Rightarrow>
             b\<lparr>b_signed_pre_key := spk\<lparr>spk_keypair := (spk_keypair spk)\<lparr>public_key := p\<rparr>,
                                       spk_signature := (case sig of None \<Rightarrow> [] | Some s \<Rightarrow> s)\<rparr>,
               b_identity_key := (b_identity_key b)\<lparr>public_key := i\<rparr>\<rparr>)"

definition deserialize_bundle :: "bytes \<Rightarrow> key_bundle" where
  "deserialize_bundle d =
     (if length d < 12 then no_bundle
      else let b = no_bundle\<lparr>b_registration_id := read_u32_be d,
                             b_device_id := read_u32_be (drop 4 d)\<rparr>;
               has_pk = read_u32_be (drop 8 d) \<noteq> 0; d = drop 12 d
        in if \<not> has_pk then read_bundle_rest b d
           else if length d < 36 then b
           else case read_fixed32 (public_key (b_pre_key b)) (drop 4 d) of (p, d1) \<Rightarrow>
             read_bundle_rest
               (b\<lparr>b_pre_key_id := Some (read_u32_be d),
                  b_pre_key := (b_pre_key b)\<lparr>public_key := p\<rparr>\<rparr>) d1)"

definition serialize_encrypted :: "encrypted_message \<Rightarrow> bytes" where
  "serialize_encrypted m =
     em_type m # write_bytes (em_ciphertext m) @ write_bytes (em_header m) @ write_u32_be (em_counter m)"

definition deserialize_encrypted :: "bytes \<Rightarrow> encrypted_message" where
  "deserialize_encrypted d =
     (case d of
        [] \<Rightarrow> no_encrypted
      | t # d \<Rightarrow> let m = no_encrypted\<lparr>em_type := t\<rparr>
          in case read_bytes d of
               (None, d) \<Rightarrow> m
             | (Some ct, d) \<Rightarrow> let m = m\<lparr>em_ciphertext := ct\<rparr>
                 in case read_bytes d of
                      (None, d) \<Rightarrow> m
                    | (Some hdr, d) \<Rightarrow> let m = m\<lparr>em_header := hdr\<rparr>
                        in if length d < 4 then m else m\<lparr>em_counter := read_u32_be d\<rparr>)"

definition serialize_group :: "group_message \<Rightarrow> bytes" where
  "serialize_group m =
     write_bytes (map to_byte (gm_group_id m)) @ write_bytes (map to_byte (name (gm_sender m)))
     @ write_u32_be (device_id (gm_sender m)) @ write_bytes (gm_ciphertext m)
     @ write_u32_be (gm_counter m)"

definition deserialize_group :: "bytes \<Rightarrow> group_message" where
  "deserialize_group d =
     (case read_bytes d of
        (None, d) \<Rightarrow> no_group_message
      | (Some gid, d) \<Rightarrow> let m = no_group_message\<lparr>gm_group_id := map to_char gid\<rparr>
          in case read_bytes d of
               (None, d) \<Rightarrow> m
             | (Some sn, d) \<Rightarrow> let m = m\<lparr>gm_sender := (gm_sender m)\<lparr>name := map to_char sn\<rparr>\<rparr>
                 in if length d < 4 then m
                    else let m = m\<lparr>gm_sender := (gm_sender m)\<lparr>device_id := read_u32_be d\<rparr>\<rparr>
                      in case read_bytes (drop 4 d) of
                           (None, d) \<Rightarrow> m
                         | (Some ct, d) \<Rightarrow> let m = m\<lparr>gm_ciphertext := ct\<rparr>
                             in if length d < 4 then m else m\<lparr>gm_counter := read_u32_be d\<rparr>)"

definition serialize_session :: "session_record \<Rightarrow> bytes" where
  "serialize_session r =
     write_u32_be (sr_version r) @ [if sr_is_fresh r then 1 else 0] @ write_bytes (sr_state r)"

definition deserialize_session :: "bytes \<Rightarrow> session_record" where
  "deserialize_session d =
     (if length d < 5 then no_session
      else \<lparr>sr_state = (case fst (read_bytes (drop 5 d)) of None \<Rightarrow> [] | Some s \<Rightarrow> s),
            sr_version = read_u32_be d, sr_is_fresh = (d ! 4 \<noteq> 0)\<rparr>)"

definition serialize_sender_key :: "sender_key_record \<Rightarrow> bytes" where
  "serialize_sender_key r =
     write_bytes (map to_byte (sk_group_id r)) @ write_bytes (map to_byte (name (sk_sender r)))
     @ write_u32_be (device_id (sk_sender r)) @ write_u32_be (sk_iteration r)
     @ write_bytes (sk_chain_key r) @ public_key (sk_signing_key r) @ private_key (sk_signing_key r)
     @ write_bytes (sk_state r)"

definition deserialize_sender_key :: "bytes \<Rightarrow> sender_key_record" where
  "deserialize_sender_key d =
     (case read_bytes d of
        (None, d) \<Rightarrow> no_sender_key
      | (Some gid, d) \<Rightarrow> let r = no_sender_key\<lparr>sk_group_id := map to_char gid\<rparr>
          in case read_bytes d of
               (None, d) \<Rightarrow> r
             | (Some sn, d) \<Rightarrow> let r = r\<lparr>sk_sender := (sk_sender r)\<lparr>name := map to_char sn\<rparr>\<rparr>
                 in if length d < 4 then r
                    else let r = r\<lparr>sk_sender := (sk_sender r)\<lparr>device_id := read_u32_be d\<rparr>\<rparr>;
                             d = drop 4 d
                      in if length d < 4 then r
                         else let r = r\<lparr>sk_iteration := read_u32_be d\<rparr>
                           in case read_bytes (drop 4 d) of
                                (None, d) \<Rightarrow> r
                              | (Some ck, d) \<Rightarrow>
                                  case read_keypair (sk_signing_key r) d of (kp, d) \<Rightarrow>
                                    r\<lparr>sk_chain_key := ck, sk_signing_key := kp,
                                      sk_state := (case fst (read_bytes d) of None \<Rightarrow> [] | Some s \<Rightarrow> s)\<rparr>)"

subsection \<open>Records read back\<close>

definition key_ok :: "bytes \<Rightarrow> bool" where
  "key_ok k = (length k = 32)"

definition keypair_ok :: "keypair \<Rightarrow> bool" where
  "keypair_ok kp = (key_ok (public_key kp) \<and> key_ok (private_key kp))"

abbreviation fits :: "'a list \<Rightarrow> bool" where
  "fits xs \<equiv> length xs < 2 ^ 32"

lemma length_write_u32 [simp]: "length (write_u32_be v) = 4"
  by (simp add: write_u32_be_def)

lemma read_write_u32 [simp]: "read_u32_be (write_u32_be v @ d) = v"
  using u32_bytes[of v] top_byte_mask[of v] by (simp add: read_u32_be_def write_u32_be_def)

lemma drop_write_u32 [simp]: "drop 4 (write_u32_be v @ d) = d"
  by (simp add: write_u32_be_def)

lemma read_write_bytes [simp]: "fits b \<Longrightarrow> read_bytes (write_bytes b @ d) = (Some b, d)"
  by (simp add: read_bytes_def write_bytes_def unat_of_nat take_bit_nat_eq_self)

lemma read_write_key [simp]: "key_ok k \<Longrightarrow> read_fixed32 a (k @ d) = (k, d)"
  by (simp add: read_fixed32_def key_ok_def)

lemma read_write_keypair [simp]:
  "keypair_ok kp \<Longrightarrow> read_keypair a (public_key kp @ private_key kp @ d) = (kp, d)"
  by (simp add: read_keypair_def keypair_ok_def)

text \<open>The same with nothing after the last part.\<close>

lemmas read_last [simp] =
  read_write_u32[where d = "[]", simplified] read_write_bytes[where d = "[]", simplified]
  read_write_key[where d = "[]", simplified] read_write_keypair[where d = "[]", simplified]

lemma pre_key_back: "keypair_ok (pk_keypair k) \<Longrightarrow> deserialize_pre_key (serialize_pre_key k) = k"
  by (simp add: deserialize_pre_key_def serialize_pre_key_def)

lemma signed_pre_key_back:
  "keypair_ok (spk_keypair k) \<Longrightarrow> fits (spk_signature k)
     \<Longrightarrow> deserialize_signed_pre_key (serialize_signed_pre_key k) = k"
  by (simp add: deserialize_signed_pre_key_def serialize_signed_pre_key_def)

lemma session_back: "fits (sr_state r) \<Longrightarrow> deserialize_session (serialize_session r) = r"
proof -
  assume f: "fits (sr_state r)"
  let ?flag = "if sr_is_fresh r then 1 else 0 :: u8"
  have d: "drop 5 (write_u32_be v @ b # d) = d" "(write_u32_be v @ b # d) ! 4 = b" for v b d
    by (simp_all add: write_u32_be_def)
  show ?thesis using f
    by (simp add: deserialize_session_def serialize_session_def d)
qed

lemma encrypted_back:
  "fits (em_ciphertext m) \<Longrightarrow> fits (em_header m) \<Longrightarrow> deserialize_encrypted (serialize_encrypted m) = m"
  by (simp add: deserialize_encrypted_def serialize_encrypted_def Let_def)

lemma group_back:
  "fits (gm_group_id m) \<Longrightarrow> fits (name (gm_sender m)) \<Longrightarrow> fits (gm_ciphertext m)
     \<Longrightarrow> deserialize_group (serialize_group m) = m"
  by (simp add: deserialize_group_def serialize_group_def Let_def del: map_map)

lemma sender_key_back:
  "fits (sk_group_id r) \<Longrightarrow> fits (name (sk_sender r)) \<Longrightarrow> fits (sk_chain_key r) \<Longrightarrow> fits (sk_state r)
     \<Longrightarrow> keypair_ok (sk_signing_key r) \<Longrightarrow> deserialize_sender_key (serialize_sender_key r) = r"
  by (simp add: deserialize_sender_key_def serialize_sender_key_def Let_def del: map_map)

text \<open>A bundle is sent with public keys only, and with a pre-key only if it has an id for it.\<close>

definition public_bundle :: "key_bundle \<Rightarrow> key_bundle" where
  "public_bundle b =
     b\<lparr>b_pre_key := \<lparr>public_key = (if b_pre_key_id b = None then zero_key else public_key (b_pre_key b)),
                     private_key = zero_key\<rparr>,
       b_signed_pre_key := (b_signed_pre_key b)\<lparr>spk_keypair :=
         \<lparr>public_key = public_key (spk_keypair (b_signed_pre_key b)), private_key = zero_key\<rparr>\<rparr>,
       b_identity_key := \<lparr>public_key = public_key (b_identity_key b), private_key = zero_key\<rparr>\<rparr>"

lemma bundle_rest_back:
  assumes "key_ok (public_key (spk_keypair s))" "key_ok i" "fits (spk_signature s)"
  shows "read_bundle_rest b (write_u32_be (spk_id s) @ public_key (spk_keypair s)
      @ write_bytes (spk_signature s) @ i)
    = b\<lparr>b_signed_pre_key := (b_signed_pre_key b)\<lparr>spk_id := spk_id s,
          spk_keypair := (spk_keypair (b_signed_pre_key b))\<lparr>public_key := public_key (spk_keypair s)\<rparr>,
          spk_signature := spk_signature s\<rparr>,
        b_identity_key := (b_identity_key b)\<lparr>public_key := i\<rparr>\<rparr>"
  using assms by (simp add: read_bundle_rest_def Let_def)

text \<open>A pre-key bundle is read back as it was, less the private keys, which it does not carry, and with
  a pre-key exactly if it has an id for one.\<close>

lemma bundle_round_trip:
  assumes "key_ok (public_key (spk_keypair (b_signed_pre_key b)))" "key_ok (public_key (b_identity_key b))"
    and "fits (spk_signature (b_signed_pre_key b))"
    and "b_pre_key_id b \<noteq> None \<Longrightarrow> key_ok (public_key (b_pre_key b))"
  shows "deserialize_bundle (serialize_bundle b) = public_bundle b"
proof -
  have d: "drop 8 (write_u32_be u @ write_u32_be v @ d) = d" "drop 12 (write_u32_be u @ write_u32_be v @ write_u32_be w @ d) = d"
    for u v w d by (simp_all add: write_u32_be_def)
  show ?thesis
  proof (cases "b_pre_key_id b")
    case None
    then show ?thesis
      using bundle_rest_back[OF assms(1,2,3)]
      by (simp add: deserialize_bundle_def serialize_bundle_def Let_def d public_bundle_def
          no_bundle_def no_keypair_def no_signed_pre_key_def)
  next
    case (Some i)
    then have "key_ok (public_key (b_pre_key b))" using assms(4) by simp
    then show ?thesis
      using Some bundle_rest_back[OF assms(1,2,3)] assms
      by (simp add: deserialize_bundle_def serialize_bundle_def Let_def d public_bundle_def
          no_bundle_def no_keypair_def no_signed_pre_key_def key_ok_def)
  qed
qed

definition demo_bundle :: key_bundle where
  "demo_bundle = no_bundle\<lparr>b_registration_id := 77, b_pre_key_id := Some 5,
     b_pre_key := \<lparr>public_key = replicate 32 9, private_key = replicate 32 8\<rparr>,
     b_signed_pre_key := \<lparr>spk_id = 3, spk_keypair = \<lparr>public_key = replicate 32 7, private_key = zero_key\<rparr>,
       spk_signature = replicate 64 1\<rparr>\<rparr>"

lemma bundle_round_trip_example:
  "deserialize_bundle (serialize_bundle demo_bundle) = public_bundle demo_bundle"
  by (rule bundle_round_trip)
    (simp_all add: demo_bundle_def key_ok_def no_bundle_def no_keypair_def)

lemma read_fixed32_ok: "key_ok a \<Longrightarrow> key_ok (fst (read_fixed32 a d))"
  by (auto simp: read_fixed32_def key_ok_def)

lemma read_keypair_ok: "keypair_ok kp \<Longrightarrow> keypair_ok (fst (read_keypair kp d))"
  using read_fixed32_ok by (auto simp: read_keypair_def keypair_ok_def split: prod.splits)
    (metis fst_conv)+

lemma keypair_ok_no [simp]: "keypair_ok no_keypair" "key_ok zero_key"
  by (simp_all add: keypair_ok_def key_ok_def no_keypair_def)

definition bundle_keys_ok :: "key_bundle \<Rightarrow> bool" where
  "bundle_keys_ok b = (keypair_ok (b_pre_key b) \<and> keypair_ok (spk_keypair (b_signed_pre_key b))
     \<and> keypair_ok (b_identity_key b))"

lemma bundle_rest_ok: "bundle_keys_ok b \<Longrightarrow> bundle_keys_ok (read_bundle_rest b d)"
  using read_fixed32_ok
  by (auto simp: read_bundle_rest_def Let_def bundle_keys_ok_def keypair_ok_def split: prod.splits)
    (metis fst_conv)+

lemma bundle_ok: "bundle_keys_ok (deserialize_bundle d)"
proof -
  have no: "bundle_keys_ok no_bundle"
    by (simp add: no_bundle_def bundle_keys_ok_def no_signed_pre_key_def)
  have upd: "bundle_keys_ok (b\<lparr>b_registration_id := x, b_device_id := y\<rparr>) = bundle_keys_ok b" for b x y
    by (simp add: bundle_keys_ok_def)
  have pk: "bundle_keys_ok (b\<lparr>b_pre_key_id := i, b_pre_key := (b_pre_key b)\<lparr>public_key := p\<rparr>\<rparr>)"
    if "bundle_keys_ok b" "read_fixed32 (public_key (b_pre_key b)) e = (p, r)" for b i e p r
    using that read_fixed32_ok[of "public_key (b_pre_key b)" e] by (simp add: bundle_keys_ok_def keypair_ok_def)
  let ?b = "no_bundle\<lparr>b_registration_id := read_u32_be d, b_device_id := read_u32_be (drop 4 d)\<rparr>"
  have b: "bundle_keys_ok ?b" using no upd by blast
  obtain p r where p: "read_fixed32 (public_key (b_pre_key ?b)) (drop 4 (drop 12 d)) = (p, r)" by fastforce
  show ?thesis
    unfolding deserialize_bundle_def Let_def p prod.case
    using no b bundle_rest_ok[OF b] bundle_rest_ok[OF pk[OF b p]] by simp
qed


end
