(* ===== verification/DoubleRatchet.thy ===== *)
theory DoubleRatchet
  imports SignalTypes
begin

text \<open>
  The Double Ratchet of \<open>src/kernel/signal/DoubleRatchet.cpp\<close>: key derivation, the state and its
  serialization, and the ratchet operations with their skipped keys. OpenSSL is a parameter, a
  record of the functions the code calls; a call that draws randomness takes the number of draws
  made before it and returns the next. \<open>Throw\<close> is a \<open>std::runtime_error\<close>, \<open>Trap\<close> a read past the
  end of the data or of a value that was never set.
\<close>

subsection \<open>The library of primitives\<close>

record crypto =
  dh :: "bytes \<Rightarrow> bytes \<Rightarrow> bytes outcome"
  hkdf :: "bytes \<Rightarrow> bytes \<Rightarrow> bytes \<Rightarrow> nat \<Rightarrow> bytes"
  hmac_sha256 :: "bytes \<Rightarrow> bytes \<Rightarrow> bytes"
  gcm_enc :: "bytes \<Rightarrow> bytes \<Rightarrow> bytes \<Rightarrow> bytes \<times> bytes"
  gcm_dec :: "bytes \<Rightarrow> bytes \<Rightarrow> bytes \<Rightarrow> bytes \<Rightarrow> bytes option"
  cbc_enc :: "bytes \<Rightarrow> bytes \<Rightarrow> bytes \<Rightarrow> bytes"
  cbc_dec :: "bytes \<Rightarrow> bytes \<Rightarrow> bytes \<Rightarrow> bytes"
  keygen :: "nat \<Rightarrow> keypair"
  rand :: "nat \<Rightarrow> nat \<Rightarrow> bytes"
  sha512 :: "bytes \<Rightarrow> bytes"
  ed_base :: "bytes \<Rightarrow> bytes"
  sc_reduce :: "bytes \<Rightarrow> bytes"
  sc_mul :: "bytes \<Rightarrow> bytes \<Rightarrow> bytes"
  sc_add :: "bytes \<Rightarrow> bytes \<Rightarrow> bytes"
  verify :: "bytes \<Rightarrow> bytes \<Rightarrow> bytes \<Rightarrow> bool"
  mod_inverse :: "int \<Rightarrow> int \<Rightarrow> int option"

abbreviation KEY_SIZE :: nat where "KEY_SIZE \<equiv> 32"
abbreviation NONCE_SIZE :: nat where "NONCE_SIZE \<equiv> 12"
abbreviation TAG_SIZE :: nat where "TAG_SIZE \<equiv> 16"
abbreviation MAX_SKIP :: nat where "MAX_SKIP \<equiv> 1000"

definition hkdf_derive :: "crypto \<Rightarrow> bytes \<Rightarrow> bytes \<Rightarrow> bytes \<Rightarrow> nat \<Rightarrow> bytes" where
  "hkdf_derive C ikm salt info n =
     hkdf C ikm (if length salt = 0 then replicate 32 0 else salt) info n"

record gcm =
  g_ciphertext :: bytes
  g_nonce :: bytes
  g_tag :: bytes

definition aes_gcm_encrypt :: "crypto \<Rightarrow> nat \<Rightarrow> bytes \<Rightarrow> bytes \<Rightarrow> gcm \<times> nat" where
  "aes_gcm_encrypt C n key pt =
     (let nonce = rand C n NONCE_SIZE; (ct, tag) = gcm_enc C key nonce pt
      in (\<lparr>g_ciphertext = ct, g_nonce = nonce, g_tag = tag\<rparr>, n + 1))"

definition aes_gcm_decrypt :: "crypto \<Rightarrow> bytes \<Rightarrow> gcm \<Rightarrow> bytes outcome" where
  "aes_gcm_decrypt C key g = of_opt (gcm_dec C key (g_nonce g) (g_ciphertext g) (g_tag g))"

definition ascii :: "string \<Rightarrow> bytes" where
  "ascii s = map to_byte s"

definition kdf_rk :: "crypto \<Rightarrow> bytes \<Rightarrow> bytes \<Rightarrow> bytes \<times> bytes" where
  "kdf_rk C root dh_output =
     (let derived = hkdf_derive C dh_output root (ascii ''WhisperRatchet'') (KEY_SIZE * 2)
      in (take KEY_SIZE derived, drop KEY_SIZE derived))"

text \<open>The next chain key and the message key.\<close>

definition kdf_ck :: "crypto \<Rightarrow> bytes \<Rightarrow> bytes \<times> bytes" where
  "kdf_ck C ck = (hmac_sha256 C ck [0x02], hmac_sha256 C ck [0x01])"

subsection \<open>The state\<close>

record skipped_key =
  header_key :: bytes
  message_number :: u32
  message_key :: bytes

record ratchet_state =
  self_identity :: keypair
  remote_identity :: bytes
  self_ratchet :: keypair
  remote_ratchet :: "bytes option"
  root_key :: bytes
  sending_chain_key :: "bytes option"
  receiving_chain_key :: "bytes option"
  sending_count :: u32
  receiving_count :: u32
  prev_sending_count :: u32
  skipped_keys :: "skipped_key list"

definition write_opt_key :: "bytes option \<Rightarrow> bytes" where
  "write_opt_key k = (case k of None \<Rightarrow> [0] | Some b \<Rightarrow> 1 # b)"

definition write_skipped :: "skipped_key \<Rightarrow> bytes" where
  "write_skipped k = header_key k @ write_u32_be (message_number k) @ message_key k"

definition serialize :: "ratchet_state \<Rightarrow> bytes" where
  "serialize s =
     write_u32_be 1
     @ public_key (self_identity s) @ private_key (self_identity s)
     @ remote_identity s
     @ public_key (self_ratchet s) @ private_key (self_ratchet s)
     @ write_opt_key (remote_ratchet s)
     @ root_key s
     @ write_opt_key (sending_chain_key s)
     @ write_opt_key (receiving_chain_key s)
     @ write_u32_be (sending_count s) @ write_u32_be (receiving_count s)
     @ write_u32_be (prev_sending_count s)
     @ write_u32_be (word_of_nat (length (skipped_keys s)))
     @ concat (map write_skipped (skipped_keys s))"

text \<open>At the end of the data \<open>read_u32\<close> is 0, and \<open>read_fixed\<close> leaves its target as it is: zero for
  the members the class initialises, undefined for the others.\<close>

definition read_u32 :: "bytes \<Rightarrow> u32 \<times> bytes" where
  "read_u32 d = (if length d < 4 then (0, d) else (read_u32_be d, drop 4 d))"

definition read_fresh :: "bytes \<Rightarrow> (bytes \<times> bytes) outcome" where
  "read_fresh d = (if length d < 32 then Trap else Ret (take 32 d, drop 32 d))"

text \<open>\<open>data[offset++] != 0\<close>, which no test precedes.\<close>

definition read_flag :: "bytes \<Rightarrow> (bool \<times> bytes) outcome" where
  "read_flag d = (case d of [] \<Rightarrow> Trap | b # d \<Rightarrow> Ret (b \<noteq> 0, d))"

definition read_opt_key :: "bytes \<Rightarrow> (bytes option \<times> bytes) outcome" where
  "read_opt_key d =
     bind_outcome (read_flag d) (\<lambda>(has, d).
       if has then bind_outcome (read_fresh d) (\<lambda>(k, d). Ret (Some k, d)) else Ret (None, d))"

fun read_skipped :: "nat \<Rightarrow> bytes \<Rightarrow> skipped_key list outcome" where
  "read_skipped n d =
     (if n = 0 then Ret []
      else bind_outcome (read_fresh d) (\<lambda>(h, d).
        case read_u32 d of (i, d) \<Rightarrow>
          bind_outcome (read_fresh d) (\<lambda>(k, d).
            bind_outcome (read_skipped (n - 1) d) (\<lambda>ks.
              Ret (\<lparr>header_key = h, message_number = i, message_key = k\<rparr> # ks)))))"

declare read_skipped.simps [simp del]

definition deserialize :: "bytes \<Rightarrow> ratchet_state option outcome" where
  "deserialize d =
     (case read_u32 d of (version, d) \<Rightarrow>
        if version \<noteq> 1 then Ret None
        else case read_keypair no_keypair d of (si, d) \<Rightarrow>
          bind_outcome (read_fresh d) (\<lambda>(ri, d).
            case read_keypair no_keypair d of (sr, d) \<Rightarrow>
              bind_outcome (read_opt_key d) (\<lambda>(rr, d).
                case read_fixed32 zero_key d of (rk, d) \<Rightarrow>
                  bind_outcome (read_opt_key d) (\<lambda>(sck, d).
                    bind_outcome (read_opt_key d) (\<lambda>(rck, d).
                      case read_u32 d of (sc, d) \<Rightarrow>
                      case read_u32 d of (rc, d) \<Rightarrow>
                      case read_u32 d of (pc, d) \<Rightarrow>
                      case read_u32 d of (n, d) \<Rightarrow>
                        bind_outcome (read_skipped (unat n) d) (\<lambda>ks.
                          Ret (Some \<lparr>self_identity = si, remote_identity = ri, self_ratchet = sr,
                            remote_ratchet = rr, root_key = rk, sending_chain_key = sck,
                            receiving_chain_key = rck, sending_count = sc, receiving_count = rc,
                            prev_sending_count = pc, skipped_keys = ks\<rparr>)))))))"

subsection \<open>Operations\<close>

definition ratchet_init_as_initiator ::
  "crypto \<Rightarrow> nat \<Rightarrow> keypair \<Rightarrow> bytes \<Rightarrow> bytes \<Rightarrow> bytes \<Rightarrow> (ratchet_state \<times> nat) outcome" where
  "ratchet_init_as_initiator C n our_identity their_identity root their_ratchet =
     (let kp = keygen C n
      in bind_outcome (dh C (private_key kp) their_ratchet) (\<lambda>dh_out.
        case kdf_rk C root dh_out of (new_root, send_chain) \<Rightarrow>
          Ret (\<lparr>self_identity = our_identity, remote_identity = their_identity, self_ratchet = kp,
                remote_ratchet = Some their_ratchet, root_key = new_root,
                sending_chain_key = Some send_chain, receiving_chain_key = None, sending_count = 0,
                receiving_count = 0, prev_sending_count = 0, skipped_keys = []\<rparr>, n + 1)))"

definition ratchet_init_as_recipient :: "keypair \<Rightarrow> bytes \<Rightarrow> bytes \<Rightarrow> keypair \<Rightarrow> ratchet_state" where
  "ratchet_init_as_recipient our_identity their_identity root our_ratchet =
     \<lparr>self_identity = our_identity, remote_identity = their_identity, self_ratchet = our_ratchet,
      remote_ratchet = None, root_key = root, sending_chain_key = None, receiving_chain_key = None,
      sending_count = 0, receiving_count = 0, prev_sending_count = 0, skipped_keys = []\<rparr>"

record ratchet_ciphertext =
  c_header_key :: bytes
  c_prev_count :: u32
  c_message_number :: u32
  c_gcm :: gcm

text \<open>The step that gives a recipient a sending chain, before its first message.\<close>

definition first_send_step :: "crypto \<Rightarrow> nat \<Rightarrow> ratchet_state \<Rightarrow> (ratchet_state \<times> nat) outcome" where
  "first_send_step C n s =
     (case (sending_chain_key s, remote_ratchet s) of
        (Some _, _) \<Rightarrow> Ret (s, n)
      | (None, None) \<Rightarrow> Throw
      | (None, Some rr) \<Rightarrow>
          let kp = keygen C n
          in bind_outcome (dh C (private_key kp) rr) (\<lambda>dh_out.
            case kdf_rk C (root_key s) dh_out of (new_root, send_chain) \<Rightarrow>
              Ret (s\<lparr>self_ratchet := kp, root_key := new_root,
                     prev_sending_count := sending_count s, sending_count := 0,
                     sending_chain_key := Some send_chain\<rparr>, n + 1)))"

definition ratchet_encrypt ::
  "crypto \<Rightarrow> nat \<Rightarrow> ratchet_state \<Rightarrow> bytes \<Rightarrow> (ratchet_ciphertext \<times> ratchet_state \<times> nat) outcome" where
  "ratchet_encrypt C n s pt =
     bind_outcome (first_send_step C n s) (\<lambda>(s, n).
       case sending_chain_key s of
         None \<Rightarrow> Trap
       | Some ck \<Rightarrow>
           case kdf_ck C ck of (new_chain, mk) \<Rightarrow>
           case aes_gcm_encrypt C n mk pt of (g, n) \<Rightarrow>
             Ret (\<lparr>c_header_key = public_key (self_ratchet s), c_prev_count = prev_sending_count s,
                   c_message_number = sending_count s, c_gcm = g\<rparr>,
                  s\<lparr>sending_chain_key := Some new_chain, sending_count := sending_count s + 1\<rparr>, n))"

definition skipped_match :: "bytes \<Rightarrow> u32 \<Rightarrow> skipped_key \<Rightarrow> bool" where
  "skipped_match h i k = (header_key k = h \<and> message_number k = i)"

definition try_skipped :: "ratchet_state \<Rightarrow> bytes \<Rightarrow> u32 \<Rightarrow> (bytes \<times> ratchet_state) option" where
  "try_skipped s h i =
     (case List.extract (skipped_match h i) (skipped_keys s) of
        None \<Rightarrow> None
      | Some (xs, k, ys) \<Rightarrow> Some (message_key k, s\<lparr>skipped_keys := xs @ ys\<rparr>))"

text \<open>The bound is tested after each key that was stored.\<close>

function skip_message_keys :: "crypto \<Rightarrow> u32 \<Rightarrow> ratchet_state \<Rightarrow> ratchet_state outcome" where
  "skip_message_keys C until_n s =
     (case receiving_chain_key s of
        None \<Rightarrow> Ret s
      | Some ck \<Rightarrow>
          if receiving_count s < until_n then
            case remote_ratchet s of
              None \<Rightarrow> Trap
            | Some rr \<Rightarrow>
                let (new_ck, mk) = kdf_ck C ck;
                    s' = s\<lparr>skipped_keys := skipped_keys s @
                             [\<lparr>header_key = rr, message_number = receiving_count s, message_key = mk\<rparr>],
                           receiving_chain_key := Some new_ck,
                           receiving_count := receiving_count s + 1\<rparr>
                in if length (skipped_keys s') > MAX_SKIP then Throw
                   else skip_message_keys C until_n s'
          else Ret s)"
  by pat_completeness auto
termination
proof (relation "measure (\<lambda>(C, until_n, s). unat until_n - unat (receiving_count s))", goal_cases)
  case (2 C until_n s ck rr p new_ck mk s')
  then have "unat (receiving_count s + 1) = unat (receiving_count s) + 1"
    using unat_add_lem[of "receiving_count s" 1] unsigned_less[of until_n, where 'a = nat]
    by (simp add: word_less_nat_alt)
  then show ?case using 2 by (auto simp: word_less_nat_alt)
qed simp

declare skip_message_keys.simps [simp del]

definition dh_ratchet_step :: "crypto \<Rightarrow> nat \<Rightarrow> ratchet_state \<Rightarrow> bytes \<Rightarrow> (ratchet_state \<times> nat) outcome" where
  "dh_ratchet_step C n s their_new_key =
     bind_outcome (dh C (private_key (self_ratchet s)) their_new_key) (\<lambda>dh_out.
       case kdf_rk C (root_key s) dh_out of (new_root, recv_chain) \<Rightarrow>
         let kp = keygen C n
         in bind_outcome (dh C (private_key kp) their_new_key) (\<lambda>dh_out2.
           case kdf_rk C new_root dh_out2 of (new_root2, send_chain) \<Rightarrow>
             Ret (s\<lparr>prev_sending_count := sending_count s, remote_ratchet := Some their_new_key,
                    root_key := new_root2, receiving_chain_key := Some recv_chain,
                    receiving_count := 0, self_ratchet := kp, sending_chain_key := Some send_chain,
                    sending_count := 0\<rparr>, n + 1)))"

definition ratchet_decrypt ::
  "crypto \<Rightarrow> nat \<Rightarrow> ratchet_state \<Rightarrow> ratchet_ciphertext \<Rightarrow> (bytes \<times> ratchet_state \<times> nat) outcome" where
  "ratchet_decrypt C n s ct =
     (case try_skipped s (c_header_key ct) (c_message_number ct) of
        Some (mk, s) \<Rightarrow> bind_outcome (aes_gcm_decrypt C mk (c_gcm ct)) (\<lambda>pt. Ret (pt, s, n))
      | None \<Rightarrow>
          bind_outcome
            (if remote_ratchet s \<noteq> Some (c_header_key ct)
             then bind_outcome (skip_message_keys C (c_prev_count ct) s) (\<lambda>s.
                    dh_ratchet_step C n s (c_header_key ct))
             else Ret (s, n)) (\<lambda>(s, n).
              bind_outcome (skip_message_keys C (c_message_number ct) s) (\<lambda>s.
                case receiving_chain_key s of
                  None \<Rightarrow> Throw
                | Some ck \<Rightarrow>
                    case kdf_ck C ck of (new_ck, mk) \<Rightarrow>
                      bind_outcome (aes_gcm_decrypt C mk (c_gcm ct)) (\<lambda>pt.
                        Ret (pt, s\<lparr>receiving_chain_key := Some new_ck,
                                  receiving_count := receiving_count s + 1\<rparr>, n)))))"

subsection \<open>The state survives its serialization\<close>

definition opt_key_ok :: "bytes option \<Rightarrow> bool" where
  "opt_key_ok k = (case k of None \<Rightarrow> True | Some b \<Rightarrow> key_ok b)"

definition skipped_ok :: "skipped_key \<Rightarrow> bool" where
  "skipped_ok k = (key_ok (header_key k) \<and> key_ok (message_key k))"

definition state_ok :: "ratchet_state \<Rightarrow> bool" where
  "state_ok s = (keypair_ok (self_identity s) \<and> key_ok (remote_identity s) \<and> keypair_ok (self_ratchet s)
     \<and> opt_key_ok (remote_ratchet s) \<and> key_ok (root_key s) \<and> opt_key_ok (sending_chain_key s)
     \<and> opt_key_ok (receiving_chain_key s) \<and> list_all skipped_ok (skipped_keys s) \<and> fits (skipped_keys s))"

lemma read_u32_back [simp]: "read_u32 (write_u32_be v @ d) = (v, d)"
  by (simp add: read_u32_def)

lemma read_fresh_back [simp]: "key_ok k \<Longrightarrow> read_fresh (k @ d) = Ret (k, d)"
  by (simp add: read_fresh_def key_ok_def)

lemma read_opt_key_back [simp]: "opt_key_ok k \<Longrightarrow> read_opt_key (write_opt_key k @ d) = Ret (k, d)"
  by (cases k) (simp_all add: read_opt_key_def write_opt_key_def read_flag_def opt_key_ok_def)

lemma read_skipped_back:
  "list_all skipped_ok ks \<Longrightarrow> read_skipped (length ks) (concat (map write_skipped ks)) = Ret ks"
  by (induction ks)
    (simp_all add: read_skipped.simps[of 0] read_skipped.simps[of "Suc _"] write_skipped_def skipped_ok_def)

lemma state_back: "state_ok s \<Longrightarrow> deserialize (serialize s) = Ret (Some s)"
  using read_skipped_back[of "skipped_keys s"]
  by (simp add: deserialize_def serialize_def state_ok_def unat_of_nat take_bit_nat_eq_self)

text \<open>C26: The ratchet state of a session, skipped keys and absent chains included, is what is read back from
  its serialization.\<close>

theorem ratchet_state_round_trip:
  assumes "state_ok s"
  shows "deserialize (serialize s) = Ret (Some s)"
  using assms by (rule state_back)

definition demo_state :: ratchet_state where
  "demo_state = \<lparr>self_identity = no_keypair, remote_identity = zero_key, self_ratchet = no_keypair,
     remote_ratchet = Some zero_key, root_key = zero_key, sending_chain_key = None,
     receiving_chain_key = Some zero_key, sending_count = 3, receiving_count = 9,
     prev_sending_count = 1,
     skipped_keys = [\<lparr>header_key = zero_key, message_number = 4, message_key = zero_key\<rparr>]\<rparr>"

lemma ratchet_state_round_trip_witness:
  "state_ok demo_state \<and> deserialize (serialize demo_state) = Ret (Some demo_state)"
proof -
  have "state_ok demo_state" by (simp add: demo_state_def state_ok_def opt_key_ok_def skipped_ok_def)
  then show ?thesis using ratchet_state_round_trip by blast
qed

lemma case_prod_bind: "(case p of (a, b) \<Rightarrow> f a b) \<noteq> Ret None" if "\<And>a b. f a b \<noteq> Ret None"
  using that by (cases p) simp

lemma bind_not_None: "bind_outcome m f \<noteq> Ret None" if "\<And>x. f x \<noteq> Ret None" for m :: "'a outcome"
  using that by (cases m) simp_all

text \<open>Once its version is read, a record is never refused: truncated, it is read past its end or
  taken with what it has.\<close>

lemma truncated_state_accepted:
  assumes "fst (read_u32 d) = 1"
  shows "deserialize d \<noteq> Ret None"
  using assms unfolding deserialize_def
  by (auto intro!: bind_not_None case_prod_bind simp: case_prod_beta)

subsection \<open>Messages of a chain in any order\<close>

text \<open>What the sources rely on of OpenSSL: key agreement, authenticated encryption, and the sizes of
  keys and digests.\<close>

definition agree :: "crypto \<Rightarrow> keypair \<Rightarrow> keypair \<Rightarrow> bool" where
  "agree C a b = (\<exists>k. dh C (private_key a) (public_key b) = Ret k \<and> dh C (private_key b) (public_key a) = Ret k)"

definition crypto_ok :: "crypto \<Rightarrow> bool" where
  "crypto_ok C = ((\<forall>i j. agree C (keygen C i) (keygen C j)) \<and> (\<forall>i. keypair_ok (keygen C i))
     \<and> (\<forall>ikm salt info n. length (hkdf C ikm salt info n) = n)
     \<and> (\<forall>k d. length (hmac_sha256 C k d) = 32) \<and> (\<forall>n k. length (rand C n k) = k)
     \<and> (\<forall>k nonce p. length (snd (gcm_enc C k nonce p)) = TAG_SIZE)
     \<and> (\<forall>k nonce p. gcm_dec C k nonce (fst (gcm_enc C k nonce p)) (snd (gcm_enc C k nonce p)) = Some p)
     \<and> (\<forall>k p iv. cbc_enc C k p iv \<noteq> [] \<and> length (cbc_enc C k p iv) \<le> length p + 16
          \<and> cbc_dec C k (cbc_enc C k p iv) iv = p))"

lemma keys_agree:
  "crypto_ok C \<Longrightarrow> \<exists>k. dh C (private_key (keygen C i)) (public_key (keygen C j)) = Ret k
     \<and> dh C (private_key (keygen C j)) (public_key (keygen C i)) = Ret k"
  unfolding crypto_ok_def agree_def by blast

text \<open>The keys of a chain.\<close>

fun chain :: "crypto \<Rightarrow> bytes \<Rightarrow> nat \<Rightarrow> bytes" where
  "chain C ck 0 = ck"
| "chain C ck (Suc i) = fst (kdf_ck C (chain C ck i))"

definition mkey :: "crypto \<Rightarrow> bytes \<Rightarrow> nat \<Rightarrow> bytes" where
  "mkey C ck i = snd (kdf_ck C (chain C ck i))"

fun encrypt_all :: "crypto \<Rightarrow> nat \<Rightarrow> ratchet_state \<Rightarrow> bytes list \<Rightarrow> (ratchet_ciphertext list \<times> ratchet_state \<times> nat) outcome" where
  "encrypt_all C n s [] = Ret ([], s, n)"
| "encrypt_all C n s (p # ps) =
     bind_outcome (ratchet_encrypt C n s p) (\<lambda>(c, s, n).
       bind_outcome (encrypt_all C n s ps) (\<lambda>(cs, s, n). Ret (c # cs, s, n)))"

fun decrypt_all :: "crypto \<Rightarrow> nat \<Rightarrow> ratchet_state \<Rightarrow> ratchet_ciphertext list \<Rightarrow> (bytes list \<times> ratchet_state \<times> nat) outcome" where
  "decrypt_all C n s [] = Ret ([], s, n)"
| "decrypt_all C n s (c # cs) =
     bind_outcome (ratchet_decrypt C n s c) (\<lambda>(p, s, n).
       bind_outcome (decrypt_all C n s cs) (\<lambda>(ps, s, n). Ret (p # ps, s, n)))"

text \<open>Message \<open>i\<close> of a chain, as it travels.\<close>

definition nth_message :: "crypto \<Rightarrow> bytes \<Rightarrow> bytes \<Rightarrow> u32 \<Rightarrow> nat \<Rightarrow> bytes \<Rightarrow> ratchet_ciphertext \<Rightarrow> bool" where
  "nth_message C ck h prev i p c =
     (c_header_key c = h \<and> c_prev_count c = prev \<and> c_message_number c = word_of_nat i
      \<and> gcm_dec C (mkey C ck i) (g_nonce (c_gcm c)) (g_ciphertext (c_gcm c)) (g_tag (c_gcm c)) = Some p)"

lemma ratchet_encrypt_chain:
  assumes "sending_chain_key s = Some ck"
  shows "\<exists>c. ratchet_encrypt C n s p
      = Ret (c, s\<lparr>sending_chain_key := Some (fst (kdf_ck C ck)), sending_count := sending_count s + 1\<rparr>, n + 1)
    \<and> c_header_key c = public_key (self_ratchet s) \<and> c_prev_count c = prev_sending_count s
    \<and> c_message_number c = sending_count s
    \<and> c_gcm c = fst (aes_gcm_encrypt C n (snd (kdf_ck C ck)) p)"
  using assms by (simp add: ratchet_encrypt_def first_send_step_def aes_gcm_encrypt_def Let_def case_prod_beta)

lemma gcm_opens:
  "crypto_ok C \<Longrightarrow> g = fst (aes_gcm_encrypt C n k p) \<Longrightarrow> gcm_dec C k (g_nonce g) (g_ciphertext g) (g_tag g) = Some p"
  by (simp add: aes_gcm_encrypt_def Let_def case_prod_beta crypto_ok_def)

lemma encrypt_all_total:
  "sending_chain_key s \<noteq> None \<Longrightarrow> \<exists>cs s' n'. encrypt_all C n s ps = Ret (cs, s', n')"
proof (induction ps arbitrary: s n)
  case (Cons p ps)
  then obtain ck where "sending_chain_key s = Some ck" by blast
  from ratchet_encrypt_chain[OF this, of C n p] obtain c s1 where
    c: "ratchet_encrypt C n s p = Ret (c, s1, n + 1)" "sending_chain_key s1 \<noteq> None" by auto
  then show ?case using Cons.IH[OF c(2), of "n + 1"] by auto
qed simp

lemma encrypt_all_messages:
  assumes ok: "crypto_ok C" and "sending_chain_key s = Some (chain C ck k)" "sending_count s = word_of_nat k"
    and "encrypt_all C n s ps = Ret (cs, s', n')"
  shows "length cs = length ps \<and> (\<forall>i < length ps.
     nth_message C ck (public_key (self_ratchet s)) (prev_sending_count s) (k + i) (ps ! i) (cs ! i))"
  using assms(2-)
proof (induction ps arbitrary: n s k cs s' n')
  case Nil
  then show ?case by simp
next
  case (Cons p ps)
  let ?s = "s\<lparr>sending_chain_key := Some (chain C ck (Suc k)), sending_count := sending_count s + 1\<rparr>"
  obtain c where c: "ratchet_encrypt C n s p = Ret (c, ?s, n + 1)"
    "nth_message C ck (public_key (self_ratchet s)) (prev_sending_count s) k p c"
    using ratchet_encrypt_chain[OF Cons.prems(1), of C n p] gcm_opens[OF ok] Cons.prems(2)
    by (auto simp: nth_message_def mkey_def)
  obtain cs' where cs: "encrypt_all C (n + 1) ?s ps = Ret (cs', s', n')" "cs = c # cs'"
    using Cons.prems(3) c(1) by (auto simp: bind_Ret_iff)
  have "length cs' = length ps \<and> (\<forall>i < length ps.
     nth_message C ck (public_key (self_ratchet ?s)) (prev_sending_count ?s) (Suc k + i) (ps ! i) (cs' ! i))"
    by (rule Cons.IH[OF _ _ cs(1)]) (use Cons.prems in simp_all)
  then show ?case using c(2) cs(2) by (auto simp: nth_Cons split: nat.splits)
qed

text \<open>The receiver of a chain with the keys \<open>js\<close> put aside: every key it passed over is there, and
  only those.\<close>

definition skey :: "crypto \<Rightarrow> bytes \<Rightarrow> bytes \<Rightarrow> nat \<Rightarrow> skipped_key" where
  "skey C ck h i = \<lparr>header_key = h, message_number = word_of_nat i, message_key = mkey C ck i\<rparr>"

definition receives :: "crypto \<Rightarrow> bytes \<Rightarrow> bytes \<Rightarrow> nat \<Rightarrow> nat list \<Rightarrow> ratchet_state \<Rightarrow> bool" where
  "receives C ck h rc js s = (remote_ratchet s = Some h \<and> receiving_chain_key s = Some (chain C ck rc)
     \<and> receiving_count s = word_of_nat rc \<and> rc \<le> MAX_SKIP
     \<and> skipped_keys s = map (skey C ck h) js \<and> distinct js \<and> set js \<subseteq> {..<rc})"

lemma small_u32: "i \<le> MAX_SKIP \<Longrightarrow> unat (word_of_nat i :: u32) = i"
  by (simp add: unat_of_nat take_bit_nat_eq_self)

lemma small_u32_eq: "i \<le> MAX_SKIP \<Longrightarrow> j \<le> MAX_SKIP \<Longrightarrow> (word_of_nat i :: u32) = word_of_nat j \<longleftrightarrow> i = j"
  by (metis small_u32)

lemma receives_length: "receives C ck h rc js s \<Longrightarrow> length js \<le> rc"
proof -
  assume r: "receives C ck h rc js s"
  then have "length js = card (set js)" by (simp add: receives_def distinct_card)
  also have "\<dots> \<le> card {..<rc}" using r by (intro card_mono) (auto simp: receives_def)
  finally show ?thesis by simp
qed

lemma skip_to:
  assumes "receives C ck h rc js s" "rc \<le> i" "i \<le> MAX_SKIP"
  shows "\<exists>s'. skip_message_keys C (word_of_nat i) s = Ret s' \<and> receives C ck h i (js @ [rc..<i]) s'"
  using assms
proof (induction "i - rc" arbitrary: rc js s)
  case 0
  then have "i = rc" by simp
  then have "skip_message_keys C (word_of_nat i) s = Ret s"
    using 0(2) by (subst skip_message_keys.simps) (simp add: receives_def)
  then show ?case using 0(2) \<open>i = rc\<close> by auto
next
  case (Suc d)
  let ?k = "\<lparr>header_key = h, message_number = word_of_nat rc, message_key = mkey C ck rc\<rparr>"
  let ?s = "s\<lparr>skipped_keys := skipped_keys s @ [?k], receiving_chain_key := Some (chain C ck (Suc rc)),
    receiving_count := word_of_nat rc + 1\<rparr>"
  have rc: "rc < i" "d = i - Suc rc" using Suc(2) by auto
  have lt: "(word_of_nat rc :: u32) < word_of_nat i"
    using rc Suc(5) by (simp add: word_less_nat_alt small_u32)
  have nx: "receives C ck h (Suc rc) (js @ [rc]) ?s"
    using Suc(3) rc Suc(5) by (auto simp: receives_def skey_def add.commute)
  have len: "length (skipped_keys ?s) \<le> MAX_SKIP"
    using receives_length[OF nx] rc Suc(5) nx by (simp add: receives_def)
  have "skip_message_keys C (word_of_nat i) s = skip_message_keys C (word_of_nat i) ?s"
    using Suc(3) lt len
    by (subst skip_message_keys.simps) (simp add: receives_def case_prod_beta Let_def mkey_def)
  moreover obtain s' where "skip_message_keys C (word_of_nat i) ?s = Ret s'"
    "receives C ck h i ((js @ [rc]) @ [Suc rc..<i]) s'"
    using Suc(1)[OF rc(2) nx] rc Suc(5) by auto
  moreover have "(js @ [rc]) @ [Suc rc..<i] = js @ [rc..<i]" using rc by (simp add: upt_conv_Cons)
  ultimately show ?case by auto
qed

lemma take_skipped:
  assumes r: "receives C ck h rc js s" and i: "i \<in> set js"
  shows "\<exists>s'. try_skipped s h (word_of_nat i) = Some (mkey C ck i, s') \<and> receives C ck h rc (remove1 i js) s'"
proof -
  obtain xs ys where js: "js = xs @ i # ys" "i \<notin> set xs"
    using split_list_first[OF i] by blast
  have le: "j \<le> MAX_SKIP" if "j \<in> set js" for j using r that by (auto simp: receives_def)
  have "\<not> skipped_match h (word_of_nat i) (skey C ck h j)" if "j \<in> set xs" for j
    using that js le[of j] le[of i] small_u32_eq[of j i] by (auto simp: skipped_match_def skey_def)
  then have "List.extract (skipped_match h (word_of_nat i)) (skipped_keys s)
      = Some (map (skey C ck h) xs, skey C ck h i, map (skey C ck h) ys)"
    using r js by (auto simp: receives_def extract_Some_iff skipped_match_def skey_def)
  then show ?thesis
    using r js by (auto simp: try_skipped_def receives_def skey_def remove1_append)
qed

lemma no_skipped:
  assumes "receives C ck h rc js s" "i \<notin> set js" "i \<le> MAX_SKIP"
  shows "try_skipped s h (word_of_nat i) = None"
proof -
  have "\<not> skipped_match h (word_of_nat i) (skey C ck h j)" if "j \<in> set js" for j
    using that assms small_u32_eq[of j i] by (auto simp: skipped_match_def skey_def receives_def)
  then have "List.extract (skipped_match h (word_of_nat i)) (skipped_keys s) = None"
    using assms(1) by (auto simp: extract_None_iff receives_def)
  then show ?thesis by (simp add: try_skipped_def)
qed

text \<open>What the receiver may still get: a key it put aside or one it has not reached.\<close>

lemma decrypt_nth:
  assumes r: "receives C ck h rc js s" and m: "nth_message C ck h prev i p c"
    and i: "i \<in> set js \<or> rc \<le> i" "i < MAX_SKIP"
  shows "\<exists>s' rc' js'. ratchet_decrypt C n s c = Ret (p, s', n) \<and> receives C ck h rc' js' s'
    \<and> (\<forall>j. j \<noteq> i \<longrightarrow> (j \<in> set js \<or> rc \<le> j) \<longrightarrow> (j \<in> set js' \<or> rc' \<le> j))"
proof (cases "i \<in> set js")
  case True
  from take_skipped[OF r True] obtain s' where s': "try_skipped s h (word_of_nat i) = Some (mkey C ck i, s')"
    "receives C ck h rc (remove1 i js) s'" by blast
  have "ratchet_decrypt C n s c = Ret (p, s', n)"
    using s'(1) m by (simp add: ratchet_decrypt_def nth_message_def aes_gcm_decrypt_def)
  moreover have "\<forall>j. j \<noteq> i \<longrightarrow> (j \<in> set js \<or> rc \<le> j) \<longrightarrow> (j \<in> set (remove1 i js) \<or> rc \<le> j)"
    by (simp add: in_set_remove1)
  ultimately show ?thesis using s'(2) by blast
next
  case False
  then have le: "rc \<le> i" using i by auto
  obtain s1 where s1: "skip_message_keys C (word_of_nat i) s = Ret s1" "receives C ck h i (js @ [rc..<i]) s1"
    using skip_to[OF r le] i by auto
  let ?s2 = "s1\<lparr>receiving_chain_key := Some (chain C ck (Suc i)), receiving_count := receiving_count s1 + 1\<rparr>"
  have "ratchet_decrypt C n s c = Ret (p, ?s2, n)"
    using no_skipped[OF r False] i(2) s1 r m
    by (simp add: ratchet_decrypt_def nth_message_def receives_def aes_gcm_decrypt_def case_prod_beta mkey_def)
  moreover have "receives C ck h (Suc i) (js @ [rc..<i]) ?s2"
    using s1(2) i(2) by (auto simp: receives_def add.commute)
  ultimately show ?thesis using le by (intro exI[of _ ?s2] exI[of _ "Suc i"] exI[of _ "js @ [rc..<i]"]) auto
qed

lemma decrypt_any_order:
  assumes "receives C ck h rc js s" "distinct ord" "\<And>i. i \<in> set ord \<Longrightarrow> (i \<in> set js \<or> rc \<le> i) \<and> i < N"
    and "N \<le> MAX_SKIP" "\<And>i. i < N \<Longrightarrow> nth_message C ck h prev i (ps ! i) (cs ! i)"
  shows "\<exists>s'. decrypt_all C n s (map ((!) cs) ord) = Ret (map ((!) ps) ord, s', n)"
  using assms(1-3)
proof (induction ord arbitrary: rc js s)
  case Nil
  then show ?case by simp
next
  case (Cons i ord)
  have i: "i \<in> set js \<or> rc \<le> i" "i < N" using Cons.prems(3)[of i] by auto
  obtain s1 rc1 js1 where s1: "ratchet_decrypt C n s (cs ! i) = Ret (ps ! i, s1, n)" "receives C ck h rc1 js1 s1"
    "\<forall>j. j \<noteq> i \<longrightarrow> (j \<in> set js \<or> rc \<le> j) \<longrightarrow> (j \<in> set js1 \<or> rc1 \<le> j)"
    using decrypt_nth[OF Cons.prems(1) assms(5)[OF i(2)] i(1), of n] i(2) assms(4) by auto
  have "(j \<in> set js1 \<or> rc1 \<le> j) \<and> j < N" if "j \<in> set ord" for j
    using Cons.prems(3)[of j] Cons.prems(2) that s1(3) by auto
  then obtain s2 where "decrypt_all C n s1 (map ((!) cs) ord) = Ret (map ((!) ps) ord, s2, n)"
    using Cons.IH[OF s1(2)] Cons.prems(2) by auto
  then show ?case using s1(1) by simp
qed

text \<open>The first message of a new chain makes the receiver step, and is then an ordinary one.\<close>

lemma first_message_steps:
  assumes ok: "crypto_ok C" and kp: "dh C (private_key (self_ratchet b)) h = Ret k"
    and b: "remote_ratchet b = None" "receiving_chain_key b = None" "skipped_keys b = []"
    and h: "h = public_key (keygen C m)" and c: "c_header_key c = h"
  shows "\<exists>s. ratchet_decrypt C n b c = ratchet_decrypt C (n + 1) s c
    \<and> receives C (snd (kdf_rk C (root_key b) k)) h 0 [] s"
proof -
  obtain k2 where k2: "dh C (private_key (keygen C n)) h = Ret k2"
    using keys_agree[OF ok, of n m] h by blast
  have sk: "skip_message_keys C i b = Ret b" for i
    using b by (subst skip_message_keys.simps) simp
  obtain s where s: "dh_ratchet_step C n b h = Ret (s, n + 1)"
    "receives C (snd (kdf_rk C (root_key b) k)) h 0 [] s"
    using kp k2 b by (auto simp: dh_ratchet_step_def case_prod_beta Let_def receives_def)
  have "try_skipped t i j = None" if "skipped_keys t = []" for t i j
    using that by (simp add: try_skipped_def extract_Nil_code)
  then have "ratchet_decrypt C n b c = ratchet_decrypt C (n + 1) s c"
    using b c s sk by (simp add: ratchet_decrypt_def receives_def)
  then show ?thesis using s(2) by blast
qed

text \<open>C27: Up to a thousand messages of an initiator's first chain are decrypted by the recipient to what was
  encrypted, in whatever order they arrive and whichever of them are lost.\<close>

theorem any_order_any_loss:
  assumes "crypto_ok C"
    and "ratchet_init_as_initiator C n idA idB root (public_key (keygen C m)) = Ret (a, n1)"
    and "encrypt_all C n1 a ps = Ret (cs, a', n2)" and "length ps \<le> MAX_SKIP"
    and "distinct ord" and "set ord \<subseteq> {..<length ps}"
  shows "\<exists>b n3. decrypt_all C n2 (ratchet_init_as_recipient idB' idA' root (keygen C m)) (map ((!) cs) ord)
    = Ret (map ((!) ps) ord, b, n3)"
proof (cases ord)
  case Nil
  then show ?thesis by simp
next
  case (Cons i ord')
  let ?b = "ratchet_init_as_recipient idB' idA' root (keygen C m)"
  let ?h = "public_key (keygen C n)"
  obtain k where k: "dh C (private_key (keygen C n)) (public_key (keygen C m)) = Ret k"
    "dh C (private_key (keygen C m)) ?h = Ret k"
    using keys_agree[OF assms(1), of n m] by blast
  let ?ck = "snd (kdf_rk C root k)"
  have a: "sending_chain_key a = Some (chain C ?ck 0)" "sending_count a = word_of_nat 0"
    "public_key (self_ratchet a) = ?h"
    using assms(2) k(1) by (auto simp: ratchet_init_as_initiator_def Let_def case_prod_beta)
  note msgs = encrypt_all_messages[OF assms(1) a(1,2) assms(3), simplified, unfolded a(3)]
  have i: "i < length ps" using assms(6) Cons by auto
  obtain s where s: "ratchet_decrypt C n2 ?b (cs ! i) = ratchet_decrypt C (n2 + 1) s (cs ! i)"
    "receives C ?ck ?h 0 [] s"
    using first_message_steps[OF assms(1), of ?b ?h k n "cs ! i" n2] k(2) msgs i
    by (auto simp: ratchet_init_as_recipient_def nth_message_def)
  have "decrypt_all C n2 ?b (map ((!) cs) ord) = decrypt_all C (n2 + 1) s (map ((!) cs) ord)"
    using s(1) Cons by simp
  moreover have "\<exists>s'. decrypt_all C (n2 + 1) s (map ((!) cs) ord) = Ret (map ((!) ps) ord, s', n2 + 1)"
    by (rule decrypt_any_order[OF s(2) assms(5), of "length ps"]) (use assms(4,6) msgs in auto)
  ultimately show ?thesis by auto
qed

text \<open>A concrete library: agreement by adding keys, ciphers that put the key and the text side by
  side.\<close>

definition demo_crypto :: crypto where
  "demo_crypto = \<lparr>dh = (\<lambda>a b. Ret (map2 (+) a b)),
     hkdf = (\<lambda>ikm salt info n. take n (ikm @ salt @ replicate n 0)),
     hmac_sha256 = (\<lambda>k d. take 32 (d @ k @ replicate 32 0)),
     gcm_enc = (\<lambda>k nonce p. (p, take 16 (k @ replicate 16 0))),
     gcm_dec = (\<lambda>k nonce c t. if t = take 16 (k @ replicate 16 0) then Some c else None),
     cbc_enc = (\<lambda>k p iv. 1 # p), cbc_dec = (\<lambda>k c iv. drop 1 c),
     keygen = (\<lambda>n. \<lparr>public_key = write_u32_be (word_of_nat n) @ replicate 28 0,
                    private_key = write_u32_be (word_of_nat n) @ replicate 28 0\<rparr>),
     rand = (\<lambda>n k. replicate k (word_of_nat n)),
     sha512 = (\<lambda>d. take 64 (d @ replicate 64 0)), ed_base = (\<lambda>s. s), sc_reduce = (\<lambda>s. take 32 s),
     sc_mul = (\<lambda>a b. map2 (*) a b), sc_add = (\<lambda>a b. map2 (+) a b), verify = (\<lambda>k m s. True),
     mod_inverse = (\<lambda>a p. if a = 0 then None else Some a)\<rparr>"

lemma demo_crypto_ok: "crypto_ok demo_crypto"
proof -
  have "map2 (+) a b = map2 (+) b a" for a b :: bytes
    by (simp add: zip_commute[of b a] case_prod_beta add.commute)
  then show ?thesis
    by (auto simp: crypto_ok_def demo_crypto_def agree_def keypair_ok_def key_ok_def)
qed

lemma any_order_any_loss_witness:
  "\<exists>a n1 cs a' n2 b n3.
     ratchet_init_as_initiator demo_crypto 7 no_keypair zero_key zero_key (public_key (keygen demo_crypto 1)) = Ret (a, n1)
   \<and> encrypt_all demo_crypto n1 a [[1, 2], [3], [4, 5]] = Ret (cs, a', n2)
   \<and> decrypt_all demo_crypto n2 (ratchet_init_as_recipient no_keypair zero_key zero_key (keygen demo_crypto 1))
       (map ((!) cs) [2, 0]) = Ret ([[4, 5], [1, 2]], b, n3)"
proof -
  obtain a n1 where a: "ratchet_init_as_initiator demo_crypto 7 no_keypair zero_key zero_key
      (public_key (keygen demo_crypto 1)) = Ret (a, n1)" "sending_chain_key a \<noteq> None"
    by (simp add: ratchet_init_as_initiator_def demo_crypto_def Let_def case_prod_beta)
  obtain cs a' n2 where c: "encrypt_all demo_crypto n1 a [[1, 2], [3], [4, 5]] = Ret (cs, a', n2)"
    using encrypt_all_total[OF a(2)] by blast
  obtain b n3 where "decrypt_all demo_crypto n2
      (ratchet_init_as_recipient no_keypair zero_key zero_key (keygen demo_crypto 1)) (map ((!) cs) [2, 0])
      = Ret (map ((!) [[1, 2], [3], [4, 5]]) [2, 0], b, n3)"
    using any_order_any_loss[OF demo_crypto_ok a(1) c, of "[2, 0]" no_keypair zero_key] by auto
  then show ?thesis using a(1) c by (intro exI conjI) simp_all
qed

end
