(* ===== verification/Base64.thy ===== *)
theory Base64
  imports Bytes
begin

unbundle bit_operations_syntax

text \<open>
  The base64 codec of \<open>FileSignalStore.cpp\<close>: a 32-bit buffer that is never cleared and a count of
  the bits in it that are still to be used.
\<close>

subsection \<open>Base64\<close>

definition kB64Chars :: string where
  "kB64Chars = ''ABCDEFGHIJKLMNOPQRSTUVWXYZabcdefghijklmnopqrstuvwxyz0123456789+/''"

definition b64_char :: "u32 \<Rightarrow> char" where
  "b64_char v = kB64Chars ! unat (v AND 0x3F)"

text \<open>\<open>while (bits >= 6)\<close> of the encoder.\<close>

fun b64_out :: "u32 \<Rightarrow> nat \<Rightarrow> string \<times> nat" where
  "b64_out buf bits =
     (if bits < 6 then ([], bits)
      else case b64_out buf (bits - 6) of (out, left) \<Rightarrow> (b64_char (drop_bit (bits - 6) buf) # out, left))"

declare b64_out.simps [simp del]

fun b64_enc :: "bytes \<Rightarrow> u32 \<Rightarrow> nat \<Rightarrow> string" where
  "b64_enc [] buf bits = (if bits > 0 then [b64_char (push_bit (6 - bits) buf)] else [])"
| "b64_enc (c # cs) buf bits =
     (let buf = push_bit 8 buf OR ucast c
      in case b64_out buf (bits + 8) of (out, left) \<Rightarrow> out @ b64_enc cs buf left)"

definition b64_pad :: "string \<Rightarrow> string" where
  "b64_pad s = s @ replicate ((4 - length s mod 4) mod 4) (CHR ''='')"

definition B64Encode :: "bytes \<Rightarrow> string" where
  "B64Encode d = b64_pad (b64_enc d 0 0)"

definition B64Val :: "char \<Rightarrow> int" where
  "B64Val c =
     (let n = int (of_char c)
      in if 65 \<le> n \<and> n \<le> 90 then n - 65
         else if 97 \<le> n \<and> n \<le> 122 then n - 97 + 26
         else if 48 \<le> n \<and> n \<le> 57 then n - 48 + 52
         else if n = 43 then 62
         else if n = 47 then 63
         else -1)"

text \<open>\<open>None\<close>: the call returned an empty vector at a character it does not know.\<close>

fun b64_dec :: "string \<Rightarrow> u32 \<Rightarrow> nat \<Rightarrow> bytes option" where
  "b64_dec [] buf bits = Some []"
| "b64_dec (c # cs) buf bits =
     (if c = CHR ''='' \<or> c = CHR 0x0A \<or> c = CHR 0x0D then b64_dec cs buf bits
      else if B64Val c < 0 then None
      else let buf = push_bit 6 buf OR word_of_int (B64Val c)
        in if bits + 6 \<ge> 8
           then map_option ((#) (ucast (drop_bit (bits + 6 - 8) buf AND 0xFF))) (b64_dec cs buf (bits + 6 - 8))
           else b64_dec cs buf (bits + 6))"

definition B64Decode :: "string \<Rightarrow> bytes" where
  "B64Decode s = (case b64_dec s 0 0 of None \<Rightarrow> [] | Some b \<Rightarrow> b)"

subsection \<open>Base64 reads back\<close>

lemma B64Val_char:
  "B64Val (b64_char v) = uint (v AND 0x3F)" "b64_char v \<noteq> CHR ''=''" "b64_char v \<noteq> CHR 0x0A"
  "b64_char v \<noteq> CHR 0x0D"
proof -
  have vals: "map B64Val kB64Chars = [0..63]" by code_simp
  have others: "list_all (\<lambda>c. c \<noteq> CHR ''='' \<and> c \<noteq> CHR 0x0A \<and> c \<noteq> CHR 0x0D) kB64Chars" by code_simp
  have len: "length kB64Chars = 64" using arg_cong[OF vals, of length] by simp
  have m: "(0x3F :: u32) = mask 6" by (simp add: mask_eq_exp_minus_1)
  have i: "unat (v AND 0x3F) < 64"
    unfolding m using and_mask_less'[of 6 v] by (simp add: word_less_nat_alt)
  have "B64Val (kB64Chars ! unat (v AND 0x3F)) = map B64Val kB64Chars ! unat (v AND 0x3F)"
    using i len by simp
  also have "\<dots> = uint (v AND 0x3F)"
  proof -
    have "0 + int (unat (v AND 0x3F)) \<le> 63" using i by linarith
    from nth_upto[OF this] show ?thesis unfolding vals by simp
  qed
  finally show "B64Val (b64_char v) = uint (v AND 0x3F)" by (simp add: b64_char_def)
  have "kB64Chars ! unat (v AND 0x3F) \<in> set kB64Chars" using i len by (intro nth_mem) simp
  then show "b64_char v \<noteq> CHR ''=''" "b64_char v \<noteq> CHR 0x0A" "b64_char v \<noteq> CHR 0x0D"
    using others by (auto simp: b64_char_def list_all_iff)
qed

lemma b64_dec_char:
  "b64_dec (b64_char v # cs) buf bits =
     (let buf = push_bit 6 buf OR (v AND 0x3F)
      in if bits + 6 \<ge> 8
         then map_option ((#) (ucast (drop_bit (bits + 6 - 8) buf AND 0xFF))) (b64_dec cs buf (bits + 6 - 8))
         else b64_dec cs buf (bits + 6))"
  using B64Val_char[of v] by (simp add: Let_def)

lemma masks6: "(0x3F :: u32) = mask 6" "(0xFF :: u32) = mask 8"
  by (simp_all add: mask_eq_exp_minus_1)

declare b64_enc.simps(2) [simp del] b64_dec.simps(2) [simp del]

text \<open>A byte that is split after six, four or two of its bits comes back from the two characters it
  is in.\<close>

lemma split_by:
  fixes b :: u8 and d e :: u32
  assumes k: "k \<le> 6" and hi: "\<And>n. n + k < 8 \<Longrightarrow> bit d n = bit b (n + k)"
    and lo: "\<And>n. n < k \<Longrightarrow> bit e (6 - k + n) = bit b n"
  shows "ucast (drop_bit (6 - k) (push_bit 6 d OR (e AND 0x3F)) AND 0xFF) = b"
  unfolding masks6
proof (rule bit_word_eqI)
  fix n :: nat
  assume "n < LENGTH(8)"
  then have n: "n < 8" by simp
  show "bit (ucast (drop_bit (6 - k) (push_bit 6 d OR (e AND mask 6)) AND mask 8) :: u8) n = bit b n"
  proof (cases "n < k")
    case True
    then have "6 - k + n < 6" using k by simp
    then show ?thesis using lo[OF True] n k by (simp add: bit_simps)
  next
    case False
    then obtain m where m: "n = m + k" by (metis le_add_diff_inverse2 not_less)
    then have "m + 6 - k + k = m + 6" using k by simp
    then show ?thesis using hi[of m] n m k by (simp add: bit_simps)
  qed
qed

lemma b64_enc_Cons:
  "b64_enc (c # cs) e 0 = (let e = push_bit 8 e OR ucast c in b64_char (drop_bit 2 e) # b64_enc cs e 2)"
  "b64_enc (c # cs) e 2 = (let e = push_bit 8 e OR ucast c in b64_char (drop_bit 4 e) # b64_enc cs e 4)"
  "b64_enc (c # cs) e 4 =
     (let e = push_bit 8 e OR ucast c in b64_char (drop_bit 6 e) # b64_char e # b64_enc cs e 0)"
  by (simp_all add: b64_enc.simps(2) b64_out.simps Let_def)

lemma b64_dec_steps:
  "b64_dec (b64_char v # cs) d 0 = b64_dec cs (push_bit 6 d OR (v AND 0x3F)) 6"
  "b64_dec (b64_char v # cs) d 6 =
     (let d = push_bit 6 d OR (v AND 0x3F)
      in map_option ((#) (ucast (drop_bit 4 d AND 0xFF))) (b64_dec cs d 4))"
  "b64_dec (b64_char v # cs) d 4 =
     (let d = push_bit 6 d OR (v AND 0x3F)
      in map_option ((#) (ucast (drop_bit 2 d AND 0xFF))) (b64_dec cs d 2))"
  "b64_dec (b64_char v # cs) d 2 =
     (let d = push_bit 6 d OR (v AND 0x3F)
      in map_option ((#) (ucast (drop_bit 0 d AND 0xFF))) (b64_dec cs d 0))"
  by (simp_all add: b64_dec_char Let_def)

lemma byte_ends: "8 \<le> n \<Longrightarrow> \<not> bit (c :: u8) n"
  by (auto dest: bit_imp_le_length)

lemma b64_dec_enc:
  "b64_dec (b64_enc cs e 0) d 0 = Some cs"
  "(\<And>n. n < 6 \<Longrightarrow> bit d n = bit b (n + 2)) \<Longrightarrow> (\<And>n. n < 2 \<Longrightarrow> bit e n = bit b n) \<Longrightarrow>
     b64_dec (b64_enc cs e 2) d 6 = Some (b # cs)"
  "(\<And>n. n < 4 \<Longrightarrow> bit d n = bit b (n + 4)) \<Longrightarrow> (\<And>n. n < 4 \<Longrightarrow> bit e n = bit b n) \<Longrightarrow>
     b64_dec (b64_enc cs e 4) d 4 = Some (b # cs)"
proof (induction cs arbitrary: b d e)
  case Nil
  { case 1 show ?case by simp }
  { case 2
    have "ucast (drop_bit (6 - 2) (push_bit 6 d OR (push_bit 4 e AND 0x3F)) AND 0xFF) = b"
      by (rule split_by) (use 2 in \<open>simp_all add: bit_simps byte_ends\<close>)
    then show ?case by (simp add: b64_dec_steps) }
  { case 3
    have "ucast (drop_bit (6 - 4) (push_bit 6 d OR (push_bit 2 e AND 0x3F)) AND 0xFF) = b"
      by (rule split_by) (use 3 in \<open>simp_all add: bit_simps byte_ends\<close>)
    then show ?case by (simp add: b64_dec_steps) }
next
  case (Cons c cs)
  { case 1
    let ?e = "push_bit 8 e OR ucast c :: u32"
    have "b64_dec (b64_enc cs ?e 2) (push_bit 6 d OR (drop_bit 2 ?e AND 0x3F)) 6 = Some (c # cs)"
      by (rule Cons.IH(2)) (simp_all add: bit_simps masks6 byte_ends)
    then show ?case by (simp add: b64_enc_Cons b64_dec_steps) }
  { case 2
    let ?e = "push_bit 8 e OR ucast c :: u32"
    have "ucast (drop_bit (6 - 2) (push_bit 6 d OR (drop_bit 4 ?e AND 0x3F)) AND 0xFF) = b"
      by (rule split_by) (use 2 in \<open>simp_all add: bit_simps byte_ends\<close>)
    moreover have "b64_dec (b64_enc cs ?e 4) (push_bit 6 d OR (drop_bit 4 ?e AND 0x3F)) 4 = Some (c # cs)"
      by (rule Cons.IH(3)) (simp_all add: bit_simps masks6 byte_ends add.commute)
    ultimately show ?case by (simp add: b64_enc_Cons b64_dec_steps) }
  { case 3
    let ?e = "push_bit 8 e OR ucast c :: u32"
    let ?d = "push_bit 6 d OR (drop_bit 6 ?e AND 0x3F)"
    have "ucast (drop_bit (6 - 4) ?d AND 0xFF) = b"
      by (rule split_by) (use 3 in \<open>simp_all add: bit_simps byte_ends\<close>)
    moreover have "ucast (drop_bit (6 - 6) (push_bit 6 ?d OR (?e AND 0x3F)) AND 0xFF) = c"
      by (rule split_by) (simp_all add: bit_simps masks6 byte_ends add.commute)
    ultimately show ?case by (simp add: b64_enc_Cons b64_dec_steps Cons.IH(1) Let_def) }
qed

lemma b64_dec_pad: "b64_dec (s @ replicate n (CHR ''='')) d k = b64_dec s d k"
proof (induction s arbitrary: d k)
  case Nil
  show ?case by (induction n) (simp_all add: b64_dec.simps)
next
  case (Cons c s)
  then show ?case by (simp add: b64_dec.simps Let_def)
qed

lemma B64_back [simp]: "B64Decode (B64Encode d) = d"
  by (simp add: B64Decode_def B64Encode_def b64_pad_def b64_dec_pad b64_dec_enc)

end
