(* ===== verification/SignalStore.thy ===== *)
theory SignalStore
  imports SignalTypes Base64 Json "HOL-Library.AList"
begin

unbundle bit_operations_syntax

text \<open>
  The stores of the Signal library: in memory (\<open>InMemorySignalStore.cpp\<close>) and in JSON files
  (\<open>FileSignalStore.cpp\<close>), behind the interfaces of \<open>SignalStore.h\<close>. A hash map
  is an association list with distinct keys, in some order; the mutex makes a call one step. A file
  holds the value that was last written to it, or null.
\<close>

subsection \<open>What the library relies on\<close>

text \<open>The law of a store, for the keys that are told apart and the records that are kept whole.\<close>

locale record_store =
  fixes load :: "'st \<Rightarrow> 'k \<Rightarrow> 'v option"
    and store :: "'st \<Rightarrow> 'k \<Rightarrow> 'v \<Rightarrow> 'st"
    and usable :: "'k \<Rightarrow> bool"
    and storable :: "'v \<Rightarrow> bool"
  assumes load_after_store:
    "usable a \<Longrightarrow> usable b \<Longrightarrow> storable r \<Longrightarrow> load (store st a r) b = (if b = a then Some r else load st b)"
begin

lemma load_stored: "usable a \<Longrightarrow> storable r \<Longrightarrow> load (store st a r) a = Some r"
  by (simp add: load_after_store)

lemma load_other:
  "usable a \<Longrightarrow> usable b \<Longrightarrow> storable r \<Longrightarrow> b \<noteq> a \<Longrightarrow> load (store st a r) b = load st b"
  by (simp add: load_after_store)

lemma load_after_all:
  "(\<And>k v. (k, v) \<in> set kvs \<Longrightarrow> usable k \<and> storable v) \<Longrightarrow> usable a
     \<Longrightarrow> load (fold (\<lambda>(k, v) st. store st k v) kvs st) a
       = (case map_of (rev kvs) a of None \<Rightarrow> load st a | Some v \<Rightarrow> Some v)"
proof (induction kvs arbitrary: st)
  case Nil
  then show ?case by simp
next
  case (Cons kv kvs)
  obtain k v where kv: "kv = (k, v)" by force
  have "usable k" "storable v" using Cons.prems(1)[of k v] kv by auto
  moreover have "load (fold (\<lambda>(k, v) st. store st k v) kvs (store st k v)) a
      = (case map_of (rev kvs) a of None \<Rightarrow> load (store st k v) a | Some v \<Rightarrow> Some v)"
    by (rule Cons.IH) (use Cons.prems in auto)
  ultimately show ?case
    using Cons.prems(2) kv by (auto simp: load_after_store map_add_def split: option.splits)
qed

end

subsection \<open>In memory\<close>

type_synonym mem_sessions = "(address \<times> session_record) list"

definition mem_load_session :: "mem_sessions \<Rightarrow> address \<Rightarrow> session_record option" where
  "mem_load_session st a = map_of st a"

definition mem_store_session :: "mem_sessions \<Rightarrow> address \<Rightarrow> session_record \<Rightarrow> mem_sessions" where
  "mem_store_session st a r = AList.update a r st"

definition mem_contains_session :: "mem_sessions \<Rightarrow> address \<Rightarrow> bool" where
  "mem_contains_session st a = (map_of st a \<noteq> None)"

definition mem_delete_session :: "mem_sessions \<Rightarrow> address \<Rightarrow> mem_sessions" where
  "mem_delete_session st a = AList.delete a st"

definition mem_delete_all_sessions :: "mem_sessions \<Rightarrow> string \<Rightarrow> mem_sessions" where
  "mem_delete_all_sessions st n = filter (\<lambda>(a, r). name a \<noteq> n) st"

definition mem_get_sub_device_sessions :: "mem_sessions \<Rightarrow> string \<Rightarrow> u32 list" where
  "mem_get_sub_device_sessions st n =
     sort (map (\<lambda>(a, r). device_id a) (filter (\<lambda>(a, r). name a = n \<and> device_id a \<noteq> 0) st))"

record pre_key_store =
  pks_keys :: "(u32 \<times> pre_key) list"
  next_id :: u32

definition load_pre_key :: "pre_key_store \<Rightarrow> u32 \<Rightarrow> pre_key option" where
  "load_pre_key st i = map_of (pks_keys st) i"

definition store_pre_key :: "pre_key_store \<Rightarrow> pre_key \<Rightarrow> pre_key_store" where
  "store_pre_key st k = st\<lparr>pks_keys := AList.update (pk_id k) k (pks_keys st)\<rparr>"

definition contains_pre_key :: "pre_key_store \<Rightarrow> u32 \<Rightarrow> bool" where
  "contains_pre_key st i = (map_of (pks_keys st) i \<noteq> None)"

definition remove_pre_key :: "pre_key_store \<Rightarrow> u32 \<Rightarrow> pre_key_store" where
  "remove_pre_key st i = st\<lparr>pks_keys := AList.delete i (pks_keys st)\<rparr>"

definition next_pre_key_id :: "pre_key_store \<Rightarrow> u32 \<times> pre_key_store" where
  "next_pre_key_id st = (next_id st, st\<lparr>next_id := next_id st + 1\<rparr>)"

definition pre_key_count :: "pre_key_store \<Rightarrow> nat" where
  "pre_key_count st = length (pks_keys st)"

record signed_pre_key_store =
  spks_keys :: "(u32 \<times> signed_pre_key) list"
  current_id :: u32

definition load_signed_pre_key :: "signed_pre_key_store \<Rightarrow> u32 \<Rightarrow> signed_pre_key option" where
  "load_signed_pre_key st i = map_of (spks_keys st) i"

definition store_signed_pre_key :: "signed_pre_key_store \<Rightarrow> signed_pre_key \<Rightarrow> signed_pre_key_store" where
  "store_signed_pre_key st k =
     \<lparr>spks_keys = AList.update (spk_id k) k (spks_keys st),
      current_id = (if spk_id k > current_id st then spk_id k else current_id st)\<rparr>"

definition contains_signed_pre_key :: "signed_pre_key_store \<Rightarrow> u32 \<Rightarrow> bool" where
  "contains_signed_pre_key st i = (map_of (spks_keys st) i \<noteq> None)"

definition current_signed_pre_key_id :: "signed_pre_key_store \<Rightarrow> u32" where
  "current_signed_pre_key_id st = current_id st"

record identity_store =
  own_keypair :: keypair
  own_registration_id :: u32
  trusted :: "(address \<times> bytes) list"

definition save_identity :: "identity_store \<Rightarrow> address \<Rightarrow> bytes \<Rightarrow> bool \<times> identity_store" where
  "save_identity st a k = (map_of (trusted st) a = None, st\<lparr>trusted := AList.update a k (trusted st)\<rparr>)"

definition is_trusted_identity :: "identity_store \<Rightarrow> address \<Rightarrow> bytes \<Rightarrow> bool" where
  "is_trusted_identity st a k =
     (case map_of (trusted st) a of None \<Rightarrow> True | Some stored \<Rightarrow> stored = k)"

definition load_identity :: "identity_store \<Rightarrow> address \<Rightarrow> bytes option" where
  "load_identity st a = map_of (trusted st) a"

type_synonym sender_keys = "((address \<times> string) \<times> sender_key_record) list"

definition load_sender_key :: "sender_keys \<Rightarrow> address \<Rightarrow> string \<Rightarrow> sender_key_record option" where
  "load_sender_key st a g = map_of st (a, g)"

definition store_sender_key :: "sender_keys \<Rightarrow> address \<Rightarrow> string \<Rightarrow> sender_key_record \<Rightarrow> sender_keys" where
  "store_sender_key st a g r = AList.update (a, g) r st"

definition contains_sender_key :: "sender_keys \<Rightarrow> address \<Rightarrow> string \<Rightarrow> bool" where
  "contains_sender_key st a g = (map_of st (a, g) \<noteq> None)"

text \<open>The keys of an identity and of a group are what the code looks them up by.\<close>

interpretation mem: record_store mem_load_session mem_store_session "\<lambda>_. True" "\<lambda>_. True"
  by unfold_locales (simp add: mem_load_session_def mem_store_session_def update_conv)

interpretation mem_group: record_store "\<lambda>st (a, g). load_sender_key st a g"
  "\<lambda>st (a, g). store_sender_key st a g" "\<lambda>_. True" "\<lambda>_. True"
  by unfold_locales (auto simp: load_sender_key_def store_sender_key_def update_conv split: if_splits)

interpretation mem_ident: record_store load_identity "\<lambda>st a k. snd (save_identity st a k)" "\<lambda>_. True" "\<lambda>_. True"
  by unfold_locales (simp add: load_identity_def save_identity_def update_conv)

subsection \<open>In files\<close>

record file_store =
  entries :: "(string \<times> string) list"
  on_disk :: json

definition AddrKey :: "address \<Rightarrow> string" where
  "AddrKey a = name a @ '':'' @ dec (unat (device_id a))"

text \<open>What a store reads when it is made: the members of an object, or the elements of an array
  under the empty name; \<open>asString\<close> may throw. A file that cannot be read is null.\<close>

fun read_members :: "(string \<times> json) list \<Rightarrow> (string \<times> string) list \<Rightarrow> (string \<times> string) list outcome" where
  "read_members [] m = Ret m"
| "read_members ((k, j) # ms) m = bind_outcome (asString j) (\<lambda>v. read_members ms (AList.update k v m))"

definition open_store :: "json \<Rightarrow> file_store outcome" where
  "open_store root =
     bind_outcome (read_members (case root of JObj ms \<Rightarrow> ms | JArr js \<Rightarrow> map (Pair '''') js | _ \<Rightarrow> []) [])
       (\<lambda>m. Ret \<lparr>entries = m, on_disk = root\<rparr>)"

text \<open>\<open>written\<close> is what \<open>WriteJsonAtomic\<close> returns, which nobody looks at.\<close>

definition PersistLocked :: "bool \<Rightarrow> file_store \<Rightarrow> file_store" where
  "PersistLocked written st =
     (if written then st\<lparr>on_disk := JObj (map (\<lambda>(k, v). (k, JStr v)) (entries st))\<rparr> else st)"

definition file_load_session :: "file_store \<Rightarrow> address \<Rightarrow> session_record option" where
  "file_load_session st a =
     (case map_of (entries st) (AddrKey a) of
        None \<Rightarrow> None
      | Some v \<Rightarrow> let b = B64Decode v in if b = [] then None else Some (deserialize_session b))"

definition file_store_session :: "bool \<Rightarrow> file_store \<Rightarrow> address \<Rightarrow> session_record \<Rightarrow> file_store" where
  "file_store_session written st a r =
     PersistLocked written (st\<lparr>entries := AList.update (AddrKey a) (B64Encode (serialize_session r)) (entries st)\<rparr>)"

definition file_contains_session :: "file_store \<Rightarrow> address \<Rightarrow> bool" where
  "file_contains_session st a = (map_of (entries st) (AddrKey a) \<noteq> None)"

definition file_delete_session :: "bool \<Rightarrow> file_store \<Rightarrow> address \<Rightarrow> file_store" where
  "file_delete_session written st a =
     PersistLocked written (st\<lparr>entries := AList.delete (AddrKey a) (entries st)\<rparr>)"

definition file_delete_all_sessions :: "bool \<Rightarrow> file_store \<Rightarrow> string \<Rightarrow> file_store" where
  "file_delete_all_sessions written st n =
     PersistLocked written (st\<lparr>entries := filter (\<lambda>(k, v). \<not> starts_with (n @ '':'') k) (entries st)\<rparr>)"

text \<open>The text behind the last colon.\<close>

definition after_colon :: "string \<Rightarrow> string" where
  "after_colon k = rev (takeWhile (\<lambda>c. c \<noteq> CHR '':'') (rev k))"

definition stoul :: "string \<Rightarrow> u32 option" where
  "stoul s = Option.bind (strtol s) (\<lambda>n. if \<bar>n\<bar> < 2 ^ 64 then Some (word_of_int n) else None)"

definition file_get_sub_device_sessions :: "file_store \<Rightarrow> string \<Rightarrow> u32 list" where
  "file_get_sub_device_sessions st n =
     List.map_filter (\<lambda>(k, v). if \<not> starts_with (n @ '':'') k \<or> after_colon k = [] then None
        else stoul (after_colon k)) (entries st)"

definition file_save_identity :: "bool \<Rightarrow> file_store \<Rightarrow> address \<Rightarrow> bytes \<Rightarrow> bool \<times> file_store" where
  "file_save_identity written st a k =
     (map_of (entries st) (AddrKey a) = None,
      PersistLocked written (st\<lparr>entries := AList.update (AddrKey a) (B64Encode k) (entries st)\<rparr>))"

definition file_load_identity :: "file_store \<Rightarrow> address \<Rightarrow> bytes option" where
  "file_load_identity st a =
     (case map_of (entries st) (AddrKey a) of
        None \<Rightarrow> None
      | Some v \<Rightarrow> let b = B64Decode v in if length b \<noteq> 32 then None else Some b)"

definition file_is_trusted_identity :: "file_store \<Rightarrow> address \<Rightarrow> bytes \<Rightarrow> bool" where
  "file_is_trusted_identity st a k =
     (case map_of (entries st) (AddrKey a) of
        None \<Rightarrow> True
      | Some v \<Rightarrow> let b = B64Decode v in if length b \<noteq> 32 then False else b = k)"

definition sender_slot :: "address \<Rightarrow> string \<Rightarrow> string" where
  "sender_slot a g = AddrKey a @ ''|'' @ g"

definition file_load_sender_key :: "file_store \<Rightarrow> address \<Rightarrow> string \<Rightarrow> sender_key_record option" where
  "file_load_sender_key st a g =
     (case map_of (entries st) (sender_slot a g) of
        None \<Rightarrow> None
      | Some v \<Rightarrow> let b = B64Decode v in if b = [] then None else Some (deserialize_sender_key b))"

definition file_store_sender_key :: "bool \<Rightarrow> file_store \<Rightarrow> address \<Rightarrow> string \<Rightarrow> sender_key_record \<Rightarrow> file_store" where
  "file_store_sender_key written st a g r =
     PersistLocked written (st\<lparr>entries := AList.update (sender_slot a g) (B64Encode (serialize_sender_key r)) (entries st)\<rparr>)"

definition file_contains_sender_key :: "file_store \<Rightarrow> address \<Rightarrow> string \<Rightarrow> bool" where
  "file_contains_sender_key st a g = (map_of (entries st) (sender_slot a g) \<noteq> None)"

subsection \<open>The keys of the maps\<close>

lemma dec_no_colon [simp]: "c \<in> set (dec n) \<Longrightarrow> c \<noteq> CHR '':''" "CHR '':'' \<notin> set (dec n)"
    "CHR ''|'' \<notin> set (dec n)"
  using dec_digits[of n] by (auto simp: list_all_iff is_digit_def)

lemma after_colon_dec [simp]: "after_colon (xs @ '':'' @ dec n) = dec n"
proof -
  have "takeWhile (\<lambda>c. c \<noteq> CHR '':'') (rev (dec n) @ CHR '':'' # rev xs) = rev (dec n)"
    by (subst takeWhile_append2) auto
  then show ?thesis by (simp add: after_colon_def)
qed

lemma AddrKey_inj [simp]: "AddrKey a = AddrKey b \<longleftrightarrow> a = b"
proof
  assume eq: "AddrKey a = AddrKey b"
  then have "dec (unat (device_id a)) = dec (unat (device_id b))"
    using after_colon_dec unfolding AddrKey_def by metis
  then have "unat (device_id a) = unat (device_id b)" by (rule dec_inj)
  then have "device_id a = device_id b" by (rule unsigned_word_eqI)
  then show "a = b" using eq by (cases a, cases b) (simp add: AddrKey_def)
qed simp

definition no_bar :: "address \<Rightarrow> bool" where
  "no_bar a = (CHR ''|'' \<notin> set (name a))"

lemma sender_slot_inj:
  assumes "no_bar a" "no_bar b"
  shows "sender_slot a g = sender_slot b h \<longleftrightarrow> a = b \<and> g = h"
proof -
  have "takeWhile (\<lambda>c. c \<noteq> CHR ''|'') (sender_slot a g) = AddrKey a" if "no_bar a" for a g
    unfolding sender_slot_def
    by (subst takeWhile_append2) (use that in \<open>auto simp: AddrKey_def no_bar_def\<close>)
  then have "sender_slot a g = sender_slot b h \<Longrightarrow> AddrKey a = AddrKey b" using assms by metis
  then show ?thesis by (auto simp: sender_slot_def)
qed

subsection \<open>The file stores keep the law\<close>

lemma entries_Persist [simp]: "entries (PersistLocked w st) = entries st"
  by (simp add: PersistLocked_def)

lemma serialize_nonempty [simp]: "serialize_session r \<noteq> []" "serialize_sender_key k \<noteq> []"
  by (simp_all add: serialize_session_def serialize_sender_key_def write_bytes_def write_u32_be_def)

definition session_fits :: "session_record \<Rightarrow> bool" where
  "session_fits r = fits (sr_state r)"

definition sender_key_fits :: "sender_key_record \<Rightarrow> bool" where
  "sender_key_fits r = (fits (sk_group_id r) \<and> fits (name (sk_sender r)) \<and> fits (sk_chain_key r)
     \<and> fits (sk_state r) \<and> keypair_ok (sk_signing_key r))"

interpretation on_file: record_store file_load_session "file_store_session w" "\<lambda>_. True" session_fits
  by unfold_locales
    (simp add: file_load_session_def file_store_session_def update_conv session_fits_def session_back Let_def)

interpretation on_file_group: record_store "\<lambda>st (a, g). file_load_sender_key st a g"
  "\<lambda>st (a, g). file_store_sender_key w st a g" "\<lambda>(a, g). no_bar a" sender_key_fits
  by unfold_locales
    (auto simp: file_load_sender_key_def file_store_sender_key_def update_conv sender_key_fits_def
      sender_key_back sender_slot_inj Let_def split: if_splits)

interpretation on_file_ident: record_store file_load_identity "\<lambda>st a k. snd (file_save_identity w st a k)"
  "\<lambda>_. True" key_ok
  by unfold_locales (simp add: file_load_identity_def file_save_identity_def update_conv key_ok_def Let_def)

lemma sender_keys_collide:
  "sender_slot \<lparr>name = ''a'', device_id = 1\<rparr> ''x:2|g'' = sender_slot \<lparr>name = ''a:1|x'', device_id = 2\<rparr> ''g''"
  by (simp add: sender_slot_def AddrKey_def dec.simps digit_def char_of_def bit_0)

subsection \<open>What a restart finds\<close>

definition to_json :: "(string \<times> string) list \<Rightarrow> json" where
  "to_json m = JObj (map (\<lambda>(k, v). (k, JStr v)) m)"

lemma on_disk_Persist [simp]:
  "on_disk (PersistLocked w st) = (if w then to_json (entries st) else on_disk st)"
  by (simp add: PersistLocked_def to_json_def)

lemma read_members_strings:
  "distinct (map fst m) \<Longrightarrow>
     \<exists>m'. read_members (map (\<lambda>(k, v). (k, JStr v)) m) m0 = Ret m' \<and> map_of m' = map_of m0 ++ map_of m"
proof (induction m arbitrary: m0)
  case Nil
  then show ?case by simp
next
  case (Cons kv m)
  obtain k v where kv: "kv = (k, v)" by force
  obtain m' where m': "read_members (map (\<lambda>(k, v). (k, JStr v)) m) (AList.update k v m0) = Ret m'"
    "map_of m' = map_of (AList.update k v m0) ++ map_of m"
    using Cons by fastforce
  have "map_of m k = None" using Cons.prems kv by (simp add: map_of_eq_None_iff)
  then have "map_of (AList.update k v m0) ++ map_of m = map_of m0 ++ map_of (kv # m)"
    by (auto simp: kv fun_eq_iff update_conv map_add_def split: option.splits)
  then show ?case using m' kv by (metis (no_types, lifting) asString.simps(5) bind_outcome.simps(1) case_prod_conv list.simps(9) read_members.simps(2))
qed

lemma reopened:
  assumes "distinct (map fst m)"
  obtains st where "open_store (to_json m) = Ret st" "map_of (entries st) = map_of m"
  using read_members_strings[OF assms, of "[]"] by (auto simp: open_store_def to_json_def)

text \<open>A run of calls that store sessions, each with whether its write succeeded.\<close>

definition store_all :: "(bool \<times> address \<times> session_record) list \<Rightarrow> file_store \<Rightarrow> file_store" where
  "store_all ops st = fold (\<lambda>(w, a, r) st. file_store_session w st a r) ops st"

definition new_store :: file_store where
  "new_store = \<lparr>entries = [], on_disk = JNull\<rparr>"

text \<open>The calls up to the last one whose write succeeded.\<close>

definition written_ops :: "(bool \<times> 'a) list \<Rightarrow> 'a list" where
  "written_ops ops = map snd (rev (dropWhile (\<lambda>(w, _). \<not> w) (rev ops)))"

lemma store_all_simps [simp]:
  "store_all [] st = st"
  "store_all (ops @ [(w, a, r)]) st = file_store_session w (store_all ops st) a r"
  by (simp_all add: store_all_def)

lemma written_ops_simps [simp]:
  "written_ops [] = []"
  "written_ops (ops @ [(w, x)]) = (if w then map snd ops @ [x] else written_ops ops)"
  by (simp_all add: written_ops_def)

lemma store_all_entries:
  "entries (store_all ops new_store) = entries (fold (\<lambda>(a, r) st. file_store_session w st a r) (map snd ops) new_store)
   \<and> distinct (map fst (entries (store_all ops new_store)))"
proof (induction ops rule: rev_induct)
  case Nil
  then show ?case by (simp add: new_store_def)
next
  case (snoc op ops)
  obtain v a r where "op = (v, a, r)" by (cases op)
  then show ?case using snoc by (auto simp: file_store_session_def intro: distinct_update)
qed

lemma on_disk_store_all:
  "on_disk (store_all ops new_store) =
     (if written_ops ops = [] then JNull
      else to_json (entries (fold (\<lambda>(a, r) st. file_store_session w st a r) (written_ops ops) new_store)))"
proof (induction ops rule: rev_induct)
  case Nil
  then show ?case by (simp add: new_store_def)
next
  case (snoc op ops)
  obtain v a r where op: "op = (v, a, r)" by (cases op)
  have "entries (file_store_session x st a r) = entries (file_store_session y st' a r)"
    if "entries st = entries st'" for x y st st'
    using that by (simp add: file_store_session_def)
  then show ?case
    using snoc op store_all_entries[of ops w] by (auto simp: file_store_session_def)
qed


definition demo_ops :: "(bool \<times> address \<times> session_record) list" where
  "demo_ops = [(True, \<lparr>name = ''a'', device_id = 0\<rparr>, no_session\<lparr>sr_state := [1]\<rparr>),
     (False, \<lparr>name = ''a'', device_id = 0\<rparr>, no_session\<lparr>sr_state := [2]\<rparr>)]"


subsection \<open>Deleting by name\<close>

lemma starts_with_append [simp]: "starts_with p (p @ s)"
  by (simp add: starts_with_def)

lemma prefix_of_key:
  assumes "CHR '':'' \<notin> set (name b)"
  shows "starts_with (n @ '':'') (AddrKey b) \<longleftrightarrow> n = name b"
proof
  assume "starts_with (n @ '':'') (AddrKey b)"
  then obtain r where r: "AddrKey b = (n @ '':'') @ r"
    by (metis append_take_drop_id starts_with_def)
  have count: "count_list (AddrKey b) CHR '':'' = 1"
    using assms by (simp add: AddrKey_def count_list_0_iff)
  then have "count_list n CHR '':'' = 0" using r by simp
  then have n: "CHR '':'' \<notin> set n" by (simp add: count_list_0_iff)
  have "takeWhile (\<lambda>c. c \<noteq> CHR '':'') (AddrKey b) = name b"
    using assms unfolding AddrKey_def by (subst takeWhile_append2) auto
  moreover have "takeWhile (\<lambda>c. c \<noteq> CHR '':'') (AddrKey b) = n"
    using n unfolding r append_assoc by (subst takeWhile_append2) auto
  ultimately show "n = name b" by simp
qed (simp add: AddrKey_def starts_with_def)

lemma map_of_filter_key: "map_of (filter (\<lambda>(k, v). P k) m) k = (if P k then map_of m k else None)"
  by (induction m) auto

lemma file_delete_all_load:
  "file_load_session (file_delete_all_sessions w st n) b =
     (if starts_with (n @ '':'') (AddrKey b) then None else file_load_session st b)"
  by (simp add: file_delete_all_sessions_def file_load_session_def
      map_of_filter_key[where P = "\<lambda>k. \<not> starts_with (n @ '':'') k"])

text \<open>Deleting the sessions of a name from a file-backed store deletes those of the addresses with
  that name and no others, as long as no name has a colon in it.\<close>

lemma file_delete_all_by_name:
  assumes "CHR '':'' \<notin> set (name b)"
  shows "file_load_session (file_delete_all_sessions w st n) b =
    (if name b = n then None else file_load_session st b)"
  using prefix_of_key[OF assms, of n] by (auto simp: file_delete_all_load)

lemma file_delete_all_by_name_example:
  "file_load_session (file_delete_all_sessions True (store_all demo_ops new_store) ''b'') \<lparr>name = ''a'', device_id = 0\<rparr>
    = file_load_session (store_all demo_ops new_store) \<lparr>name = ''a'', device_id = 0\<rparr>"
  using file_delete_all_by_name[of "\<lparr>name = ''a'', device_id = 0\<rparr>" True "store_all demo_ops new_store" "''b''"]
  by simp

text \<open>The in-memory store compares names; the file store also takes the longer name with it.\<close>

lemma delete_takes_longer_name:
  "mem_load_session (mem_delete_all_sessions st n) b = (if name b = n then None else mem_load_session st b)"
  "file_load_session (file_delete_all_sessions w fs n) \<lparr>name = n @ CHR '':'' # x, device_id = d\<rparr> = None"
proof -
  show "mem_load_session (mem_delete_all_sessions st n) b = (if name b = n then None else mem_load_session st b)"
    by (induction st) (auto simp: mem_load_session_def mem_delete_all_sessions_def)
  show "file_load_session (file_delete_all_sessions w fs n) \<lparr>name = n @ CHR '':'' # x, device_id = d\<rparr> = None"
    by (simp add: file_delete_all_load AddrKey_def starts_with_def)
qed

text \<open>Device 0, the phone itself, is a sub-device for the file store only.\<close>

lemma sub_devices_differ:
  "0 \<notin> set (mem_get_sub_device_sessions m n)"
  "file_get_sub_device_sessions
     \<lparr>entries = [(AddrKey \<lparr>name = ''a'', device_id = 0\<rparr>, v)], on_disk = JNull\<rparr> ''a'' = [0]"
proof -
  have d: "dec 0 = ''0''" by code_simp
  have n: "stoul ''0'' = Some 0" by code_simp
  show "0 \<notin> set (mem_get_sub_device_sessions m n)"
    by (auto simp: mem_get_sub_device_sessions_def)
  have "after_colon ((''a'' @ '':'') @ ''0'') = ''0''" using after_colon_dec[of "''a''" 0] unfolding d by simp
  then show "file_get_sub_device_sessions
     \<lparr>entries = [(AddrKey \<lparr>name = ''a'', device_id = 0\<rparr>, v)], on_disk = JNull\<rparr> ''a'' = [0]"
    by (simp add: file_get_sub_device_sessions_def AddrKey_def starts_with_def map_filter_def d n)
qed

subsection \<open>Identities\<close>

text \<open>Trust on first use, in both stores: the key that was saved last is the only one trusted, and
  saving another replaces it without a question.\<close>

lemma trusted_after_save:
  assumes "key_ok k"
  shows "file_is_trusted_identity (snd (file_save_identity w st a k)) a k' \<longleftrightarrow> k' = k"
    and "is_trusted_identity (snd (save_identity ms a k)) a k' \<longleftrightarrow> k' = k"
  using assms
  by (auto simp: file_is_trusted_identity_def file_save_identity_def is_trusted_identity_def
      save_identity_def update_conv key_ok_def Let_def)

end
