(* ===== verification/SignalCrypto.thy ===== *)
theory SignalCrypto
  imports DoubleRatchet SignalStore ProtoWire
begin

unbundle bit_operations_syntax

text \<open>
  Sessions on top of the ratchet (\<open>src/kernel/signal/SignalCrypto.cpp\<close>): key agreement as initiator
  and as receiver, the Signal messages a session sends, sender keys of groups, and the signatures.
  The stores are the two functions the code calls on them. \<open>Throw\<close> inside a \<open>try\<close> becomes \<open>Fail\<close>; the
  draws such a call may have made are then skipped.
\<close>

subsection \<open>Results\<close>

datatype fault = NoSession | NoSignedPreKey u32 | NoPreKey u32 | NoChain | CipherFailed | Exception
  | TooShort | BadState | MissingField | BadRatchetKey | BadMac | NoSenderKey

datatype 'a result = Success 'a | Fail fault

fun caught :: "'a outcome \<Rightarrow> 'a \<Rightarrow> 'a outcome" where
  "caught Throw f = Ret f"
| "caught (Ret x) f = Ret x"
| "caught Trap f = Trap"

definition load_ratchet :: "session_record \<Rightarrow> ratchet_state outcome" where
  "load_ratchet r =
     (if sr_state r \<noteq> [] then bind_outcome (deserialize (sr_state r)) of_opt else Throw)"

definition save_ratchet :: "ratchet_state \<Rightarrow> session_record" where
  "save_ratchet s = \<lparr>sr_state = serialize s, sr_version = 1, sr_is_fresh = False\<rparr>"

subsection \<open>Key agreement\<close>

definition initiator_ikm :: "crypto \<Rightarrow> bytes \<Rightarrow> bytes \<Rightarrow> bytes \<Rightarrow> bytes \<Rightarrow> bytes outcome" where
  "initiator_ikm C our_id our_ephemeral their_id their_spk =
     bind_outcome (dh C our_id their_id) (\<lambda>dh1.
     bind_outcome (dh C our_id their_spk) (\<lambda>dh2.
     bind_outcome (dh C our_ephemeral their_id) (\<lambda>dh3.
     bind_outcome (dh C our_ephemeral their_spk) (\<lambda>dh4.
       Ret (dh1 @ dh2 @ dh3 @ dh4)))))"

definition root_of :: "crypto \<Rightarrow> bytes \<Rightarrow> bytes" where
  "root_of C ikm = hkdf_derive C ikm (replicate 32 0) (ascii ''WhisperText'') KEY_SIZE"

definition initialize_session ::
  "crypto \<Rightarrow> ('st \<Rightarrow> address \<Rightarrow> session_record \<Rightarrow> 'st) \<Rightarrow> nat \<Rightarrow> keypair \<Rightarrow> 'st \<Rightarrow> address \<Rightarrow> key_bundle
     \<Rightarrow> (unit result \<times> 'st \<times> nat) outcome" where
  "initialize_session C sv n our_kp st remote b =
     (let their_id = public_key (b_identity_key b);
          their_spk = public_key (spk_keypair (b_signed_pre_key b))
      in caught
        (bind_outcome (initiator_ikm C (private_key our_kp) (private_key (keygen C n)) their_id their_spk) (\<lambda>ikm.
           bind_outcome (ratchet_init_as_initiator C (n + 1) our_kp their_id (root_of C ikm) their_spk) (\<lambda>(s, n).
             Ret (Success (), sv st remote (save_ratchet s), n))))
        (Fail Exception, st, n + 2))"

text \<open>The one-time key is absent when the message names none.\<close>

definition receiver_ikm ::
  "crypto \<Rightarrow> bytes \<Rightarrow> bytes \<Rightarrow> bytes option \<Rightarrow> bytes \<Rightarrow> bytes \<Rightarrow> bytes outcome" where
  "receiver_ikm C our_id our_spk our_opk their_id their_ephemeral =
     bind_outcome (dh C our_id their_ephemeral) (\<lambda>dh1.
     bind_outcome (dh C our_spk their_id) (\<lambda>dh2.
     bind_outcome (dh C our_spk their_ephemeral) (\<lambda>dh3.
     bind_outcome (case our_opk of None \<Rightarrow> Ret [] | Some k \<Rightarrow> dh C k their_ephemeral) (\<lambda>dh4.
       Ret (replicate 32 0xFF @ dh2 @ dh1 @ dh3 @ dh4)))))"

definition initialize_session_as_receiver ::
  "crypto \<Rightarrow> ('st \<Rightarrow> address \<Rightarrow> session_record \<Rightarrow> 'st) \<Rightarrow> keypair \<Rightarrow> 'st \<Rightarrow> pre_key_store
     \<Rightarrow> signed_pre_key_store \<Rightarrow> address \<Rightarrow> key_bundle \<Rightarrow> u32 \<Rightarrow> (unit result \<times> 'st \<times> pre_key_store) outcome" where
  "initialize_session_as_receiver C sv our_id st pks spks remote b preKeyId =
     (let spk_id' = spk_id (b_signed_pre_key b);
          their_id = public_key (b_identity_key b);
          their_ephemeral = public_key (spk_keypair (b_signed_pre_key b));
          opk = (if preKeyId > 0 then load_pre_key pks preKeyId else None)
      in case load_signed_pre_key spks spk_id' of
           None \<Rightarrow> Ret (Fail (NoSignedPreKey spk_id'), st, pks)
         | Some our_spk \<Rightarrow>
             if preKeyId > 0 \<and> opk = None then Ret (Fail (NoPreKey preKeyId), st, pks)
             else caught
               (bind_outcome
                  (receiver_ikm C (private_key our_id) (private_key (spk_keypair our_spk))
                     (map_option (\<lambda>k. private_key (pk_keypair k)) opk) their_id their_ephemeral) (\<lambda>ikm.
                  Ret (Success (),
                       sv st remote (save_ratchet
                         (ratchet_init_as_recipient our_id their_id (root_of C ikm) (spk_keypair our_spk))),
                       if opk \<noteq> None \<and> preKeyId > 0 then remove_pre_key pks preKeyId else pks)))
               (Fail Exception, st, pks))"

subsection \<open>The keys of one message\<close>

text \<open>The sender and the receiver each have their own copy.\<close>

definition deriveWhisperMessageKeysOut :: "crypto \<Rightarrow> bytes \<Rightarrow> bytes \<times> bytes \<times> bytes" where
  "deriveWhisperMessageKeysOut C mk =
     (let info = ascii ''WhisperMessageKeys''; prk = hmac_sha256 C (replicate 32 0) mk;
          t1 = hmac_sha256 C prk (info @ [0x01]);
          t2 = hmac_sha256 C prk (t1 @ info @ [0x02]);
          t3 = hmac_sha256 C prk (t2 @ info @ [0x03])
      in (t1, t2, t3))"

definition curve25519PublicKeyToEd :: "bytes \<Rightarrow> bytes" where
  "curve25519PublicKeyToEd k = 0x05 # k"

definition computeSignalMessageMac ::
  "crypto \<Rightarrow> bytes \<Rightarrow> bytes \<Rightarrow> bytes \<Rightarrow> u8 \<Rightarrow> bytes \<Rightarrow> bytes" where
  "computeSignalMessageMac C macKey first_id second_id version proto =
     take 8 (hmac_sha256 C macKey (first_id @ second_id @ [version] @ proto))"

subsection \<open>Encryption\<close>

definition kVersion :: u8 where "kVersion = 0x33"

definition seal :: "crypto \<Rightarrow> keypair \<Rightarrow> ratchet_state \<Rightarrow> bytes \<Rightarrow> bytes \<Rightarrow> bytes option" where
  "seal C our_kp s mk pt =
     (case deriveWhisperMessageKeysOut C mk of (cipherKey, macKey, iv) \<Rightarrow>
        let ct = cbc_enc C cipherKey pt (take 16 iv)
        in if ct = [] then None
           else let proto = encodeSignalMessageProto (curve25519PublicKeyToEd (public_key (self_ratchet s)))
                              (sending_count s) (prev_sending_count s) ct
             in Some (kVersion # proto
                  @ computeSignalMessageMac C macKey (curve25519PublicKeyToEd (public_key our_kp))
                      (curve25519PublicKeyToEd (remote_identity s)) kVersion proto))"

definition encrypt_1to1 ::
  "crypto \<Rightarrow> ('st \<Rightarrow> address \<Rightarrow> session_record option) \<Rightarrow> ('st \<Rightarrow> address \<Rightarrow> session_record \<Rightarrow> 'st)
     \<Rightarrow> nat \<Rightarrow> keypair \<Rightarrow> 'st \<Rightarrow> address \<Rightarrow> bytes \<Rightarrow> (encrypted_message result \<times> 'st \<times> nat) outcome" where
  "encrypt_1to1 C ld sv n our_kp st remote pt =
     (case ld st remote of
        None \<Rightarrow> Ret (Fail NoSession, st, n)
      | Some rec \<Rightarrow> caught
          (bind_outcome (load_ratchet rec) (\<lambda>s.
             if sending_chain_key s = None \<and> remote_ratchet s = None then Ret (Fail NoChain, st, n)
             else bind_outcome (first_send_step C n s) (\<lambda>(s, n).
               case sending_chain_key s of
                 None \<Rightarrow> Trap
               | Some ck \<Rightarrow>
                   case kdf_ck C ck of (new_chain, mk) \<Rightarrow>
                   case seal C our_kp s mk pt of
                     None \<Rightarrow> Ret (Fail CipherFailed, st, n)
                   | Some wire \<Rightarrow>
                       Ret (Success \<lparr>em_type = Whisper, em_ciphertext = wire, em_header = [],
                              em_counter = sending_count s\<rparr>,
                            sv st remote (save_ratchet
                              (s\<lparr>sending_chain_key := Some new_chain, sending_count := sending_count s + 1\<rparr>)),
                            n))))
          (Fail Exception, st, n + 1))"

text \<open>The header of the other format: key, two counters, ciphertext with its length, nonce and tag.
  A header too short leaves the key unset.\<close>

definition parse_header :: "encrypted_message \<Rightarrow> ratchet_ciphertext outcome" where
  "parse_header m =
     (let hdr = em_header m
      in if length hdr \<ge> KEY_SIZE + 4 + 4 + 4
         then let ct_len = unat (read_u32_be (drop 40 hdr)); d = drop 44 hdr
           in Ret \<lparr>c_header_key = take KEY_SIZE hdr,
               c_prev_count = read_u32_be (drop 32 hdr), c_message_number = read_u32_be (drop 36 hdr),
               c_gcm = (if 44 + ct_len + NONCE_SIZE + TAG_SIZE \<le> length hdr
                        then \<lparr>g_ciphertext = take ct_len d, g_nonce = take NONCE_SIZE (drop ct_len d),
                              g_tag = take TAG_SIZE (drop (ct_len + NONCE_SIZE) d)\<rparr>
                        else \<lparr>g_ciphertext = em_ciphertext m, g_nonce = replicate NONCE_SIZE 0,
                              g_tag = replicate TAG_SIZE 0\<rparr>)\<rparr>
         else Trap)"

definition decrypt_1to1 ::
  "crypto \<Rightarrow> ('st \<Rightarrow> address \<Rightarrow> session_record option) \<Rightarrow> ('st \<Rightarrow> address \<Rightarrow> session_record \<Rightarrow> 'st)
     \<Rightarrow> nat \<Rightarrow> 'st \<Rightarrow> address \<Rightarrow> encrypted_message \<Rightarrow> (bytes result \<times> 'st \<times> nat) outcome" where
  "decrypt_1to1 C ld sv n st remote m =
     (case ld st remote of
        None \<Rightarrow> Ret (Fail NoSession, st, n)
      | Some rec \<Rightarrow> caught
          (bind_outcome (load_ratchet rec) (\<lambda>s.
             bind_outcome (parse_header m) (\<lambda>ct.
               bind_outcome (ratchet_decrypt C n s ct) (\<lambda>(pt, s, n).
                 Ret (Success pt, sv st remote (save_ratchet s), n)))))
          (Fail Exception, st, n + 1))"

subsection \<open>Groups\<close>

definition encrypt_group ::
  "crypto \<Rightarrow> ('st \<Rightarrow> address \<Rightarrow> string \<Rightarrow> sender_key_record option)
     \<Rightarrow> ('st \<Rightarrow> address \<Rightarrow> string \<Rightarrow> sender_key_record \<Rightarrow> 'st)
     \<Rightarrow> nat \<Rightarrow> 'st \<Rightarrow> address \<Rightarrow> string \<Rightarrow> bytes \<Rightarrow> (group_message \<times> 'st \<times> nat) outcome" where
  "encrypt_group C ld sv n st snd_addr g pt =
     (case (case ld st snd_addr g of
              Some r \<Rightarrow> (r, st, n)
            | None \<Rightarrow> let r = \<lparr>sk_group_id = g, sk_sender = snd_addr, sk_iteration = 0,
                                sk_chain_key = rand C n KEY_SIZE, sk_signing_key = keygen C (n + 1),
                                sk_state = []\<rparr>
                in (r, sv st snd_addr g r, n + 2)) of (r, st, n) \<Rightarrow>
        if length (sk_chain_key r) < KEY_SIZE then Trap
        else case kdf_ck C (take KEY_SIZE (sk_chain_key r)) of (new_ck, mk) \<Rightarrow>
          case aes_gcm_encrypt C n mk pt of (gcm, n) \<Rightarrow>
            let r' = r\<lparr>sk_chain_key := new_ck, sk_iteration := sk_iteration r + 1\<rparr>
            in Ret (\<lparr>gm_group_id = g, gm_sender = snd_addr,
                     gm_ciphertext = mk @ g_ciphertext gcm @ g_nonce gcm @ g_tag gcm,
                     gm_counter = sk_iteration r'\<rparr>,
                    sv st snd_addr g r', n))"

definition decrypt_group ::
  "crypto \<Rightarrow> ('st \<Rightarrow> address \<Rightarrow> string \<Rightarrow> sender_key_record option)
     \<Rightarrow> 'st \<Rightarrow> address \<Rightarrow> string \<Rightarrow> group_message \<Rightarrow> bytes result" where
  "decrypt_group C ld st snd_addr g m =
     (case ld st snd_addr g of
        None \<Rightarrow> Fail NoSenderKey
      | Some _ \<Rightarrow>
          let c = gm_ciphertext m
          in if length c < KEY_SIZE + NONCE_SIZE + TAG_SIZE then Fail TooShort
             else let ct_len = length c - KEY_SIZE - NONCE_SIZE - TAG_SIZE; d = drop KEY_SIZE c
               in case aes_gcm_decrypt C (take KEY_SIZE c)
                        \<lparr>g_ciphertext = take ct_len d, g_nonce = take NONCE_SIZE (drop ct_len d),
                         g_tag = take TAG_SIZE (drop (ct_len + NONCE_SIZE) d)\<rparr> of
                    Ret pt \<Rightarrow> Success pt | _ \<Rightarrow> Fail Exception)"

definition process_sender_key_distribution :: "'st \<Rightarrow> address \<Rightarrow> bytes \<Rightarrow> unit result \<times> 'st" where
  "process_sender_key_distribution st snd_addr m = (Success (), st)"

definition get_sender_key_distribution ::
  "('st \<Rightarrow> address \<Rightarrow> string \<Rightarrow> sender_key_record option) \<Rightarrow> 'st \<Rightarrow> address \<Rightarrow> string \<Rightarrow> bytes result" where
  "get_sender_key_distribution ld st snd_addr g =
     (case ld st snd_addr g of None \<Rightarrow> Fail NoSenderKey | Some r \<Rightarrow> Success (sk_state r))"

subsection \<open>Signatures and pre-keys\<close>

definition clamp :: "bytes \<Rightarrow> bytes" where
  "clamp k = k[0 := k ! 0 AND 248, 31 := (k ! 31 AND 127) OR 64]"

definition ed25519_sign :: "crypto \<Rightarrow> bytes \<Rightarrow> bytes \<Rightarrow> bytes" where
  "ed25519_sign C priv m =
     (let a = clamp priv; A = ed_base C a;
          r = sc_reduce C (sha512 C (a @ m)); R = ed_base C r;
          k = sc_reduce C (sha512 C (R @ A @ m));
          S = sc_add C r (sc_mul C k a); sig = R @ S
      in sig[63 := sig ! 63 OR (A ! 31 AND 0x80)])"

definition ed25519_verify :: "crypto \<Rightarrow> bytes \<Rightarrow> bytes \<Rightarrow> bytes \<Rightarrow> bool" where
  "ed25519_verify C pk m sig = (if length pk \<noteq> 32 then False else verify C pk m sig)"

definition le_val :: "bytes \<Rightarrow> int" where
  "le_val b = foldr (\<lambda>x v. uint x + 256 * v) b 0"

definition le_bytes :: "nat \<Rightarrow> int \<Rightarrow> bytes" where
  "le_bytes n v = map (\<lambda>i. word_of_int (v div 256 ^ i)) [0..<n]"

definition field_p :: int where "field_p = 2 ^ 255 - 19"

text \<open>Without an inverse, \<open>BN_mod_mul\<close> is given a null pointer.\<close>

definition x25519_verify :: "crypto \<Rightarrow> bytes \<Rightarrow> bytes \<Rightarrow> bytes \<Rightarrow> bool outcome" where
  "x25519_verify C pk m sig =
     (if length pk \<noteq> 32 \<or> length sig \<noteq> 64 then Ret False
      else let u = le_val pk
        in case mod_inverse C ((u + 1) mod field_p) field_p of
             None \<Rightarrow> Trap
           | Some di \<Rightarrow>
               let y = ((u - 1) mod field_p) * di mod field_p; b = le_bytes 32 y;
                   ed = b[31 := ((b ! 31 AND 0x7F) OR (sig ! 63 AND 0x80))]
               in Ret (ed25519_verify C ed m (sig[63 := sig ! 63 AND 0x7F])))"

definition generate_pre_keys :: "crypto \<Rightarrow> nat \<Rightarrow> u32 \<Rightarrow> nat \<Rightarrow> pre_key list \<times> nat" where
  "generate_pre_keys C n start_id cnt =
     (map (\<lambda>i. \<lparr>pk_id = start_id + word_of_nat i, pk_keypair = keygen C (n + i)\<rparr>) [0..<cnt], n + cnt)"

definition generate_signed_pre_key :: "crypto \<Rightarrow> nat \<Rightarrow> u32 \<Rightarrow> keypair \<Rightarrow> signed_pre_key \<times> nat" where
  "generate_signed_pre_key C n i own =
     (let kp = keygen C n
      in (\<lparr>spk_id = i, spk_keypair = kp,
           spk_signature = ed25519_sign C (private_key own) (0x05 # public_key kp)\<rparr>, n + 1))"

end
