(* ===== verification/SignalSession.thy ===== *)
theory SignalSession
  imports SignalCrypto WABinary
begin

unbundle bit_operations_syntax

text \<open>
  What becomes of a message between WhatsApp and the ratchet: the session manager
  (\<open>src/kernel/signal/SignalSessionManager.cpp\<close>), the handler of incoming messages
  (\<open>src/kernel/whatsapp/WhatsAppMessageHandler.cpp\<close>) and the part of
  \<open>src/kernel/WhatsAppGatewayLoop.cpp\<close> that encrypts an outgoing text. A run is \<open>None\<close> when the
  call never returns.
\<close>

type_synonym 'a run = "'a outcome option"

fun bind_run :: "'a run \<Rightarrow> ('a \<Rightarrow> 'b run) \<Rightarrow> 'b run" where
  "bind_run (Some (Ret x)) f = f x"
| "bind_run (Some Throw) f = Some Throw"
| "bind_run (Some Trap) f = Some Trap"
| "bind_run None f = None"

abbreviation return :: "'a \<Rightarrow> 'a run" where "return x \<equiv> Some (Ret x)"

subsection \<open>Opening a message\<close>

definition ed25519_to_curve25519 :: "bytes \<Rightarrow> bytes" where
  "ed25519_to_curve25519 k = (if length k = 33 then tl k else if length k = 32 then k else [])"

definition deriveWhisperMessageKeys :: "crypto \<Rightarrow> bytes \<Rightarrow> bytes \<times> bytes \<times> bytes" where
  "deriveWhisperMessageKeys C mk =
     (let info = ascii ''WhisperMessageKeys''; prk = hmac_sha256 C (replicate 32 0) mk;
          t1 = hmac_sha256 C prk (info @ [0x01]);
          t2 = hmac_sha256 C prk (t1 @ info @ [0x02]);
          t3 = hmac_sha256 C prk (t2 @ info @ [0x03])
      in (t1, t2, t3))"

text \<open>The ratchet step, when the message carries a key that is not the one known.\<close>

definition session_step :: "crypto \<Rightarrow> nat \<Rightarrow> ratchet_state \<Rightarrow> bytes \<Rightarrow> (ratchet_state \<times> nat) outcome" where
  "session_step C n s key =
     (if remote_ratchet s = Some key then Ret (s, n)
      else bind_outcome (dh C (private_key (self_ratchet s)) key) (\<lambda>dh_out.
        case kdf_rk C (root_key s) dh_out of (new_root, new_chain) \<Rightarrow>
          let kp = keygen C n
          in bind_outcome (dh C (private_key kp) key) (\<lambda>dh_send.
            case kdf_rk C new_root dh_send of (send_root, send_chain) \<Rightarrow>
              Ret (s\<lparr>root_key := send_root, receiving_chain_key := Some new_chain,
                     remote_ratchet := Some key, receiving_count := 0, self_ratchet := kp,
                     sending_chain_key := Some send_chain, prev_sending_count := sending_count s,
                     sending_count := 0\<rparr>, n + 1))))"

text \<open>\<open>for (uint32_t i = receiving_count; i <= counter; i++)\<close>: the message key stays unset if the
  loop is not entered.\<close>

partial_function (option) advance_chain ::
  "crypto \<Rightarrow> u32 \<Rightarrow> u32 \<Rightarrow> bytes \<Rightarrow> bytes option \<Rightarrow> (bytes \<times> bytes option) option" where
  "advance_chain C i cnt ck mk =
     (if i \<le> cnt then (case kdf_ck C ck of (ck', mk') \<Rightarrow> advance_chain C (i + 1) cnt ck' (Some mk'))
      else Some (ck, mk))"

definition open_whisper :: "crypto \<Rightarrow> bytes \<Rightarrow> bytes \<Rightarrow> bytes \<Rightarrow> u8 \<Rightarrow> bytes \<Rightarrow> bytes \<Rightarrow> bytes \<Rightarrow> bytes result" where
  "open_whisper C mk their_id our_id version proto mac ct =
     (case deriveWhisperMessageKeys C mk of (cipherKey, macKey, iv) \<Rightarrow>
        if take 8 (hmac_sha256 C macKey (their_id @ our_id @ [version] @ proto)) \<noteq> mac then Fail BadMac
        else let pt = cbc_dec C cipherKey ct (take 16 iv)
          in if pt = [] then Fail CipherFailed else Success pt)"

definition decrypt_whisper ::
  "crypto \<Rightarrow> ('st \<Rightarrow> address \<Rightarrow> session_record option) \<Rightarrow> ('st \<Rightarrow> address \<Rightarrow> session_record \<Rightarrow> 'st)
     \<Rightarrow> nat \<Rightarrow> 'st \<Rightarrow> address \<Rightarrow> bytes \<Rightarrow> bytes \<Rightarrow> bytes \<Rightarrow> (bytes result \<times> 'st \<times> nat) run" where
  "decrypt_whisper C ld sv n st remote wire our_id their_id =
     (if length wire < 10 then return (Fail TooShort, st, n)
      else case ld st remote of
        None \<Rightarrow> return (Fail NoSession, st, n)
      | Some rec \<Rightarrow>
          bind_run (Some (deserialize (sr_state rec))) (\<lambda>so.
            case so of
              None \<Rightarrow> return (Fail BadState, st, n)
            | Some s \<Rightarrow>
                let proto = take (length wire - 9) (tl wire); mac = drop (length wire - 8) wire
                in bind_run (decodeSignalMessageInner proto) (\<lambda>m.
                  if ratchet_key m = [] \<or> ciphertext m = [] then return (Fail MissingField, st, n)
                  else let key = ed25519_to_curve25519 (ratchet_key m)
                    in if key = [] then return (Fail BadRatchetKey, st, n)
                       else bind_run (Some (session_step C n s key)) (\<lambda>(s, n).
                         case receiving_chain_key s of
                           None \<Rightarrow> return (Fail NoChain, st, n)
                         | Some ck \<Rightarrow>
                             bind_run (map_option Ret (advance_chain C (receiving_count s) (counter m) ck None))
                               (\<lambda>(ck', mko). case mko of
                                  None \<Rightarrow> Some Trap
                                | Some mk \<Rightarrow>
                                    (case open_whisper C mk their_id our_id (hd wire) proto mac (ciphertext m) of
                                       Fail e \<Rightarrow> return (Fail e, st, n)
                                     | Success pt \<Rightarrow>
                                         return (Success pt,
                                           sv st remote (save_ratchet (s\<lparr>receiving_chain_key := Some ck',
                                             receiving_count := counter m + 1\<rparr>)), n)))))))"

subsection \<open>The session manager on files\<close>

record manager =
  m_sessions :: file_store
  m_pre_keys :: pre_key_store
  m_signed :: signed_pre_key_store
  m_own :: keypair
  m_registration :: u32
  m_identities :: file_store
  m_sender_keys :: file_store
  m_draws :: nat

definition create_file_manager :: "json \<Rightarrow> json \<Rightarrow> json \<Rightarrow> keypair \<Rightarrow> u32 \<Rightarrow> nat \<Rightarrow> manager outcome" where
  "create_file_manager sess ids snds own reg n =
     bind_outcome (open_store sess) (\<lambda>s. bind_outcome (open_store ids) (\<lambda>i.
       bind_outcome (open_store snds) (\<lambda>k.
         Ret \<lparr>m_sessions = s, m_pre_keys = \<lparr>pks_keys = [], next_id = 1\<rparr>,
              m_signed = \<lparr>spks_keys = [], current_id = 0\<rparr>, m_own = own, m_registration = reg,
              m_identities = i, m_sender_keys = k, m_draws = n\<rparr>)))"

definition has_session :: "manager \<Rightarrow> address \<Rightarrow> bool" where
  "has_session M a = file_contains_session (m_sessions M) a"

definition establish_session :: "crypto \<Rightarrow> bool \<Rightarrow> manager \<Rightarrow> address \<Rightarrow> key_bundle \<Rightarrow> (unit result \<times> manager) outcome" where
  "establish_session C w M a b =
     bind_outcome (initialize_session C (file_store_session w) (m_draws M) (m_own M) (m_sessions M) a b)
       (\<lambda>(r, st, n). Ret (r, M\<lparr>m_sessions := st, m_draws := n\<rparr>))"

definition manager_encrypt :: "crypto \<Rightarrow> bool \<Rightarrow> manager \<Rightarrow> address \<Rightarrow> bytes \<Rightarrow> (encrypted_message result \<times> manager) outcome" where
  "manager_encrypt C w M a pt =
     bind_outcome (encrypt_1to1 C file_load_session (file_store_session w) (m_draws M) (m_own M) (m_sessions M) a pt)
       (\<lambda>(r, st, n). Ret (r, M\<lparr>m_sessions := st, m_draws := n\<rparr>))"

definition manager_decrypt :: "crypto \<Rightarrow> bool \<Rightarrow> manager \<Rightarrow> address \<Rightarrow> encrypted_message \<Rightarrow> (bytes result \<times> manager) outcome" where
  "manager_decrypt C w M a m =
     bind_outcome (decrypt_1to1 C file_load_session (file_store_session w) (m_draws M) (m_sessions M) a m)
       (\<lambda>(r, st, n). Ret (r, M\<lparr>m_sessions := st, m_draws := n\<rparr>))"

definition manager_decrypt_whisper ::
  "crypto \<Rightarrow> bool \<Rightarrow> manager \<Rightarrow> address \<Rightarrow> bytes \<Rightarrow> bytes \<Rightarrow> bytes \<Rightarrow> (bytes result \<times> manager) run" where
  "manager_decrypt_whisper C w M a wire our_id their_id =
     bind_run (decrypt_whisper C file_load_session (file_store_session w) (m_draws M) (m_sessions M) a wire our_id their_id)
       (\<lambda>(r, st, n). return (r, M\<lparr>m_sessions := st, m_draws := n\<rparr>))"

definition group_encrypt :: "crypto \<Rightarrow> bool \<Rightarrow> manager \<Rightarrow> address \<Rightarrow> string \<Rightarrow> bytes \<Rightarrow> (group_message \<times> manager) outcome" where
  "group_encrypt C w M a g pt =
     bind_outcome (encrypt_group C file_load_sender_key (file_store_sender_key w) (m_draws M) (m_sender_keys M) a g pt)
       (\<lambda>(m, st, n). Ret (m, M\<lparr>m_sender_keys := st, m_draws := n\<rparr>))"

definition group_decrypt :: "crypto \<Rightarrow> manager \<Rightarrow> address \<Rightarrow> string \<Rightarrow> group_message \<Rightarrow> bytes result" where
  "group_decrypt C M a g m = decrypt_group C file_load_sender_key (m_sender_keys M) a g m"

definition manager_generate_pre_keys :: "crypto \<Rightarrow> manager \<Rightarrow> nat \<Rightarrow> pre_key list \<times> manager" where
  "manager_generate_pre_keys C M cnt =
     (case next_pre_key_id (m_pre_keys M) of (start, pks) \<Rightarrow>
      case generate_pre_keys C (m_draws M) start cnt of (ks, n) \<Rightarrow>
        (ks, M\<lparr>m_pre_keys := fold (\<lambda>k st. store_pre_key st k) ks pks, m_draws := n\<rparr>))"

definition rotate_signed_pre_key :: "crypto \<Rightarrow> manager \<Rightarrow> signed_pre_key \<times> manager" where
  "rotate_signed_pre_key C M =
     (case generate_signed_pre_key C (m_draws M) (current_signed_pre_key_id (m_signed M) + 1) (m_own M) of
        (k, n) \<Rightarrow> (k, M\<lparr>m_signed := store_signed_pre_key (m_signed M) k, m_draws := n\<rparr>))"

subsection \<open>Incoming messages\<close>

definition ed25519PublicKeyToCurve25519 :: "bytes \<Rightarrow> bytes" where
  "ed25519PublicKeyToCurve25519 k = (if length k = 33 then tl k else if length k = 32 then k else [])"

definition peer :: "string \<Rightarrow> address" where
  "peer sender = \<lparr>name = sender, device_id = 0\<rparr>"

text \<open>The empty vector stands for a failure.\<close>

definition decryptWhisperMessageInner :: "crypto \<Rightarrow> bool \<Rightarrow> manager \<Rightarrow> string \<Rightarrow> bytes \<Rightarrow> (bytes \<times> manager) run" where
  "decryptWhisperMessageInner C w M sender wire =
     (case file_load_identity (m_identities M) (peer sender) of
        None \<Rightarrow> return ([], M)
      | Some their_id \<Rightarrow>
          bind_run (manager_decrypt_whisper C w M (peer sender) wire (0x05 # public_key (m_own M)) (0x05 # their_id))
            (\<lambda>(r, M). return (case r of Fail _ \<Rightarrow> [] | Success pt \<Rightarrow> pt, M)))"

definition bundle_of_message :: "pre_key_signal_message \<Rightarrow> bytes \<Rightarrow> bytes \<Rightarrow> key_bundle" where
  "bundle_of_message m base their_id =
     no_bundle\<lparr>b_signed_pre_key := no_signed_pre_key\<lparr>spk_id := signed_pre_key_id m,
                  spk_keypair := no_keypair\<lparr>public_key := base\<rparr>\<rparr>,
                b_identity_key := no_keypair\<lparr>public_key := their_id\<rparr>,
                b_pre_key_id := (if pre_key_id m > 0 then Some (pre_key_id m) else None)\<rparr>"

definition decryptPreKeyMessage :: "crypto \<Rightarrow> bool \<Rightarrow> manager \<Rightarrow> string \<Rightarrow> bytes \<Rightarrow> (bytes \<times> manager) run" where
  "decryptPreKeyMessage C w M sender ct =
     (if length ct < 2 then return ([], M)
      else if length ct < 9 then return ([], M)
      else bind_run (decodePreKeySignalMessage (tl ct)) (\<lambda>m.
        let their_id = ed25519PublicKeyToCurve25519 (identity_key m);
            base = ed25519PublicKeyToCurve25519 (base_key m)
        in if their_id = [] then return ([], M)
           else if base = [] then return ([], M)
           else let M = M\<lparr>m_identities := snd (file_save_identity w (m_identities M) (peer sender) their_id)\<rparr>
             in bind_run (Some (initialize_session_as_receiver C (file_store_session w) (m_own M) (m_sessions M)
                    (m_pre_keys M) (m_signed M) (peer sender) (bundle_of_message m base their_id) (pre_key_id m)))
                  (\<lambda>(r, st, pks).
                    let M = M\<lparr>m_sessions := st, m_pre_keys := pks\<rparr>
                    in case r of
                         Fail _ \<Rightarrow> return ([], M)
                       | Success _ \<Rightarrow>
                           if message m = [] then return ([], M)
                           else bind_run (decryptWhisperMessageInner C w M sender (message m)) (\<lambda>(pt, M).
                             if pt = [] then return ([], M) else return (unpadRandomMax16 pt, M)))))"

definition decryptWhisperMessage :: "crypto \<Rightarrow> bool \<Rightarrow> manager \<Rightarrow> string \<Rightarrow> bytes \<Rightarrow> (bytes \<times> manager) run" where
  "decryptWhisperMessage C w M sender ct =
     bind_run (decryptWhisperMessageInner C w M sender ct) (\<lambda>(pt, M).
       if pt = [] then return ([], M) else return (unpadRandomMax16 pt, M))"

record decrypted_message =
  d_text :: string
  d_sender :: string
  d_from :: string
  d_is_group :: bool
  d_message_id :: string
  d_sender_name :: string

fun handle_children :: "crypto \<Rightarrow> bool \<Rightarrow> string \<Rightarrow> BinaryNode list \<Rightarrow> manager \<Rightarrow> (string \<times> manager) run" where
  "handle_children C w sender [] M = return ('''', M)"
| "handle_children C w sender (c # cs) M =
     (if tag c \<noteq> ''enc'' then handle_children C w sender cs M
      else case content c of
        Bytes ct \<Rightarrow>
          if ct = [] then handle_children C w sender cs M
          else bind_run
            (if getAttr c ''type'' '''' = ''pkmsg'' then decryptPreKeyMessage C w M sender ct
             else if getAttr c ''type'' '''' = ''msg'' then decryptWhisperMessage C w M sender ct
             else return ([], M)) (\<lambda>(pt, M).
              if pt \<noteq> [] then bind_run (decodeMessage pt) (\<lambda>m.
                if hasText m then return (text_of m, M) else handle_children C w sender cs M)
              else handle_children C w sender cs M)
      | _ \<Rightarrow> handle_children C w sender cs M)"

definition kFailed :: string where
  "kFailed = ''[encrypted '' @ [CHR 0xE2, CHR 0x80, CHR 0x94] @ '' signal decryption failed]''"

definition handleEncryptedMessage :: "crypto \<Rightarrow> bool \<Rightarrow> BinaryNode \<Rightarrow> manager \<Rightarrow> (decrypted_message \<times> manager) run" where
  "handleEncryptedMessage C w node M =
     (let from_jid = getAttr node ''from'' ''''; part = getAttr node ''participant'' '''';
          sender = (if part = [] then from_jid else part);
          r = \<lparr>d_text = '''', d_sender = sender, d_from = from_jid, d_is_group = isJidGroup from_jid,
               d_message_id = getAttr node ''id'' '''', d_sender_name = getAttr node ''notify'' ''''\<rparr>
      in case content node of
           Nodes cs \<Rightarrow> bind_run (handle_children C w sender cs M) (\<lambda>(t, M).
             return (r\<lparr>d_text := (if t = [] then kFailed else t)\<rparr>, M))
         | _ \<Rightarrow> return (r\<lparr>d_text := ''[no children]''\<rparr>, M))"

subsection \<open>Outgoing texts\<close>

text \<open>The \<open>enc\<close> node of a text, or none when the send is given up.\<close>

definition encrypt_text :: "crypto \<Rightarrow> bool \<Rightarrow> manager \<Rightarrow> string \<Rightarrow> string \<Rightarrow> (BinaryNode option \<times> manager) outcome" where
  "encrypt_text C w M jid t =
     (let payload = encodeTextMessage t; remote = peer jid
      in bind_outcome
           (if has_session M remote then Ret (Success (), M)
            else establish_session C w M remote (no_bundle\<lparr>b_device_id := 0\<rparr>)) (\<lambda>(r, M).
             case r of
               Fail _ \<Rightarrow> Ret (None, M)
             | Success _ \<Rightarrow>
                 bind_outcome (manager_encrypt C w M remote payload) (\<lambda>(e, M).
                   case e of
                     Fail _ \<Rightarrow> Ret (None, M)
                   | Success m \<Rightarrow>
                       Ret (Some (BinaryNode ''enc''
                              [(''v'', ''2''), (''type'', if em_type m = PreKey then ''pkmsg'' else ''msg'')]
                              (Bytes (em_ciphertext m))), M))))"

end
