(* ===== verification/SignalChat.thy ===== *)
theory SignalChat
  imports SignalSession
begin

unbundle bit_operations_syntax

text \<open>
  Conversations over \<open>encrypt_1to1\<close> and \<open>decrypt_whisper\<close>: what one side encrypts the other reads,
  whoever writes next, as long as messages arrive in order. The session store is the interface
  \<open>record_store\<close>; the theorems are for both stores of the sources.
\<close>

subsection \<open>A message opens with the key it was sealed with\<close>

lemma derive_same: "deriveWhisperMessageKeys C mk = deriveWhisperMessageKeysOut C mk"
  by (simp add: deriveWhisperMessageKeys_def deriveWhisperMessageKeysOut_def)

lemma bind_run_Some [simp]: "bind_run (Some (bind_outcome m f)) g = bind_run (Some m) (\<lambda>x. bind_run (Some (f x)) g)"
  by (cases m) simp_all

lemma length_proto:
  "length (encodeSignalMessageProto rk cnt prev ct) \<le> 100 + length rk + length ct"
proof -
  have "length (writeVarint v) \<le> 10" for v by (rule length_writeVarint)
  note v = this
  show ?thesis
    using v[of "word_of_nat (length rk)"] v[of "word_of_nat (length ct)"] v[of "ucast cnt"] v[of "ucast prev"]
      v[of "push_bit 3 (ucast (1 :: u32)) OR ucast (2 :: u32)"] v[of "push_bit 3 (ucast (2 :: u32)) OR ucast (0 :: u32)"]
      v[of "push_bit 3 (ucast (3 :: u32)) OR ucast (0 :: u32)"] v[of "push_bit 3 (ucast (4 :: u32)) OR ucast (2 :: u32)"]
    by (simp add: encodeSignalMessageProto_def writeBytesField_def writeVarintField_def writeTag_def)
qed

lemma crypto_lengths:
  assumes "crypto_ok C"
  shows "length (hmac_sha256 C k d) = 32" "length (hkdf C ikm salt info m) = m" "keypair_ok (keygen C i)"
  using assms unfolding crypto_ok_def by auto

lemma cbc_opens:
  assumes "crypto_ok C"
  shows "cbc_enc C k p iv \<noteq> []" "length (cbc_enc C k p iv) \<le> length p + 16"
    "cbc_dec C k (cbc_enc C k p iv) iv = p"
  using assms unfolding crypto_ok_def by auto

text \<open>What the receiver makes of a sealed message, key and counters included.\<close>

lemma sealed_opens:
  assumes ok: "crypto_ok C" and key: "key_ok (public_key (self_ratchet s))" and pt: "pt \<noteq> []" "length pt < 2 ^ 62"
  obtains wire m where "seal C our_kp s mk pt = Some wire" "length wire \<ge> 10"
    "decodeSignalMessageInner (take (length wire - 9) (tl wire)) = Some (Ret m)"
    "ratchet_key m = 0x05 # public_key (self_ratchet s)" "counter m = sending_count s" "ciphertext m \<noteq> []"
    "open_whisper C mk (0x05 # public_key our_kp) (0x05 # remote_identity s) (hd wire)
       (take (length wire - 9) (tl wire)) (drop (length wire - 8) wire) (ciphertext m) = Success pt"
proof -
  obtain ck mk' iv where k: "deriveWhisperMessageKeysOut C mk = (ck, mk', iv)" by (metis prod_cases3)
  let ?ct = "cbc_enc C ck pt (take 16 iv)"
  let ?rk = "0x05 # public_key (self_ratchet s)"
  let ?proto = "encodeSignalMessageProto ?rk (sending_count s) (prev_sending_count s) ?ct"
  let ?mac = "computeSignalMessageMac C mk' (0x05 # public_key our_kp) (0x05 # remote_identity s) kVersion ?proto"
  let ?wire = "kVersion # ?proto @ ?mac"
  let ?m = "\<lparr>ratchet_key = ?rk, counter = sending_count s, previous_counter = prev_sending_count s,
    ciphertext = ?ct\<rparr>"
  have mac: "length ?mac = 8" using crypto_lengths(1)[OF ok] by (simp add: computeSignalMessageMac_def)
  have proto: "take (length ?wire - 9) (tl ?wire) = ?proto" "drop (length ?wire - 8) ?wire = ?mac"
    using mac by simp_all
  have "length ?proto < 2 ^ 63"
    using length_proto[of ?rk "sending_count s" "prev_sending_count s" ?ct] cbc_opens(2)[OF ok, of ck pt "take 16 iv"]
      key pt(2) by (simp add: key_ok_def)
  then have dec: "decodeSignalMessageInner ?proto = Some (Ret ?m)" by (rule signal_message_back)
  have ne: "?ct \<noteq> []" using cbc_opens(1)[OF ok] .
  have "length ?proto \<ge> 1" by (simp add: encodeSignalMessageProto_def writeBytesField_def)
  then have len: "length ?wire \<ge> 10" using mac by simp
  have "seal C our_kp s mk pt = Some ?wire"
    using k ne by (simp add: seal_def Let_def curve25519PublicKeyToEd_def)
  moreover have "open_whisper C mk (0x05 # public_key our_kp) (0x05 # remote_identity s) (hd ?wire)
       (take (length ?wire - 9) (tl ?wire)) (drop (length ?wire - 8) ?wire) (ciphertext ?m) = Success pt"
    using k pt(1) cbc_opens(3)[OF ok] unfolding proto
    by (simp add: open_whisper_def derive_same Let_def computeSignalMessageMac_def)
  ultimately show thesis using that[of ?wire ?m] dec ne len unfolding proto by simp
qed

lemma advance_one:
  assumes "cnt \<noteq> - 1"
  shows "advance_chain C cnt cnt ck mk = Some (fst (kdf_ck C ck), Some (snd (kdf_ck C ck)))"
proof -
  have "1 + cnt \<noteq> 0" using assms by (metis add_eq_0_iff2 minus_equation_iff)
  then have "unat (1 + cnt) = Suc (unat cnt)" by (rule unatSuc)
  then have "\<not> cnt + 1 \<le> cnt" by (simp add: word_le_nat_alt add.commute)
  then show ?thesis
    by (subst advance_chain.simps, simp add: case_prod_beta) (subst advance_chain.simps, simp)
qed

subsection \<open>Two sides in step\<close>

text \<open>The sender keys of a side are lists of bytes of the right length, and it has no keys put aside.\<close>

definition side_ok :: "keypair \<Rightarrow> ratchet_state \<Rightarrow> bool" where
  "side_ok other s = (state_ok s \<and> skipped_keys s = [] \<and> remote_identity s = public_key other)"

text \<open>\<open>x\<close> has stepped to a key that \<open>y\<close> has not seen, made of the root they share; what \<open>y\<close> sends
  until then, \<open>x\<close> reads.\<close>

definition ahead :: "crypto \<Rightarrow> nat \<Rightarrow> ratchet_state \<Rightarrow> ratchet_state \<Rightarrow> bool" where
  "ahead C n x y = (\<exists>i < n. \<exists>j < n. \<exists>k cs.
     self_ratchet x = keygen C i \<and> self_ratchet y = keygen C j
     \<and> remote_ratchet x = Some (public_key (keygen C j)) \<and> remote_ratchet y \<noteq> Some (public_key (keygen C i))
     \<and> dh C (private_key (keygen C j)) (public_key (keygen C i)) = Ret k
     \<and> kdf_rk C (root_key y) k = (root_key x, cs) \<and> sending_chain_key x = Some cs \<and> sending_count x = 0
     \<and> sending_chain_key y = receiving_chain_key x \<and> sending_count y = receiving_count x)"

text \<open>Key pairs drawn at different times are different.\<close>

definition fresh_keys :: "crypto \<Rightarrow> nat \<Rightarrow> bool" where
  "fresh_keys C N = inj_on (\<lambda>i. public_key (keygen C i)) {..<N}"

lemma side_saved:
  assumes "side_ok k s"
  shows "load_ratchet (save_ratchet s) = Ret s" "deserialize (sr_state (save_ratchet s)) = Ret (Some s)"
    "session_fits (save_ratchet s)"
proof -
  have s: "state_ok s" "skipped_keys s = []" using assms by (simp_all add: side_ok_def)
  have rb: "deserialize (serialize s) = Ret (Some s)" using s(1) by (rule state_back)
  moreover have "serialize s \<noteq> []" by (simp add: serialize_def write_u32_be_def)
  ultimately show "load_ratchet (save_ratchet s) = Ret s" "deserialize (sr_state (save_ratchet s)) = Ret (Some s)"
    by (simp_all add: load_ratchet_def save_ratchet_def)
  have "length (write_opt_key k) \<le> 33" if "opt_key_ok k" for k
    using that by (cases k) (simp_all add: write_opt_key_def opt_key_ok_def key_ok_def)
  from this[of "remote_ratchet s"] this[of "sending_chain_key s"] this[of "receiving_chain_key s"]
  have "length (serialize s) \<le> 400"
    using s by (simp add: serialize_def state_ok_def keypair_ok_def key_ok_def)
  then show "session_fits (save_ratchet s)" by (simp add: session_fits_def save_ratchet_def)
qed

lemma kdf_ok:
  assumes "crypto_ok C"
  shows "key_ok (fst (kdf_rk C r d))" "key_ok (snd (kdf_rk C r d))"
    "key_ok (fst (kdf_ck C ck))" "key_ok (snd (kdf_ck C ck))"
  using crypto_lengths[OF assms] by (simp_all add: kdf_rk_def kdf_ck_def hkdf_derive_def Let_def key_ok_def)

text \<open>What a side sends next, once it has a sending chain.\<close>

definition after_send :: "crypto \<Rightarrow> bytes \<Rightarrow> ratchet_state \<Rightarrow> ratchet_state" where
  "after_send C ck s = s\<lparr>sending_chain_key := Some (fst (kdf_ck C ck)), sending_count := sending_count s + 1\<rparr>"

lemma side_after_send: "crypto_ok C \<Longrightarrow> side_ok k s \<Longrightarrow> side_ok k (after_send C ck s)"
  using kdf_ok[of C] by (auto simp: side_ok_def after_send_def state_ok_def opt_key_ok_def)

definition after_receive :: "crypto \<Rightarrow> bytes \<Rightarrow> u32 \<Rightarrow> ratchet_state \<Rightarrow> ratchet_state" where
  "after_receive C ck cnt s = s\<lparr>receiving_chain_key := Some (fst (kdf_ck C ck)), receiving_count := cnt + 1\<rparr>"

lemma side_after_receive: "crypto_ok C \<Longrightarrow> side_ok k s \<Longrightarrow> side_ok k (after_receive C ck cnt s)"
  using kdf_ok[of C] by (auto simp: side_ok_def after_receive_def state_ok_def opt_key_ok_def)

lemma side_after_step:
  assumes "crypto_ok C" "side_ok k s" "key_ok key"
  shows "side_ok k (s\<lparr>root_key := fst (kdf_rk C r2 d2), receiving_chain_key := Some (snd (kdf_rk C r1 d1)),
    remote_ratchet := Some key, receiving_count := 0, self_ratchet := keygen C n,
    sending_chain_key := Some (snd (kdf_rk C r2 d2)), prev_sending_count := p, sending_count := 0\<rparr>)"
  using kdf_ok[OF assms(1)] assms crypto_lengths(3)[OF assms(1), of n]
  by (auto simp: side_ok_def state_ok_def opt_key_ok_def)

text \<open>The receiver's step towards a side that is ahead of it, and then the receiver is ahead.\<close>

lemma step_ahead:
  assumes ok: "crypto_ok C" and fresh: "fresh_keys C (Suc n)" and a: "ahead C n x y"
    and cs: "sending_chain_key x = Some cs"
  obtains y' where "session_step C n y (public_key (self_ratchet x)) = Ret (y', n + 1)"
    "side_ok k y \<Longrightarrow> side_ok k y'" "receiving_chain_key y' = Some cs" "receiving_count y' = 0"
    "\<And>cnt. cnt = sending_count x \<Longrightarrow>
       ahead C (n + 1) (after_receive C cs cnt y') (after_send C cs x)"
proof -
  obtain i j kk where ij: "i < n" "j < n" "self_ratchet x = keygen C i" "self_ratchet y = keygen C j"
    "remote_ratchet x = Some (public_key (keygen C j))" "remote_ratchet y \<noteq> Some (public_key (keygen C i))"
    "dh C (private_key (keygen C j)) (public_key (keygen C i)) = Ret kk"
    "kdf_rk C (root_key y) kk = (root_key x, cs)" "sending_count x = 0"
    using a cs by (auto simp: ahead_def)
  obtain k2 where k2: "dh C (private_key (keygen C n)) (public_key (keygen C i)) = Ret k2"
    "dh C (private_key (keygen C i)) (public_key (keygen C n)) = Ret k2"
    using keys_agree[OF ok, of n i] by blast
  let ?send = "kdf_rk C (root_key x) k2"
  let ?y = "y\<lparr>root_key := fst ?send, receiving_chain_key := Some cs,
    remote_ratchet := Some (public_key (keygen C i)), receiving_count := 0, self_ratchet := keygen C n,
    sending_chain_key := Some (snd ?send), prev_sending_count := sending_count y, sending_count := 0\<rparr>"
  have step: "session_step C n y (public_key (self_ratchet x)) = Ret (?y, n + 1)"
    using ij k2(1) by (simp add: session_step_def Let_def case_prod_beta)
  have "cs = snd (kdf_rk C (root_key y) kk)" using ij(8) by simp
  then have side: "side_ok k y \<Longrightarrow> side_ok k ?y"
    using side_after_step[OF ok] crypto_lengths(3)[OF ok, of i] by (simp add: keypair_ok_def)
  have "public_key (keygen C j) \<noteq> public_key (keygen C n)"
    using fresh ij(2) by (auto simp: fresh_keys_def inj_on_def)
  then have ah: "ahead C (n + 1) (after_receive C cs (sending_count x) ?y) (after_send C cs x)"
    unfolding ahead_def
    by (intro exI[of _ n] exI[of _ i] exI[of _ k2] exI[of _ "snd ?send"] conjI)
      (use ij k2 in \<open>simp_all add: after_receive_def after_send_def\<close>)
  show thesis by (rule that[OF step]) (use side ah in simp_all)
qed

text \<open>A side that is behind writes on the chain it is on, and nothing else changes.\<close>

lemma chain_ahead:
  assumes a: "ahead C n y x" and cs: "sending_chain_key x = Some cs"
  shows "session_step C n y (public_key (self_ratchet x)) = Ret (y, n)"
    "receiving_chain_key y = Some cs" "receiving_count y = sending_count x"
    "cnt = sending_count x \<Longrightarrow> ahead C n (after_receive C cs cnt y) (after_send C cs x)"
  using a cs by (auto simp: ahead_def session_step_def after_receive_def after_send_def)

subsection \<open>One message\<close>

text \<open>A session that is kept in a store, and the library over it.\<close>

locale session_user = record_store ld sv "\<lambda>_. True" session_fits
  for ld :: "'st \<Rightarrow> address \<Rightarrow> session_record option" and sv :: "'st \<Rightarrow> address \<Rightarrow> session_record \<Rightarrow> 'st"
begin

lemma stored_session: "side_ok k s \<Longrightarrow> ld (sv st a (save_ratchet s)) a = Some (save_ratchet s)"
  using load_stored side_saved(3) by blast

end

definition exchange ::
  "crypto \<Rightarrow> ('st \<Rightarrow> address \<Rightarrow> session_record option) \<Rightarrow> ('st \<Rightarrow> address \<Rightarrow> session_record \<Rightarrow> 'st)
     \<Rightarrow> keypair \<Rightarrow> keypair \<Rightarrow> address \<Rightarrow> address \<Rightarrow> bytes \<Rightarrow> nat \<Rightarrow> 'st \<Rightarrow> 'st \<Rightarrow> (bytes result \<times> 'st \<times> 'st \<times> nat) run" where
  "exchange C ld sv kx ky ax ay p n stx sty =
     bind_run (Some (encrypt_1to1 C ld sv n kx stx ay p)) (\<lambda>(r, stx, n).
       case r of
         Fail e \<Rightarrow> return (Fail e, stx, sty, n)
       | Success m \<Rightarrow>
           bind_run (decrypt_whisper C ld sv n sty ax (em_ciphertext m) (0x05 # public_key ky) (0x05 # public_key kx))
             (\<lambda>(r, sty, n). return (r, stx, sty, n)))"

lemma encrypt_sealed:
  assumes "ld st a = Some (save_ratchet s)" "side_ok k s" "sending_chain_key s = Some cs"
    "seal C our_kp s (snd (kdf_ck C cs)) p = Some wire"
  shows "encrypt_1to1 C ld sv n our_kp st a p =
    Ret (Success \<lparr>em_type = Whisper, em_ciphertext = wire, em_header = [], em_counter = sending_count s\<rparr>,
      sv st a (save_ratchet (after_send C cs s)), n)"
  using assms side_saved(1)[OF assms(2)]
  by (simp add: encrypt_1to1_def first_send_step_def case_prod_beta after_send_def)

lemma decrypt_opened:
  assumes "ld st a = Some (save_ratchet s)" "side_ok k s" and len: "length wire \<ge> 10"
    and "decodeSignalMessageInner (take (length wire - 9) (tl wire)) = Some (Ret m)"
    and "ratchet_key m = 0x05 # key" "key_ok key" "ciphertext m \<noteq> []"
    and "session_step C n s key = Ret (s', n')" "receiving_chain_key s' = Some cs"
    and "receiving_count s' = counter m" "counter m \<noteq> - 1"
    and "open_whisper C (snd (kdf_ck C cs)) their our (hd wire) (take (length wire - 9) (tl wire))
      (drop (length wire - 8) wire) (ciphertext m) = Success p"
  shows "decrypt_whisper C ld sv n st a wire our their =
    return (Success p, sv st a (save_ratchet (after_receive C cs (counter m) s')), n')"
proof -
  have "ed25519_to_curve25519 (0x05 # key) = key" "key \<noteq> []"
    using assms(6) by (auto simp: ed25519_to_curve25519_def key_ok_def)
  then show ?thesis
    using assms side_saved(2)[OF assms(2)] advance_one[OF assms(11)]
    by (simp add: decrypt_whisper_def Let_def after_receive_def)
qed

context session_user
begin

lemma sealed_is_read:
  assumes ok: "crypto_ok C" and fresh: "fresh_keys C (Suc n)"
    and sides: "side_ok ky x" "side_ok kx y" and stored: "ld sty ax = Some (save_ratchet y)"
    and synced: "ahead C n x y \<or> ahead C n y x" and cs: "sending_chain_key x = Some cs"
    and cnt: "sending_count x \<noteq> - 1" and p: "p \<noteq> []" "length p < 2 ^ 62"
  obtains wire y' n' where "seal C kx x (snd (kdf_ck C cs)) p = Some wire"
    "decrypt_whisper C ld sv n sty ax wire (0x05 # public_key ky) (0x05 # public_key kx) =
       return (Success p, sv sty ax (save_ratchet y'), n')"
    "side_ok kx y'" "ahead C n' y' (after_send C cs x)" "n' \<le> n + 1"
    "sending_count y' = 0 \<or> sending_count y' = sending_count y"
proof -
  have key: "key_ok (public_key (self_ratchet x))" using sides(1) by (simp add: side_ok_def state_ok_def keypair_ok_def)
  obtain wire m where w: "seal C kx x (snd (kdf_ck C cs)) p = Some wire" "length wire \<ge> 10"
    "decodeSignalMessageInner (take (length wire - 9) (tl wire)) = Some (Ret m)"
    "ratchet_key m = 0x05 # public_key (self_ratchet x)" "counter m = sending_count x" "ciphertext m \<noteq> []"
    "open_whisper C (snd (kdf_ck C cs)) (0x05 # public_key kx) (0x05 # remote_identity x) (hd wire)
       (take (length wire - 9) (tl wire)) (drop (length wire - 8) wire) (ciphertext m) = Success p"
    using sealed_opens[OF ok key p] by blast
  have ids: "remote_identity x = public_key ky" using sides(1) by (simp add: side_ok_def)
  obtain y' n' where y': "session_step C n y (public_key (self_ratchet x)) = Ret (y', n')" "side_ok kx y'"
    "receiving_chain_key y' = Some cs" "receiving_count y' = counter m" "n' \<le> n + 1"
    "ahead C n' (after_receive C cs (counter m) y') (after_send C cs x)"
    "sending_count y' = 0 \<or> sending_count y' = sending_count y"
  proof (cases "ahead C n x y")
    case True
    obtain z where z: "session_step C n y (public_key (self_ratchet x)) = Ret (z, n + 1)"
      "side_ok kx y \<Longrightarrow> side_ok kx z" "receiving_chain_key z = Some cs" "receiving_count z = 0"
      "\<And>cnt. cnt = sending_count x \<Longrightarrow> ahead C (n + 1) (after_receive C cs cnt z) (after_send C cs x)"
      using step_ahead[OF ok fresh True cs] by metis
    moreover have "sending_count x = 0" using True by (auto simp: ahead_def)
    moreover have "sending_count z = 0" using z(5)[OF refl] by (auto simp: ahead_def after_receive_def)
    ultimately show thesis using that[of z "n + 1"] sides(2) w(5) by simp
  next
    case False
    then have a: "ahead C n y x" using synced by blast
    show thesis
      using that[of y n] chain_ahead[OF a cs] sides(2) w(5) by simp
  qed
  have "decrypt_whisper C ld sv n sty ax wire (0x05 # public_key ky) (0x05 # public_key kx) =
    return (Success p, sv sty ax (save_ratchet (after_receive C cs (counter m) y')), n')"
    by (rule decrypt_opened[where ld = ld and st = sty and a = ax, OF stored sides(2) w(2,3,4) key w(6) y'(1,3,4)])
      (use w(5,7) cnt ids in simp_all)
  then show thesis
    by (rule that[OF w(1)]) (use y' side_after_receive[OF ok y'(2)] in \<open>simp_all add: after_receive_def\<close>)
qed

lemma exchange_reads:
  assumes ok: "crypto_ok C" and fresh: "fresh_keys C (Suc n)"
    and sides: "side_ok ky x" "side_ok kx y" and stored: "ld stx ay = Some (save_ratchet x)" "ld sty ax = Some (save_ratchet y)"
    and synced: "ahead C n x y \<or> ahead C n y x" and cs: "sending_chain_key x = Some cs"
    and cnt: "sending_count x \<noteq> - 1" and p: "p \<noteq> []" "length p < 2 ^ 62"
  shows "\<exists>x' y' stx' sty' n'. exchange C ld sv kx ky ax ay p n stx sty = return (Success p, stx', sty', n')
    \<and> ld stx' ay = Some (save_ratchet x') \<and> ld sty' ax = Some (save_ratchet y') \<and> side_ok ky x' \<and> side_ok kx y'
    \<and> ahead C n' y' x' \<and> sending_chain_key x' \<noteq> None \<and> n' \<le> n + 1
    \<and> sending_count x' = sending_count x + 1 \<and> (sending_count y' = 0 \<or> sending_count y' = sending_count y)"
proof -
  obtain wire y' n' where w: "seal C kx x (snd (kdf_ck C cs)) p = Some wire"
    "decrypt_whisper C ld sv n sty ax wire (0x05 # public_key ky) (0x05 # public_key kx) =
       return (Success p, sv sty ax (save_ratchet y'), n')"
    "side_ok kx y'" "ahead C n' y' (after_send C cs x)" "n' \<le> n + 1"
    "sending_count y' = 0 \<or> sending_count y' = sending_count y"
    using sealed_is_read[OF ok fresh sides stored(2) synced cs cnt p] by blast
  have "encrypt_1to1 C ld sv n kx stx ay p =
    Ret (Success \<lparr>em_type = Whisper, em_ciphertext = wire, em_header = [], em_counter = sending_count x\<rparr>,
      sv stx ay (save_ratchet (after_send C cs x)), n)"
    by (rule encrypt_sealed[where ld = ld and st = stx and a = ay, OF stored(1) sides(1) cs w(1)])
  then show ?thesis
    using w stored_session[OF side_after_send[OF ok sides(1), of cs]] stored_session[OF w(3)]
      side_after_send[OF ok sides(1), of cs]
    by (intro exI[of _ "after_send C cs x"] exI[of _ y'] exI[of _ "sv stx ay (save_ratchet (after_send C cs x))"]
        exI[of _ "sv sty ax (save_ratchet y')"] exI[of _ n'])
      (simp add: exchange_def, simp add: after_send_def)
qed

end

interpretation mem_user: session_user mem_load_session mem_store_session
  by unfold_locales (simp add: mem.load_after_store)

interpretation file_user: session_user file_load_session "file_store_session w"
  by unfold_locales (simp add: on_file.load_after_store)

subsection \<open>Conversations\<close>

text \<open>Who writes, and what; every message is read before the next is written.\<close>

fun converse ::
  "crypto \<Rightarrow> ('st \<Rightarrow> address \<Rightarrow> session_record option) \<Rightarrow> ('st \<Rightarrow> address \<Rightarrow> session_record \<Rightarrow> 'st)
     \<Rightarrow> keypair \<Rightarrow> keypair \<Rightarrow> address \<Rightarrow> address \<Rightarrow> (bool \<times> bytes) list \<Rightarrow> nat \<Rightarrow> 'st \<Rightarrow> 'st
     \<Rightarrow> (bytes result list \<times> 'st \<times> 'st \<times> nat) run" where
  "converse C ld sv kA kB aA aB [] n stA stB = return ([], stA, stB, n)"
| "converse C ld sv kA kB aA aB ((fromA, p) # ms) n stA stB =
     bind_run
       (if fromA then exchange C ld sv kA kB aA aB p n stA stB
        else bind_run (exchange C ld sv kB kA aB aA p n stB stA) (\<lambda>(r, stB, stA, n). return (r, stA, stB, n)))
       (\<lambda>(r, stA, stB, n).
          bind_run (converse C ld sv kA kB aA aB ms n stA stB) (\<lambda>(rs, stA, stB, n). return (r # rs, stA, stB, n)))"

definition plain :: "bytes \<Rightarrow> bool" where
  "plain p = (p \<noteq> [] \<and> length p < 2 ^ 62)"

lemma fresh_keys_less: "fresh_keys C N \<Longrightarrow> n \<le> N \<Longrightarrow> fresh_keys C n"
  unfolding fresh_keys_def by (rule inj_on_subset) auto

lemma below_top: "unat (c :: u32) \<le> m \<Longrightarrow> m + 1 < 2 ^ 32 \<Longrightarrow> c \<noteq> - 1 \<and> unat (c + 1) \<le> m + 1"
proof -
  assume c: "unat c \<le> m" "m + 1 < 2 ^ 32"
  have "unat (- 1 :: u32) = 2 ^ 32 - 1" by (simp add: unsigned_minus_1_eq_mask mask_eq_exp_minus_1)
  then have "c \<noteq> - 1" using c by auto
  moreover have "unat (c + 1) \<le> unat c + 1"
    by (metis Suc_eq_plus1 add.commute le_refl le_Suc_eq unatSuc unsigned_0 zero_le)
  ultimately show ?thesis using c by simp
qed

context session_user
begin

lemma converse_reads:
  assumes ok: "crypto_ok C" and fresh: "fresh_keys C N"
    and "side_ok kB a" "side_ok kA b" "ld stA aB = Some (save_ratchet a)" "ld stB aA = Some (save_ratchet b)"
    and "ahead C n a b \<or> ahead C n b a" "sending_chain_key a \<noteq> None"
    and "sending_chain_key b \<noteq> None \<or> (ms \<noteq> [] \<longrightarrow> fst (hd ms))"
    and "unat (sending_count a) \<le> m" "unat (sending_count b) \<le> m"
    and "m + length ms < 2 ^ 32" "n + length ms \<le> N" "\<And>w p. (w, p) \<in> set ms \<Longrightarrow> plain p"
  shows "\<exists>stA' stB' n'. converse C ld sv kA kB aA aB ms n stA stB = return (map (Success \<circ> snd) ms, stA', stB', n')"
  using assms(3-)
proof (induction ms arbitrary: a b stA stB n m)
  case Nil
  then show ?case by simp
next
  case (Cons msg ms)
  obtain fromA p where msg: "msg = (fromA, p)" by force
  have p: "p \<noteq> []" "length p < 2 ^ 62" using Cons.prems(12)[of fromA p] msg by (auto simp: plain_def)
  have n: "fresh_keys C (Suc n)" using fresh_keys_less[OF fresh, of "Suc n"] Cons.prems(11) by simp
  have m: "m + 1 < 2 ^ 32" using Cons.prems(10) by simp
  note top = below_top[OF Cons.prems(8) m] below_top[OF Cons.prems(9) m]
  have rest: "plain p" if "(w, p) \<in> set ms" for w p using Cons.prems(12)[of w p] that by simp
  show ?case
  proof (cases fromA)
    case True
    obtain cs where cs: "sending_chain_key a = Some cs" using Cons.prems(6) by blast
    obtain x y s t n' where e: "exchange C ld sv kA kB aA aB p n stA stB = return (Success p, s, t, n')"
      "ld s aB = Some (save_ratchet x)" "ld t aA = Some (save_ratchet y)" "side_ok kB x" "side_ok kA y"
      "ahead C n' y x" "sending_chain_key x \<noteq> None" "n' \<le> n + 1"
      "sending_count x = sending_count a + 1" "sending_count y = 0 \<or> sending_count y = sending_count b"
      using exchange_reads[OF ok n Cons.prems(1-5) cs conjunct1[OF top(1)] p] by blast
    have "\<exists>stA' stB' n''. converse C ld sv kA kB aA aB ms n' s t = return (map (Success \<circ> snd) ms, stA', stB', n'')"
      by (rule Cons.IH[of x y s t n' "m + 1"])
        (use e top Cons.prems(9-11) rest in \<open>auto simp: ahead_def\<close>)
    then show ?thesis using e(1) True msg by auto
  next
    case False
    then obtain cs where cs: "sending_chain_key b = Some cs" using Cons.prems(7) msg by auto
    have synced: "ahead C n b a \<or> ahead C n a b" using Cons.prems(5) by blast
    obtain x y s t n' where e: "exchange C ld sv kB kA aB aA p n stB stA = return (Success p, s, t, n')"
      "ld s aA = Some (save_ratchet x)" "ld t aB = Some (save_ratchet y)" "side_ok kA x" "side_ok kB y"
      "ahead C n' y x" "sending_chain_key x \<noteq> None" "n' \<le> n + 1"
      "sending_count x = sending_count b + 1" "sending_count y = 0 \<or> sending_count y = sending_count a"
      using exchange_reads[OF ok n Cons.prems(2,1,4,3) synced cs conjunct1[OF top(2)] p] by blast
    have "\<exists>stA' stB' n''. converse C ld sv kA kB aA aB ms n' t s = return (map (Success \<circ> snd) ms, stA', stB', n'')"
      by (rule Cons.IH[of y x t s n' "m + 1"])
        (use e top Cons.prems(8,10,11) rest in \<open>auto simp: ahead_def\<close>)
    then show ?thesis using e(1) False msg by auto
  qed
qed

end

text \<open>Two sides that agree on a root start in step.\<close>

lemma established:
  assumes ok: "crypto_ok C" and keys: "keypair_ok kA" "keypair_ok kB" "key_ok root"
    and init: "ratchet_init_as_initiator C n kA (public_key kB) root (public_key (keygen C j)) = Ret (a, n1)"
    and j: "j < n"
  shows "n1 = n + 1" "ahead C n1 a (ratchet_init_as_recipient kB (public_key kA) root (keygen C j))"
    "side_ok kB a" "side_ok kA (ratchet_init_as_recipient kB (public_key kA) root (keygen C j))"
    "sending_count a = 0" "sending_chain_key a \<noteq> None"
proof -
  obtain k where k: "dh C (private_key (keygen C n)) (public_key (keygen C j)) = Ret k"
    "dh C (private_key (keygen C j)) (public_key (keygen C n)) = Ret k"
    using keys_agree[OF ok, of n j] by blast
  let ?rk = "kdf_rk C root k"
  have a: "a = \<lparr>self_identity = kA, remote_identity = public_key kB, self_ratchet = keygen C n,
      remote_ratchet = Some (public_key (keygen C j)), root_key = fst ?rk, sending_chain_key = Some (snd ?rk),
      receiving_chain_key = None, sending_count = 0, receiving_count = 0, prev_sending_count = 0,
      skipped_keys = []\<rparr>" and n1: "n1 = n + 1"
    using init k(1) by (auto simp: ratchet_init_as_initiator_def Let_def case_prod_beta)
  show "n1 = n + 1" by (rule n1)
  show "ahead C n1 a (ratchet_init_as_recipient kB (public_key kA) root (keygen C j))"
    unfolding ahead_def
    by (intro exI[of _ n] exI[of _ j] exI[of _ k] exI[of _ "snd ?rk"] conjI)
      (use k j n1 in \<open>simp_all add: a ratchet_init_as_recipient_def\<close>)
  show "side_ok kB a" "side_ok kA (ratchet_init_as_recipient kB (public_key kA) root (keygen C j))"
    "sending_count a = 0" "sending_chain_key a \<noteq> None"
    using keys kdf_ok[OF ok] crypto_lengths(3)[OF ok]
    by (auto simp: a side_ok_def state_ok_def opt_key_ok_def ratchet_init_as_recipient_def keypair_ok_def)
qed

text \<open>C30: Two sides that start from the same root key read every message of their conversation, whoever
  writes and however often the turn changes, as long as each message is read before the next one is
  written; this is for sessions that are stored after every message and loaded before the next.\<close>

theorem conversation_reads:
  assumes "crypto_ok C" and "fresh_keys C (n + 1 + length ms)"
    and "keypair_ok kA" "keypair_ok kB" "key_ok root" and "j < n"
    and "ratchet_init_as_initiator C n kA (public_key kB) root (public_key (keygen C j)) = Ret (a, n1)"
    and "ms \<noteq> [] \<Longrightarrow> fst (hd ms)" and "\<And>who p. (who, p) \<in> set ms \<Longrightarrow> plain p" and "length ms < 2 ^ 32"
  shows "\<exists>stA stB n2. converse C file_load_session (file_store_session w) kA kB aA aB ms n1
      (file_store_session w sA aB (save_ratchet a))
      (file_store_session w sB aA (save_ratchet (ratchet_init_as_recipient kB (public_key kA) root (keygen C j))))
    = return (map (Success \<circ> snd) ms, stA, stB, n2)"
proof -
  let ?b = "ratchet_init_as_recipient kB (public_key kA) root (keygen C j)"
  note est = established[OF assms(1,3,4,5,7,6)]
  show ?thesis
    by (rule file_user.converse_reads[OF assms(1,2) est(3,4) file_user.stored_session[OF est(3)]
        file_user.stored_session[OF est(4)] disjI1[OF est(2)] est(6), of ms 0])
      (use est(1,5) assms(8-10) in \<open>auto simp: ratchet_init_as_recipient_def\<close>)
qed

lemma demo_fresh: "n \<le> 2 ^ 32 \<Longrightarrow> fresh_keys demo_crypto n"
proof -
  assume n: "n \<le> 2 ^ 32"
  have "i = j" if "i < n" "j < n" "public_key (keygen demo_crypto i) = public_key (keygen demo_crypto j)" for i j
  proof -
    have "write_u32_be (word_of_nat i) @ replicate 28 0 = write_u32_be (word_of_nat j) @ replicate 28 0"
      using that(3) by (simp add: demo_crypto_def)
    then have "read_u32_be (write_u32_be (word_of_nat i) @ replicate 28 0)
        = read_u32_be (write_u32_be (word_of_nat j) @ replicate 28 0)" by (rule arg_cong)
    then have "(word_of_nat i :: u32) = word_of_nat j" unfolding read_write_u32 .
    then have "unat (word_of_nat i :: u32) = unat (word_of_nat j :: u32)" by simp
    then show "i = j" using that n by (simp add: unat_of_nat take_bit_nat_eq_self)
  qed
  then show ?thesis by (auto simp: fresh_keys_def inj_on_def)
qed

definition demo_talk :: "(bool \<times> bytes) list" where
  "demo_talk = [(True, [1, 2]), (True, [3]), (False, [4]), (True, [5]), (False, [6]), (False, [7])]"

lemma conversation_reads_witness:
  "\<exists>a n1 stA stB n2.
    ratchet_init_as_initiator demo_crypto 4 (keygen demo_crypto 1) (public_key (keygen demo_crypto 2)) zero_key
      (public_key (keygen demo_crypto 3)) = Ret (a, n1)
  \<and> converse demo_crypto file_load_session (file_store_session True) (keygen demo_crypto 1) (keygen demo_crypto 2)
      (peer ''a'') (peer ''b'') demo_talk n1
      (file_store_session True new_store (peer ''b'') (save_ratchet a))
      (file_store_session True new_store (peer ''a'')
        (save_ratchet (ratchet_init_as_recipient (keygen demo_crypto 2) (public_key (keygen demo_crypto 1)) zero_key
          (keygen demo_crypto 3))))
    = return (map Success [[1, 2], [3], [4], [5], [6], [7]], stA, stB, n2)"
proof -
  obtain a n1 where a: "ratchet_init_as_initiator demo_crypto 4 (keygen demo_crypto 1)
      (public_key (keygen demo_crypto 2)) zero_key (public_key (keygen demo_crypto 3)) = Ret (a, n1)"
    by (simp add: ratchet_init_as_initiator_def demo_crypto_def Let_def case_prod_beta)
  have k: "keypair_ok (keygen demo_crypto i)" for i by (rule crypto_lengths(3)[OF demo_crypto_ok])
  have "\<exists>stA stB n2. converse demo_crypto file_load_session (file_store_session True) (keygen demo_crypto 1) (keygen demo_crypto 2)
      (peer ''a'') (peer ''b'') demo_talk n1
      (file_store_session True new_store (peer ''b'') (save_ratchet a))
      (file_store_session True new_store (peer ''a'')
        (save_ratchet (ratchet_init_as_recipient (keygen demo_crypto 2) (public_key (keygen demo_crypto 1)) zero_key
          (keygen demo_crypto 3))))
    = return (map (Success \<circ> snd) demo_talk, stA, stB, n2)"
    by (rule conversation_reads[OF demo_crypto_ok demo_fresh k k keypair_ok_no(2) _ a])
      (auto simp: demo_talk_def plain_def)
  then show ?thesis using a by (auto simp: demo_talk_def)
qed

end
