(* ===== verification/SignalEdges.thy ===== *)
theory SignalEdges
  imports SignalChat
begin

unbundle bit_operations_syntax

text \<open>
  The edges of the Signal sessions: what a text goes through from one node to the other, whose root
  keys meet, and what late, forged, repeated and first messages do.
\<close>

subsection \<open>Late messages and the last counter\<close>

lemma advance_late: "\<not> i \<le> cnt \<Longrightarrow> advance_chain C i cnt ck mk = Some (ck, mk)"
  by (subst advance_chain.simps) simp

lemma advance_last: "advance_chain C i (- 1) ck mk = None"
proof (rule ccontr)
  assume "advance_chain C i (- 1) ck mk \<noteq> None"
  then obtain r where "advance_chain C i (- 1) ck mk = Some r" by blast
  then have "(- 1 :: u32) \<noteq> - 1"
    by (rule advance_chain.raw_induct[where P = "\<lambda>C i cnt ck mk r. cnt \<noteq> - 1", rotated])
      (auto simp: case_prod_beta split: if_splits)
  then show False by simp
qed

text \<open>A message on the chain the receiver is on.\<close>

definition on_chain :: "ratchet_state \<Rightarrow> bytes \<Rightarrow> signal_message_inner \<Rightarrow> bool" where
  "on_chain s wire m = (length wire \<ge> 10
     \<and> decodeSignalMessageInner (take (length wire - 9) (tl wire)) = Some (Ret m)
     \<and> (\<exists>key. ratchet_key m = 0x05 # key \<and> key_ok key \<and> remote_ratchet s = Some key)
     \<and> ciphertext m \<noteq> [] \<and> receiving_chain_key s \<noteq> None)"

lemma decrypt_on_chain:
  assumes "ld st a = Some (save_ratchet s)" "side_ok k s" "on_chain s wire m"
  shows "\<exists>ck f. decrypt_whisper C ld sv n st a wire our their =
    bind_run (map_option Ret (advance_chain C (receiving_count s) (counter m) ck None)) (\<lambda>(ck', mko).
      case mko of None \<Rightarrow> Some Trap | Some mk \<Rightarrow> f ck' mk)"
proof -
  obtain key ck where key: "ratchet_key m = 0x05 # key" "key_ok key" "remote_ratchet s = Some key"
    "receiving_chain_key s = Some ck" using assms(3) by (auto simp: on_chain_def)
  then have "ed25519_to_curve25519 (0x05 # key) = key" "key \<noteq> []"
    by (auto simp: ed25519_to_curve25519_def key_ok_def)
  then show ?thesis
    using assms key side_saved(2)[OF assms(2)]
    by (intro exI[of _ ck]) (auto simp: decrypt_whisper_def on_chain_def session_step_def Let_def)
qed

text \<open>A message of the chain the receiver is on whose counter it has passed, because a later one
  overtook it, is decrypted with a key that was never computed.\<close>

lemma late_message_has_no_key:
  assumes "ld st a = Some (save_ratchet s)" "side_ok k s" "on_chain s wire m"
    and "counter m < receiving_count s"
  shows "decrypt_whisper C ld sv n st a wire our their = Some Trap"
proof -
  have "\<not> receiving_count s \<le> counter m" using assms(4) by simp
  then show ?thesis
    using decrypt_on_chain[where ld = ld and st = st and a = a, OF assms(1-3), of C sv n our their]
    by (auto simp: advance_late)
qed

definition demo_wire :: "u32 \<Rightarrow> bytes" where
  "demo_wire cnt = kVersion # encodeSignalMessageProto (0x05 # zero_key) cnt 0 [1] @ replicate 8 0"

definition demo_message :: "u32 \<Rightarrow> signal_message_inner" where
  "demo_message cnt = \<lparr>ratchet_key = 0x05 # zero_key, counter = cnt, previous_counter = 0, ciphertext = [1]\<rparr>"

definition demo_side :: ratchet_state where
  "demo_side = demo_state\<lparr>skipped_keys := []\<rparr>"

lemma demo_side_ok: "side_ok no_keypair demo_side"
  by (simp add: side_ok_def demo_side_def demo_state_def state_ok_def opt_key_ok_def no_keypair_def keypair_ok_def)

lemma demo_on_chain: "on_chain demo_side (demo_wire cnt) (demo_message cnt)"
proof -
  let ?p = "encodeSignalMessageProto (0x05 # zero_key) cnt 0 [1]"
  have "length ?p < 2 ^ 63" using length_proto[of "0x05 # zero_key" cnt 0 "[1]"] by simp
  then have "decodeSignalMessageInner ?p = Some (Ret (demo_message cnt))"
    unfolding demo_message_def by (rule signal_message_back)
  moreover have "take (length (demo_wire cnt) - 9) (tl (demo_wire cnt)) = ?p" by (simp add: demo_wire_def)
  moreover have "length ?p \<ge> 1" by (simp add: encodeSignalMessageProto_def writeBytesField_def)
  then have "length (demo_wire cnt) \<ge> 10" by (simp add: demo_wire_def)
  ultimately show ?thesis
    by (simp add: on_chain_def demo_message_def demo_side_def demo_state_def key_ok_def)
qed

lemma late_message_has_no_key_example:
  "decrypt_whisper demo_crypto mem_load_session mem_store_session 0
     [(peer ''a'', save_ratchet demo_side)] (peer ''a'') (demo_wire 8) [] [] = Some Trap"
  by (rule late_message_has_no_key[OF _ demo_side_ok demo_on_chain])
    (simp_all add: mem_load_session_def demo_message_def demo_side_def demo_state_def)

text \<open>A message with the counter 2^32 - 1 on the current chain keeps the receiver in its loop for
  ever, whatever its MAC.\<close>

lemma last_counter_never_returns:
  assumes "ld st a = Some (save_ratchet s)" "side_ok k s" "on_chain s wire m" and "counter m = - 1"
  shows "decrypt_whisper C ld sv n st a wire our their = None"
  using decrypt_on_chain[where ld = ld and st = st and a = a, OF assms(1-3), of C sv n our their] assms(4)
  by (auto simp: advance_last)

lemma last_counter_never_returns_example:
  "decrypt_whisper demo_crypto mem_load_session mem_store_session 0
     [(peer ''a'', save_ratchet demo_side)] (peer ''a'') (demo_wire (- 1)) [] [] = None"
  by (rule last_counter_never_returns[OF _ demo_side_ok demo_on_chain])
    (simp_all add: mem_load_session_def demo_message_def)

subsection \<open>Groups\<close>

lemma gcm_shapes:
  assumes "crypto_ok C" "aes_gcm_encrypt C n k p = (g, n')"
  shows "length (g_nonce g) = NONCE_SIZE" "length (g_tag g) = TAG_SIZE"
    "gcm_dec C k (g_nonce g) (g_ciphertext g) (g_tag g) = Some p"
  using assms by (auto simp: aes_gcm_encrypt_def Let_def crypto_ok_def case_prod_beta)

text \<open>A group message carries its own key: whoever has any sender key record at all, under any name
  and for any group, reads it.\<close>

lemma group_message_opens_itself:
  assumes "crypto_ok C" and "encrypt_group C ld sv n st a g p = Ret (m, st', n')"
    and "ld2 st2 b h = Some r"
  shows "decrypt_group C ld2 st2 b h m = Success p"
proof -
  obtain mk gcm k where m: "gm_ciphertext m = mk @ g_ciphertext gcm @ g_nonce gcm @ g_tag gcm"
    "length mk = 32" "aes_gcm_encrypt C k mk p = (gcm, n')"
    using assms(2) crypto_lengths(1)[OF assms(1)]
    by (auto simp: encrypt_group_def Let_def kdf_ck_def case_prod_beta split: option.splits if_splits)
  note g = gcm_shapes[OF assms(1) m(3)]
  show ?thesis
    using m(1,2) g assms(3) by (simp add: decrypt_group_def Let_def aes_gcm_decrypt_def)
qed

definition demo_group :: sender_key_record where
  "demo_group = no_sender_key\<lparr>sk_chain_key := zero_key\<rparr>"

lemma group_message_opens_itself_example:
  "\<exists>m st' n'. encrypt_group demo_crypto load_sender_key store_sender_key 0 [((peer ''a'', ''g''), demo_group)]
      (peer ''a'') ''g'' [1, 2] = Ret (m, st', n')
    \<and> decrypt_group demo_crypto load_sender_key [((peer ''x'', ''other''), no_sender_key)] (peer ''x'') ''other'' m
      = Success [1, 2]"
proof -
  have "\<exists>m st' n'. encrypt_group demo_crypto load_sender_key store_sender_key 0 [((peer ''a'', ''g''), demo_group)]
      (peer ''a'') ''g'' [1, 2] = Ret (m, st', n')"
    by (simp add: encrypt_group_def load_sender_key_def demo_group_def Let_def case_prod_beta)
  then obtain m st' n' where m: "encrypt_group demo_crypto load_sender_key store_sender_key 0
      [((peer ''a'', ''g''), demo_group)] (peer ''a'') ''g'' [1, 2] = Ret (m, st', n')" by blast
  have "load_sender_key [((peer ''x'', ''other''), no_sender_key)] (peer ''x'') ''other'' = Some no_sender_key"
    by (simp add: load_sender_key_def)
  from group_message_opens_itself[where ?ld2.0 = load_sender_key, OF demo_crypto_ok m this] m
  show ?thesis by blast
qed

subsection \<open>Key agreement\<close>

text \<open>The secret of X3DH, from the initiator's side: its identity and ephemeral keys against the
  responder's identity, signed and one-time keys.\<close>

definition x3dh_ikm :: "crypto \<Rightarrow> keypair \<Rightarrow> keypair \<Rightarrow> keypair \<Rightarrow> keypair \<Rightarrow> keypair option \<Rightarrow> bytes outcome" where
  "x3dh_ikm C idA ephA idB spkB opkB =
     bind_outcome (dh C (private_key idA) (public_key spkB)) (\<lambda>d1.
     bind_outcome (dh C (private_key ephA) (public_key idB)) (\<lambda>d2.
     bind_outcome (dh C (private_key ephA) (public_key spkB)) (\<lambda>d3.
     bind_outcome (case opkB of None \<Rightarrow> Ret [] | Some k \<Rightarrow> dh C (private_key ephA) (public_key k)) (\<lambda>d4.
       Ret (replicate 32 0xFF @ d1 @ d2 @ d3 @ d4)))))"

lemma dh_commutes:
  "crypto_ok C \<Longrightarrow> dh C (private_key (keygen C i)) (public_key (keygen C j))
     = dh C (private_key (keygen C j)) (public_key (keygen C i))"
  using keys_agree[of C i j] by auto

lemma receiver_ikm_x3dh:
  assumes "crypto_ok C"
  shows "receiver_ikm C (private_key (keygen C idB)) (private_key (keygen C spkB))
      (map_option (\<lambda>k. private_key (keygen C k)) opkB) (public_key (keygen C idA)) (public_key (keygen C ephA))
    = x3dh_ikm C (keygen C idA) (keygen C ephA) (keygen C idB) (keygen C spkB) (map_option (keygen C) opkB)"
proof -
  obtain a b c where d: "dh C (private_key (keygen C idA)) (public_key (keygen C spkB)) = Ret a"
    "dh C (private_key (keygen C ephA)) (public_key (keygen C idB)) = Ret b"
    "dh C (private_key (keygen C ephA)) (public_key (keygen C spkB)) = Ret c"
    using keys_agree[OF assms] by metis
  show ?thesis
    using d dh_commutes[OF assms, of idB ephA] dh_commutes[OF assms, of spkB idA]
      dh_commutes[OF assms, of spkB ephA] dh_commutes[OF assms, of _ ephA]
    by (cases opkB) (simp_all add: receiver_ikm_def x3dh_ikm_def)
qed

text \<open>C32: A session accepted from a pre-key message has the root key X3DH gives its sender, with or
  without a one-time key.\<close>

theorem receiver_meets_x3dh:
  assumes "crypto_ok C"
  shows "receiver_ikm C (private_key (keygen C idB)) (private_key (keygen C spkB))
      (map_option (\<lambda>k. private_key (keygen C k)) opkB) (public_key (keygen C idA)) (public_key (keygen C ephA))
    = x3dh_ikm C (keygen C idA) (keygen C ephA) (keygen C idB) (keygen C spkB) (map_option (keygen C) opkB)"
  using assms by (rule receiver_ikm_x3dh)

lemma receiver_meets_x3dh_witness:
  "receiver_ikm demo_crypto (private_key (keygen demo_crypto 1)) (private_key (keygen demo_crypto 2))
      (map_option (\<lambda>k. private_key (keygen demo_crypto k)) (Some 3)) (public_key (keygen demo_crypto 4))
      (public_key (keygen demo_crypto 5))
    = x3dh_ikm demo_crypto (keygen demo_crypto 4) (keygen demo_crypto 5) (keygen demo_crypto 1)
        (keygen demo_crypto 2) (map_option (keygen demo_crypto) (Some 3))"
  by (rule receiver_meets_x3dh[OF demo_crypto_ok])

definition dh_sized :: "crypto \<Rightarrow> bool" where
  "dh_sized C = (\<forall>i j k. dh C (private_key (keygen C i)) (public_key (keygen C j)) = Ret k \<longrightarrow> length k = 32)"


lemma demo_dh_sized: "dh_sized demo_crypto"
  by (auto simp: dh_sized_def demo_crypto_def)


subsection \<open>Pre-key messages\<close>

definition wire_key :: "bytes \<Rightarrow> bool" where
  "wire_key k = (length k = 33)"

lemma wire_key_converted: "wire_key k \<Longrightarrow> ed25519PublicKeyToCurve25519 k = tl k \<and> tl k \<noteq> [] \<and> key_ok (tl k)"
  by (auto simp: wire_key_def ed25519PublicKeyToCurve25519_def key_ok_def) (metis length_0_conv length_tl diff_Suc_1 numeral_eq_Suc zero_neq_numeral eval_nat_numeral(3) pred_numeral_simps(3))

text \<open>A pre-key message as the handler reads it.\<close>

definition read_as :: "bytes \<Rightarrow> pre_key_signal_message \<Rightarrow> bool" where
  "read_as ct m = (9 \<le> length ct \<and> decodePreKeySignalMessage (tl ct) = Some (Ret m)
     \<and> wire_key (identity_key m) \<and> wire_key (base_key m))"

definition accept_message :: "crypto \<Rightarrow> bool \<Rightarrow> manager \<Rightarrow> string \<Rightarrow> pre_key_signal_message
    \<Rightarrow> (unit result \<times> file_store \<times> pre_key_store) outcome" where
  "accept_message C w M sender m =
     initialize_session_as_receiver C (file_store_session w) (m_own M) (m_sessions M) (m_pre_keys M) (m_signed M)
       (peer sender) (bundle_of_message m (tl (base_key m)) (tl (identity_key m))) (pre_key_id m)"

definition with_identity :: "bool \<Rightarrow> string \<Rightarrow> pre_key_signal_message \<Rightarrow> manager \<Rightarrow> manager" where
  "with_identity w sender m M =
     M\<lparr>m_identities := snd (file_save_identity w (m_identities M) (peer sender) (tl (identity_key m)))\<rparr>"

lemma decrypt_pre_key_message:
  assumes "read_as ct m"
  shows "decryptPreKeyMessage C w M sender ct =
    bind_run (Some (accept_message C w M sender m)) (\<lambda>(r, st, pks).
      let M' = (with_identity w sender m M)\<lparr>m_sessions := st, m_pre_keys := pks\<rparr>
      in case r of
           Fail _ \<Rightarrow> return ([], M')
         | Success _ \<Rightarrow>
             if message m = [] then return ([], M')
             else bind_run (decryptWhisperMessageInner C w M' sender (message m)) (\<lambda>(pt, M').
               if pt = [] then return ([], M') else return (unpadRandomMax16 pt, M')))"
  using assms wire_key_converted
  by (simp add: read_as_def decryptPreKeyMessage_def accept_message_def with_identity_def Let_def)

lemma accepted:
  assumes "accept_message C w M sender m = Ret (Success u, st, pks)" "pre_key_id m > 0"
  shows "load_pre_key pks (pre_key_id m) = None"
  using assms
  by (auto simp: accept_message_def initialize_session_as_receiver_def Let_def load_pre_key_def remove_pre_key_def
      delete_conv
      elim!: caught.elims split: option.splits if_splits)

lemma ahead_mono: "ahead C n x y \<Longrightarrow> n \<le> n' \<Longrightarrow> ahead C n' x y"
  unfolding ahead_def by (meson order.strict_trans2)

lemma length_sealed:
  assumes "crypto_ok C" "seal C kp s mk p = Some wire" "key_ok (public_key (self_ratchet s))"
  shows "length wire \<le> 200 + length p"
proof -
  obtain ck mk' iv where k: "deriveWhisperMessageKeysOut C mk = (ck, mk', iv)" by (metis prod_cases3)
  show ?thesis
    using assms(2,3) k cbc_opens(2)[OF assms(1), of ck p "take 16 iv"] crypto_lengths(1)[OF assms(1)]
      length_proto[of "0x05 # public_key (self_ratchet s)" "sending_count s" "prev_sending_count s"
        "cbc_enc C ck p (take 16 iv)"]
    by (auto simp: seal_def Let_def curve25519PublicKeyToEd_def computeSignalMessageMac_def key_ok_def
        split: if_splits)
qed

lemma length_pre_key_proto:
  "length (encodePreKeySignalMessageProto pid bk ik im reg spk) \<le> 200 + length bk + length ik + length im"
proof -
  have f: "length (writeBytesField i b) \<le> 20 + length b" "length (writeVarintField i v) \<le> 20" for i b v
    using length_writeVarint[of "push_bit 3 (ucast i) OR 2"] length_writeVarint[of "push_bit 3 (ucast i)"]
      length_writeVarint[of v] length_writeVarint[of "word_of_nat (length b)"]
    by (simp_all add: writeBytesField_def writeVarintField_def writeTag_def)
  show ?thesis
    using f(1)[of 2 bk] f(1)[of 3 ik] f(1)[of 4 im] f(2)[of 1 "ucast pid"] f(2)[of 5 "ucast reg"] f(2)[of 6 "ucast spk"]
    by (auto simp: encodePreKeySignalMessageProto_def)
qed

text \<open>The first message of a contact that speaks the Signal protocol, from the keys the node published.\<close>

definition contact_message :: "crypto \<Rightarrow> nat \<Rightarrow> nat \<Rightarrow> nat \<Rightarrow> nat \<Rightarrow> nat option \<Rightarrow> nat \<Rightarrow> u32 \<Rightarrow> u32 \<Rightarrow> bytes \<Rightarrow> bytes option" where
  "contact_message C ia ie ib js opk n pid sid p =
     (case x3dh_ikm C (keygen C ia) (keygen C ie) (keygen C ib) (keygen C js) (map_option (keygen C) opk) of
        Ret ikm \<Rightarrow>
          (case ratchet_init_as_initiator C n (keygen C ia) (public_key (keygen C ib)) (root_of C ikm)
                  (public_key (keygen C js)) of
             Ret (a, _) \<Rightarrow>
               (case sending_chain_key a of
                  None \<Rightarrow> None
                | Some ck \<Rightarrow> map_option (\<lambda>wire. kVersion # encodePreKeySignalMessageProto pid
                      (0x05 # public_key (keygen C ie)) (0x05 # public_key (keygen C ia)) wire 0 sid)
                    (seal C (keygen C ia) a (snd (kdf_ck C ck)) p))
           | _ \<Rightarrow> None)
      | _ \<Rightarrow> None)"

text \<open>The keys a node has published and still holds.\<close>

definition published :: "crypto \<Rightarrow> manager \<Rightarrow> nat \<Rightarrow> nat \<Rightarrow> nat option \<Rightarrow> u32 \<Rightarrow> u32 \<Rightarrow> bool" where
  "published C M ib js opk pid sid = (m_own M = keygen C ib
     \<and> (\<exists>k. load_signed_pre_key (m_signed M) sid = Some k \<and> spk_keypair k = keygen C js)
     \<and> (case opk of None \<Rightarrow> pid = 0
        | Some j \<Rightarrow> pid > 0 \<and> (\<exists>k. load_pre_key (m_pre_keys M) pid = Some k \<and> pk_keypair k = keygen C j)))"

lemma contact_message_read:
  assumes ok: "crypto_ok C" and ct: "contact_message C ia ie ib js opk n pid sid p = Some ct" and p: "plain p"
  obtains ikm a cs wire m where
    "x3dh_ikm C (keygen C ia) (keygen C ie) (keygen C ib) (keygen C js) (map_option (keygen C) opk) = Ret ikm"
    "ratchet_init_as_initiator C n (keygen C ia) (public_key (keygen C ib)) (root_of C ikm)
       (public_key (keygen C js)) = Ret (a, n + 1)"
    "sending_chain_key a = Some cs" "seal C (keygen C ia) a (snd (kdf_ck C cs)) p = Some wire"
    "read_as ct m" "message m = wire" "pre_key_id m = pid" "signed_pre_key_id m = sid"
    "identity_key m = 0x05 # public_key (keygen C ia)" "base_key m = 0x05 # public_key (keygen C ie)"
proof -
  obtain ikm a n1 cs wire where w:
    "x3dh_ikm C (keygen C ia) (keygen C ie) (keygen C ib) (keygen C js) (map_option (keygen C) opk) = Ret ikm"
    "ratchet_init_as_initiator C n (keygen C ia) (public_key (keygen C ib)) (root_of C ikm)
       (public_key (keygen C js)) = Ret (a, n1)"
    "sending_chain_key a = Some cs" "seal C (keygen C ia) a (snd (kdf_ck C cs)) p = Some wire"
    "ct = kVersion # encodePreKeySignalMessageProto pid (0x05 # public_key (keygen C ie))
        (0x05 # public_key (keygen C ia)) wire 0 sid"
    using ct by (auto simp: contact_message_def split: outcome.splits option.splits prod.splits)
  have keys: "length (public_key (keygen C i)) = 32" for i
    using crypto_lengths(3)[OF ok, of i] by (simp add: keypair_ok_def key_ok_def)
  have n1: "n1 = n + 1" "self_ratchet a = keygen C n"
    using w(2) keys_agree[OF ok, of n js] by (auto simp: ratchet_init_as_initiator_def Let_def case_prod_beta)
  let ?m = "\<lparr>pre_key_id = pid, base_key = 0x05 # public_key (keygen C ie),
    identity_key = 0x05 # public_key (keygen C ia), message = wire, registration_id = 0, signed_pre_key_id = sid\<rparr>"
  let ?proto = "encodePreKeySignalMessageProto pid (0x05 # public_key (keygen C ie))
        (0x05 # public_key (keygen C ia)) wire 0 sid"
  have "length wire \<le> 200 + length p"
    using length_sealed[OF ok w(4)] keys[of n] n1(2) by (simp add: key_ok_def)
  then have "length ?proto < 2 ^ 63"
    using length_pre_key_proto[of pid "0x05 # public_key (keygen C ie)" "0x05 # public_key (keygen C ia)" wire 0 sid]
      keys p by (simp add: plain_def)
  then have "decodePreKeySignalMessage ?proto = Some (Ret ?m)" by (rule pre_key_message_round_trip)
  moreover have "8 \<le> length ?proto"
    using keys by (simp add: encodePreKeySignalMessageProto_def writeBytesField_def)
  ultimately have "read_as ct ?m" using keys by (simp add: read_as_def w(5) wire_key_def)
  then show thesis using that[of ikm a cs wire ?m] w(1-4) n1(1) by simp
qed

lemma first_contact:
  assumes ok: "crypto_ok C" and fresh: "fresh_keys C (Suc (m_draws M))"
    and pub: "published C M ib js opk pid sid" and n: "js < n" "n < m_draws M" and p: "plain p"
    and ct: "contact_message C ia ie ib js opk n pid sid p = Some ct"
  shows "\<exists>M'. decryptPreKeyMessage C w M sender ct = return (unpadRandomMax16 p, M')"
proof -
  obtain ikm a cs wire m where w:
    "x3dh_ikm C (keygen C ia) (keygen C ie) (keygen C ib) (keygen C js) (map_option (keygen C) opk) = Ret ikm"
    "ratchet_init_as_initiator C n (keygen C ia) (public_key (keygen C ib)) (root_of C ikm)
       (public_key (keygen C js)) = Ret (a, n + 1)"
    "sending_chain_key a = Some cs" "seal C (keygen C ia) a (snd (kdf_ck C cs)) p = Some wire"
    "read_as ct m" "message m = wire" "pre_key_id m = pid" "signed_pre_key_id m = sid"
    "identity_key m = 0x05 # public_key (keygen C ia)" "base_key m = 0x05 # public_key (keygen C ie)"
    using contact_message_read[OF ok ct p] by blast
  let ?kA = "keygen C ia" let ?kB = "keygen C ib"
  let ?b = "ratchet_init_as_recipient ?kB (public_key ?kA) (root_of C ikm) (keygen C js)"
  have keys: "keypair_ok (keygen C i)" for i by (rule crypto_lengths(3)[OF ok])
  have root: "key_ok (root_of C ikm)" using crypto_lengths(2)[OF ok] by (simp add: root_of_def hkdf_derive_def key_ok_def)
  note est = established[OF ok keys keys root w(2) n(1)]
  obtain sk where sk: "load_signed_pre_key (m_signed M) sid = Some sk" "spk_keypair sk = keygen C js"
    and own: "m_own M = ?kB" using pub by (auto simp: published_def)
  have ikm: "receiver_ikm C (private_key ?kB) (private_key (keygen C js)) (map_option (\<lambda>k. private_key (keygen C k)) opk)
      (public_key ?kA) (public_key (keygen C ie)) = Ret ikm"
    using receiver_ikm_x3dh[OF ok] w(1) by simp
  let ?st = "file_store_session w (m_sessions M) (peer sender) (save_ratchet ?b)"
  obtain pks where acc: "accept_message C w M sender m = Ret (Success (), ?st, pks)"
  proof (cases opk)
    case None
    then show thesis
      using that ikm sk own pub w by (simp add: accept_message_def initialize_session_as_receiver_def
          bundle_of_message_def published_def Let_def)
  next
    case (Some j)
    then obtain k where "pid > 0" "load_pre_key (m_pre_keys M) pid = Some k" "pk_keypair k = keygen C j"
      using pub by (auto simp: published_def)
    then show thesis
      using that ikm sk own w Some by (simp add: accept_message_def initialize_session_as_receiver_def
          bundle_of_message_def Let_def)
  qed
  let ?M = "(with_identity w sender m M)\<lparr>m_sessions := ?st, m_pre_keys := pks\<rparr>"
  have id: "file_load_identity (m_identities ?M) (peer sender) = Some (public_key ?kA)"
    using on_file_ident.load_stored[where a = "peer sender" and r = "public_key ?kA" and w = w and st = "m_identities M"]
      keys[of ia] w(9)
    by (simp add: with_identity_def keypair_ok_def)
  have stored: "file_load_session ?st (peer sender) = Some (save_ratchet ?b)"
    by (rule file_user.stored_session[OF est(4)])
  obtain wire' y n' where r: "seal C ?kA a (snd (kdf_ck C cs)) p = Some wire'"
    "decrypt_whisper C file_load_session (file_store_session w) (m_draws M) ?st (peer sender) wire'
      (0x05 # public_key ?kB) (0x05 # public_key ?kA)
      = return (Success p, file_store_session w ?st (peer sender) (save_ratchet y), n')"
    by (rule file_user.sealed_is_read[where w = w, OF ok fresh est(3,4) stored disjI1[OF ahead_mono[OF est(2)]] w(3)])
      (use n(2) est(1,5) p in \<open>auto simp: plain_def\<close>)
  have p0: "p \<noteq> []" using p by (simp add: plain_def)
  have wire: "wire \<noteq> []" using r(1) w(4) by (auto simp: seal_def Let_def split: prod.splits if_splits)
  have "decryptWhisperMessageInner C w ?M sender wire
      = return (p, ?M\<lparr>m_sessions := file_store_session w ?st (peer sender) (save_ratchet y), m_draws := n'\<rparr>)"
    using id r w(4) own by (simp add: decryptWhisperMessageInner_def manager_decrypt_whisper_def with_identity_def)
  then show ?thesis
    using decrypt_pre_key_message[OF w(5), of C w M sender] acc wire w(6) p0 by (simp add: Let_def)
qed

text \<open>C31: The first message of a new contact that agrees on keys by X3DH is read.\<close>

theorem first_contact_reads:
  assumes "crypto_ok C" and "fresh_keys C (Suc (m_draws M))"
    and "published C M ib js opk pid sid" and "js < n" "n < m_draws M" and "plain p"
    and "contact_message C ia ie ib js opk n pid sid p = Some ct"
  shows "\<exists>M'. decryptPreKeyMessage C w M sender ct = return (unpadRandomMax16 p, M')"
  using assms by (rule first_contact)

lemma contact_message_total:
  assumes ok: "crypto_ok C" and p: "plain p"
  obtains ct where "contact_message C ia ie ib js opk n pid sid p = Some ct"
proof -
  obtain a b c where d: "dh C (private_key (keygen C ia)) (public_key (keygen C js)) = Ret a"
    "dh C (private_key (keygen C ie)) (public_key (keygen C ib)) = Ret b"
    "dh C (private_key (keygen C ie)) (public_key (keygen C js)) = Ret c"
    using keys_agree[OF ok] by metis
  have "\<exists>ikm. x3dh_ikm C (keygen C ia) (keygen C ie) (keygen C ib) (keygen C js) (map_option (keygen C) opk) = Ret ikm"
    using d keys_agree[OF ok, of ie] by (cases opk) (auto simp: x3dh_ikm_def)
  then obtain ikm where ikm: "x3dh_ikm C (keygen C ia) (keygen C ie) (keygen C ib) (keygen C js)
      (map_option (keygen C) opk) = Ret ikm" by blast
  obtain k where "dh C (private_key (keygen C n)) (public_key (keygen C js)) = Ret k"
    using keys_agree[OF ok] by metis
  then obtain s ck where s: "ratchet_init_as_initiator C n (keygen C ia) (public_key (keygen C ib)) (root_of C ikm)
      (public_key (keygen C js)) = Ret (s, n + 1)" "self_ratchet s = keygen C n" "sending_chain_key s = Some ck"
    by (simp add: ratchet_init_as_initiator_def Let_def case_prod_beta)
  have "key_ok (public_key (self_ratchet s))"
    using crypto_lengths(3)[OF ok, of n] s(2) by (simp add: keypair_ok_def)
  from sealed_opens[OF ok this, of p] p obtain wire where "seal C (keygen C ia) s (snd (kdf_ck C ck)) p = Some wire"
    unfolding plain_def by metis
  then show thesis using that ikm s by (simp add: contact_message_def)
qed

definition demo_manager :: manager where
  "demo_manager = \<lparr>m_sessions = new_store, m_pre_keys = \<lparr>pks_keys = [(9, \<lparr>pk_id = 9, pk_keypair = keygen demo_crypto 4\<rparr>)],
     next_id = 10\<rparr>, m_signed = \<lparr>spks_keys = [(7, \<lparr>spk_id = 7, spk_keypair = keygen demo_crypto 3, spk_signature = []\<rparr>)],
     current_id = 7\<rparr>, m_own = keygen demo_crypto 1, m_registration = 1, m_identities = new_store,
     m_sender_keys = new_store, m_draws = 8\<rparr>"

lemma demo_published: "published demo_crypto demo_manager 1 3 (Some 4) 9 7"
  by (simp add: published_def demo_manager_def load_signed_pre_key_def load_pre_key_def)

lemma first_contact_reads_witness:
  "\<exists>ct M'. contact_message demo_crypto 5 6 1 3 (Some 4) 7 9 7 [1, 2, 3] = Some ct
    \<and> decryptPreKeyMessage demo_crypto True demo_manager ''x'' ct = return (unpadRandomMax16 [1, 2, 3], M')"
proof -
  have p: "plain [1, 2, 3]" by (simp add: plain_def)
  obtain ct where ct: "contact_message demo_crypto 5 6 1 3 (Some 4) 7 9 7 [1, 2, 3] = Some ct"
    using contact_message_total[OF demo_crypto_ok p] by blast
  have d: "fresh_keys demo_crypto (Suc (m_draws demo_manager))" "7 < m_draws demo_manager"
    by (simp_all add: demo_manager_def demo_fresh)
  from first_contact_reads[OF demo_crypto_ok d(1) demo_published _ d(2) p ct, of True "''x''"] ct
  show ?thesis by auto
qed

lemma bind_run_Ret: "bind_run r f = Some (Ret y) \<longleftrightarrow> (\<exists>x. r = Some (Ret x) \<and> f x = Some (Ret y))"
  by (cases "(r, f)" rule: bind_run.cases) auto

lemma inner_keeps:
  "decryptWhisperMessageInner C w M s x = return (pt, M') \<Longrightarrow> m_pre_keys M' = m_pre_keys M"
  by (auto simp: decryptWhisperMessageInner_def manager_decrypt_whisper_def bind_run_Ret split: option.splits)

lemma one_time_key_gone:
  assumes "read_as ct m" "0 < pre_key_id m" "load_pre_key (m_pre_keys M) (pre_key_id m) = None"
  shows "\<exists>M'. decryptPreKeyMessage C w M s ct = return ([], M')"
  using assms(2,3) unfolding decrypt_pre_key_message[OF assms(1)]
  by (auto simp: accept_message_def initialize_session_as_receiver_def Let_def split: option.splits)

text \<open>Once a message with a one-time key was read, no other message that names the key is, whoever
  sent it: a contact that writes again before it has an answer is not read.\<close>

lemma second_first_message_lost:
  assumes "decryptPreKeyMessage C w M s ct = return (pt, M1)" "pt \<noteq> []"
    and "read_as ct m" "read_as ct' m'" and "0 < pre_key_id m" "pre_key_id m' = pre_key_id m"
  shows "\<exists>M2. decryptPreKeyMessage C w M1 s' ct' = return ([], M2)"
proof -
  obtain u st pks where acc: "accept_message C w M s m = Ret (Success u, st, pks)" "m_pre_keys M1 = pks"
    using assms(1,2) unfolding decrypt_pre_key_message[OF assms(3)]
    by (auto simp: bind_run_Ret Let_def split: result.splits if_splits dest!: inner_keeps)
      (metis (full_types) old.unit.exhaust result.exhaust)+
  then have "load_pre_key (m_pre_keys M1) (pre_key_id m') = None"
    using accepted[OF acc(1) assms(5)] assms(6) by simp
  then show ?thesis using one_time_key_gone[OF assms(4)] assms(5,6) by simp
qed

lemma second_first_message_lost_example:
  "\<exists>ct ct' M1 M2. contact_message demo_crypto 5 6 1 3 (Some 4) 7 9 7 [1, 2, 3] = Some ct
    \<and> contact_message demo_crypto 5 6 1 3 (Some 4) 7 9 7 [4] = Some ct'
    \<and> decryptPreKeyMessage demo_crypto True demo_manager ''x'' ct = return ([1, 2, 3], M1)
    \<and> decryptPreKeyMessage demo_crypto True M1 ''x'' ct' = return ([], M2)"
proof -
  have p: "plain [1, 2, 3]" "plain [4]" by (simp_all add: plain_def)
  obtain ct where ct: "contact_message demo_crypto 5 6 1 3 (Some 4) 7 9 7 [1, 2, 3] = Some ct"
    using contact_message_total[OF demo_crypto_ok p(1)] by blast
  obtain ct' where ct': "contact_message demo_crypto 5 6 1 3 (Some 4) 7 9 7 [4] = Some ct'"
    using contact_message_total[OF demo_crypto_ok p(2)] by blast
  have d: "fresh_keys demo_crypto (Suc (m_draws demo_manager))" "7 < m_draws demo_manager"
    by (simp_all add: demo_manager_def demo_fresh)
  have u: "unpadRandomMax16 [1, 2, 3] = [1, 2, 3]" by (simp add: unpadRandomMax16_def Let_def)
  obtain M1 where M1: "decryptPreKeyMessage demo_crypto True demo_manager ''x'' ct = return ([1, 2, 3], M1)"
    using first_contact[OF demo_crypto_ok d(1) demo_published _ d(2) p(1) ct, of True "''x''"] unfolding u by auto
  obtain m where m: "read_as ct m" "pre_key_id m = 9" using contact_message_read[OF demo_crypto_ok ct p(1)] by metis
  obtain m' where m': "read_as ct' m'" "pre_key_id m' = 9" using contact_message_read[OF demo_crypto_ok ct' p(2)] by metis
  have pos: "0 < pre_key_id m" "pre_key_id m' = pre_key_id m" using m(2) m'(2) by simp_all
  from second_first_message_lost[OF M1 _ m(1) m'(1) pos, of "''x''"] M1 ct ct' show ?thesis by auto
qed

text \<open>C34: A pre-key message is believed before anything of it is checked: one that carries no message, and
  so no MAC, replaces the session and the identity of whoever it claims to be from and uses up a
  one-time key.\<close>

theorem forged_message_replaces_session:
  assumes "read_as ct m" "message m = []" and "accept_message C w M s m = Ret (Success u, st, pks)"
  shows "\<exists>M' k. decryptPreKeyMessage C w M s ct = return ([], M')
    \<and> file_load_identity (m_identities M') (peer s) = Some (tl (identity_key m))
    \<and> m_sessions M' = file_store_session w (m_sessions M) (peer s)
        (save_ratchet (ratchet_init_as_recipient (m_own M) (tl (identity_key m)) k
          (spk_keypair (the (load_signed_pre_key (m_signed M) (signed_pre_key_id m))))))
    \<and> (pre_key_id m > 0 \<longrightarrow> load_pre_key (m_pre_keys M') (pre_key_id m) = None)"
proof -
  have id: "key_ok (tl (identity_key m))" using assms(1) wire_key_converted by (auto simp: read_as_def)
  obtain k where "st = file_store_session w (m_sessions M) (peer s)
        (save_ratchet (ratchet_init_as_recipient (m_own M) (tl (identity_key m)) k
          (spk_keypair (the (load_signed_pre_key (m_signed M) (signed_pre_key_id m))))))"
    using assms(3) by (auto simp: accept_message_def initialize_session_as_receiver_def bundle_of_message_def Let_def
        elim!: caught.elims split: option.splits if_splits)
  moreover have "file_load_identity (m_identities (with_identity w s m M)) (peer s) = Some (tl (identity_key m))"
    using on_file_ident.load_stored[where a = "peer s" and r = "tl (identity_key m)" and w = w and st = "m_identities M"] id
    by (simp add: with_identity_def)
  moreover have "pre_key_id m > 0 \<longrightarrow> load_pre_key pks (pre_key_id m) = None" using accepted[OF assms(3)] by blast
  ultimately show ?thesis
    unfolding decrypt_pre_key_message[OF assms(1)] using assms(2,3) by (auto simp: Let_def)
qed

definition demo_forged :: bytes where
  "demo_forged = kVersion # encodePreKeySignalMessageProto 9 (0x05 # public_key (keygen demo_crypto 6))
     (0x05 # public_key (keygen demo_crypto 5)) [] 0 7"

definition demo_forged_message :: pre_key_signal_message where
  "demo_forged_message = \<lparr>pre_key_id = 9, base_key = 0x05 # public_key (keygen demo_crypto 6),
     identity_key = 0x05 # public_key (keygen demo_crypto 5), message = [], registration_id = 0, signed_pre_key_id = 7\<rparr>"

lemma forged_message_replaces_session_witness:
  "\<exists>M'. decryptPreKeyMessage demo_crypto True demo_manager ''x'' demo_forged = return ([], M')
    \<and> file_load_identity (m_identities M') (peer ''x'') = Some (public_key (keygen demo_crypto 5))"
proof -
  have len: "length (public_key (keygen demo_crypto i)) = 32" for i
    using crypto_lengths(3)[OF demo_crypto_ok, of i] by (simp add: keypair_ok_def key_ok_def)
  let ?proto = "encodePreKeySignalMessageProto 9 (0x05 # public_key (keygen demo_crypto 6))
     (0x05 # public_key (keygen demo_crypto 5)) [] 0 7"
  have "length ?proto < 2 ^ 63"
    using length_pre_key_proto[of 9 "0x05 # public_key (keygen demo_crypto 6)" "0x05 # public_key (keygen demo_crypto 5)" "[]" 0 7]
      len by simp
  then have "decodePreKeySignalMessage ?proto = Some (Ret demo_forged_message)"
    unfolding demo_forged_message_def by (rule pre_key_message_round_trip)
  moreover have "8 \<le> length ?proto" using len by (simp add: encodePreKeySignalMessageProto_def writeBytesField_def)
  ultimately have m: "read_as demo_forged demo_forged_message"
    using len by (simp add: read_as_def demo_forged_def wire_key_def demo_forged_message_def)
  have e: "message demo_forged_message = []" by (simp add: demo_forged_message_def)
  obtain st pks where acc: "accept_message demo_crypto True demo_manager ''x'' demo_forged_message = Ret (Success (), st, pks)"
    by (simp add: accept_message_def initialize_session_as_receiver_def Let_def demo_forged_message_def demo_manager_def
        load_pre_key_def load_signed_pre_key_def bundle_of_message_def receiver_ikm_def demo_crypto_def)
  from forged_message_replaces_session[OF m e acc] show ?thesis by (auto simp: demo_forged_message_def)
qed

subsection \<open>Two formats and a key without an inverse\<close>

text \<open>What \<open>encrypt_1to1\<close> makes has no header, and \<open>decrypt_1to1\<close> reads the ratchet key from the header.\<close>

lemma own_message_unreadable:
  assumes "encrypt_1to1 C ld sv n kp st a p = Ret (Success e, st', n')"
    and "ld2 st2 b = Some (save_ratchet s)" "side_ok k s"
  shows "decrypt_1to1 C ld2 sv2 m st2 b e = Trap"
proof -
  have "em_header e = []"
    using assms(1) by (auto simp: encrypt_1to1_def case_prod_beta Let_def bind_Ret_iff
        elim!: caught.elims split: option.splits if_splits) (metis encrypted_message.select_convs(3))+
  then show ?thesis
    using assms(2) side_saved(1)[OF assms(3)] by (simp add: decrypt_1to1_def parse_header_def)
qed

lemma key_without_inverse:
  assumes "length pk = 32" "length sig = 64" "le_val pk = field_p - 1" and "mod_inverse C 0 field_p = None"
  shows "x25519_verify C pk m sig = Trap"
  using assms by (simp add: x25519_verify_def Let_def)

end
