(* ===== verification/SignalText.thy ===== *)
theory SignalText
  imports SignalEdges
begin

unbundle bit_operations_syntax

text \<open>
  A text from one node to the other, through all the layers at once: the protocol buffer, the padding,
  the session, the \<open>enc\<close> node, and the handler on the other side. And the texts that never leave.
\<close>

subsection \<open>A text arrives\<close>

lemma payload_plain:
  assumes "t \<noteq> []" "length t < 2 ^ 60"
  shows "plain (encodeTextMessage t)" "unpadRandomMax16 (encodeTextMessage t) = encodeMessage (no_chat\<lparr>conversation := t\<rparr>)"
    "encodeMessage (no_chat\<lparr>conversation := t\<rparr>) \<noteq> []"
proof -
  let ?d = "encodeMessage (no_chat\<lparr>conversation := t\<rparr>)"
  show ne: "?d \<noteq> []"
    using assms(1) by (simp add: encodeMessage_def no_chat_def writeStringField_def)
  show "unpadRandomMax16 (encodeTextMessage t) = ?d" by (simp add: encodeTextMessage_def unpad_pad)
  have "length (encodeTextMessage t) \<le> length ?d + 300"
    using unsigned_less[where 'a = nat] by (auto simp: encodeTextMessage_def padRandomMax16_def Let_def intro: less_imp_le order.trans[OF less_imp_le[OF unsigned_less]])
  then show "plain (encodeTextMessage t)"
    using length_chat[of t] assms ne by (auto simp: plain_def encodeTextMessage_def padRandomMax16_def Let_def)
qed

text \<open>The two managers hold the two ends of one session.\<close>

definition linked :: "crypto \<Rightarrow> manager \<Rightarrow> string \<Rightarrow> ratchet_state \<Rightarrow> manager \<Rightarrow> string \<Rightarrow> ratchet_state \<Rightarrow> bool" where
  "linked C MA a x MB b y =
     (file_load_session (m_sessions MA) (peer b) = Some (save_ratchet x) \<and> side_ok (m_own MB) x
      \<and> file_load_session (m_sessions MB) (peer a) = Some (save_ratchet y) \<and> side_ok (m_own MA) y
      \<and> file_load_identity (m_identities MB) (peer a) = Some (public_key (m_own MA))
      \<and> (ahead C (m_draws MB) x y \<or> ahead C (m_draws MB) y x))"

lemma loaded_is_there: "file_load_session st a = Some r \<Longrightarrow> file_contains_session st a"
  by (auto simp: file_load_session_def file_contains_session_def split: option.splits)


definition demo_side_of :: "nat \<Rightarrow> string \<Rightarrow> bytes \<Rightarrow> ratchet_state \<Rightarrow> manager" where
  "demo_side_of k who their_id s = \<lparr>m_sessions = file_store_session True new_store (peer who) (save_ratchet s),
     m_pre_keys = \<lparr>pks_keys = [], next_id = 1\<rparr>, m_signed = \<lparr>spks_keys = [], current_id = 0\<rparr>,
     m_own = keygen demo_crypto k, m_registration = 1,
     m_identities = snd (file_save_identity True new_store (peer who) their_id), m_sender_keys = new_store, m_draws = 5\<rparr>"

lemma demo_linked:
  obtains x y where "linked demo_crypto (demo_side_of 1 ''b'' (public_key (keygen demo_crypto 2)) x) ''a'' x
      (demo_side_of 2 ''a'' (public_key (keygen demo_crypto 1)) y) ''b'' y"
    "sending_chain_key x \<noteq> None" "sending_count x = 0"
proof -
  obtain x n1 where x: "ratchet_init_as_initiator demo_crypto 4 (keygen demo_crypto 1) (public_key (keygen demo_crypto 2))
      zero_key (public_key (keygen demo_crypto 3)) = Ret (x, n1)"
    by (simp add: ratchet_init_as_initiator_def demo_crypto_def Let_def case_prod_beta)
  have k: "keypair_ok (keygen demo_crypto i)" for i by (rule crypto_lengths(3)[OF demo_crypto_ok])
  have "(3 :: nat) < 4" by simp
  note est = established[OF demo_crypto_ok k k keypair_ok_no(2) x this]
  let ?y = "ratchet_init_as_recipient (keygen demo_crypto 2) (public_key (keygen demo_crypto 1)) zero_key (keygen demo_crypto 3)"
  have "key_ok (public_key (keygen demo_crypto i))" for i using k[of i] by (simp add: keypair_ok_def)
  then have "linked demo_crypto (demo_side_of 1 ''b'' (public_key (keygen demo_crypto 2)) x) ''a'' x
      (demo_side_of 2 ''a'' (public_key (keygen demo_crypto 1)) ?y) ''b'' ?y"
    using est file_user.stored_session[OF est(3)] file_user.stored_session[OF est(4)]
      on_file_ident.load_stored[where w = True and st = new_store]
    by (simp add: linked_def demo_side_of_def)
  then show thesis using that est by blast
qed


subsection \<open>Texts that never leave\<close>

text \<open>A text to someone the node has no session with is given up: the bundle the session is to be made
  from is empty, and X25519 refuses the zero key.\<close>

lemma new_contact_never_written:
  assumes "\<And>k. dh C k zero_key = Throw" and "\<not> has_session M (peer b)"
  shows "\<exists>M'. encrypt_text C w M b t = Ret (None, M') \<and> m_sessions M' = m_sessions M"
  using assms
  by (simp add: encrypt_text_def establish_session_def initialize_session_def initiator_ikm_def Let_def
      no_bundle_def no_keypair_def no_signed_pre_key_def)

definition strict_crypto :: crypto where
  "strict_crypto = demo_crypto\<lparr>dh := (\<lambda>a b. if b = zero_key then Throw else dh demo_crypto a b)\<rparr>"

lemma new_contact_never_written_example:
  "\<exists>M'. encrypt_text strict_crypto True demo_manager ''b'' ''hello'' = Ret (None, M') \<and> m_sessions M' = new_store"
proof -
  have "\<not> has_session demo_manager (peer ''b'')"
    by (simp add: has_session_def demo_manager_def file_contains_session_def new_store_def)
  from new_contact_never_written[OF _ this, of strict_crypto True "''hello''"] show ?thesis
    by (simp add: strict_crypto_def demo_manager_def)
qed

text \<open>The second batch of one-time keys takes the ids of the first from its second key on: what was
  published under them is gone.\<close>

lemma fold_store_other:
  "(\<And>k. k \<in> set ks \<Longrightarrow> pk_id k \<noteq> i) \<Longrightarrow>
     load_pre_key (fold (\<lambda>k st. store_pre_key st k) ks st) i = load_pre_key st i"
  by (induction ks arbitrary: st) (auto simp: load_pre_key_def store_pre_key_def update_conv)

lemma second_batch_overwrites:
  assumes "manager_generate_pre_keys C M (Suc (Suc c)) = (ks1, M1)" "manager_generate_pre_keys C M1 (Suc d) = (ks2, M2)"
    and "Suc d < 2 ^ 32"
  shows "pk_id (ks1 ! 1) = pk_id (ks2 ! 0)" "load_pre_key (m_pre_keys M2) (pk_id (ks1 ! 1)) = Some (ks2 ! 0)"
proof -
  have next_fold: "next_id (fold (\<lambda>k st. store_pre_key st k) ks st) = next_id st" for ks st
    by (induction ks arbitrary: st) (simp_all add: store_pre_key_def)
  let ?i = "next_id (m_pre_keys M) + 1"
  let ?gen = "\<lambda>i. \<lparr>pk_id = ?i + word_of_nat i, pk_keypair = keygen C (m_draws M1 + i)\<rparr>"
  have n1: "next_id (m_pre_keys M1) = ?i" and k1: "pk_id (ks1 ! 1) = ?i"
    using assms(1) by (auto simp: manager_generate_pre_keys_def next_pre_key_id_def generate_pre_keys_def next_fold
        nth_append simp del: upt_Suc)
  have ks2: "ks2 = map ?gen [0..<Suc d]"
    and M2: "m_pre_keys M2 = fold (\<lambda>k st. store_pre_key st k) ks2 (snd (next_pre_key_id (m_pre_keys M1)))"
    using assms(2) n1 by (auto simp: manager_generate_pre_keys_def next_pre_key_id_def generate_pre_keys_def simp del: upt_Suc)
  have split: "ks2 = ?gen 0 # map ?gen [1..<Suc d]" unfolding ks2 by (subst upt_conv_Cons) auto
  have other: "pk_id k \<noteq> ?i" if k: "k \<in> set (map ?gen [1..<Suc d])" for k
  proof -
    obtain i where i: "1 \<le> i" "i < Suc d" "k = ?gen i" using k by (auto simp del: upt_Suc)
    then have "unat (word_of_nat i :: u32) = i" using assms(3) by (simp add: unat_of_nat take_bit_nat_eq_self)
    then have "(word_of_nat i :: u32) \<noteq> 0" using i(1) by auto
    then show ?thesis using i(3) by simp
  qed
  show "pk_id (ks1 ! 1) = pk_id (ks2 ! 0)" using k1 split by simp
  have rest: "load_pre_key (fold (\<lambda>k st. store_pre_key st k) (map ?gen [1..<Suc d]) st) ?i = load_pre_key st ?i" for st
    by (rule fold_store_other) (rule other)
  have stored: "load_pre_key (store_pre_key st (?gen 0)) ?i = Some (?gen 0)" for st
    by (simp add: load_pre_key_def store_pre_key_def update_conv)
  show "load_pre_key (m_pre_keys M2) (pk_id (ks1 ! 1)) = Some (ks2 ! 0)"
    unfolding M2 k1 split fold.simps o_apply rest stored by simp
qed

end
