(* ===== verification/Spec2Isabelle.thy ===== *)
theory Spec2Isabelle
  imports Throttle MsgQueue Supervisor Scheduler PeerSync WALink SignalText
begin

text \<open>
  A verification development for Animus (\<open>src/\<close>), a C++ framework that keeps language-model agents
  running: it schedules their work, routes the messages of chat services to them, limits their calls to
  the model providers, replicates their data between nodes and talks to WhatsApp without a library.
  The theories model the parts whose correctness is a matter of logic rather than of an external
  service, translated function by function from the C++ sources, and prove what makes them correct.

  \<^bold>\<open>The program's parts and their theories\<close> (the arrows are the calls the code makes)

  \<^item> \<^bold>\<open>Kernel services.\<close> \<open>Throttle\<close>: \<open>ProviderThrottle.cpp\<close>, slots per provider, callers that
    wait are a queue of promises. \<open>MsgQueue\<close>: \<open>MessageQueue.cpp\<close>, messages wait per session while a
    chain runs, a cooldown lasts or a window is open. \<open>Supervisor\<close>: \<open>ConnectionSupervisor.cpp\<close>, the
    reconnecting websocket with backoff, watchdog and poll gate.
  \<^item> \<^bold>\<open>Scheduler.\<close> \<open>Calendar\<close> and \<open>Cron\<close>: the time functions of \<open>Scheduler.cpp\<close>. \<open>SchedStores\<close>:
    \<open>ScheduleStore.cpp\<close>. \<open>TaskRuns\<close>: \<open>TaskRunStore.cpp\<close> (a claim row per fire window) and
    \<open>ScheduleLeaseStore.cpp\<close>. \<open>Scheduler\<close>: the pass over the due schedules, which calls all of these.
  \<^item> \<^bold>\<open>Replication.\<close> \<open>IdRanges\<close>: \<open>IdRanges.cpp\<close>, disjoint id ranges per node. \<open>SyncStore\<close>:
    \<open>SyncStore.cpp\<close>, the triggers that fill the outbox and the last-writer-wins application.
    \<open>PeerSync\<close>: \<open>PeerSyncService.cpp\<close> and the two routes that answer it, on top of \<open>SyncStore\<close>.
  \<^item> \<^bold>\<open>WhatsApp.\<close> \<open>WATokens\<close>, \<open>WABinary\<close>, \<open>WAWire\<close>: the binary node format of \<open>WABinary.cpp\<close> and
    the token tables. \<open>WAProto\<close>, \<open>ProtoWire\<close>: the hand-rolled protocol buffers of \<open>WAProto.h\<close>.
    \<open>WSTransport\<close>: the websocket frames of \<open>WhatsAppTransport.cpp\<close>. \<open>Noise\<close>, \<open>NoiseXX\<close>:
    \<open>WhatsAppNoise.cpp\<close> and the initiator of the Noise pattern XX it refines. \<open>WALink\<close>: what the
    gateway loop makes of them, from the bytes of the transport to a node and back.
  \<^item> \<^bold>\<open>Signal.\<close> \<open>SignalTypes\<close>: the records and codecs of \<open>SignalTypes.cpp\<close>. \<open>DoubleRatchet\<close>:
    \<open>DoubleRatchet.cpp\<close>. \<open>Base64\<close>, \<open>SignalStore\<close>: the stores in memory and in files. \<open>SignalCrypto\<close>:
    \<open>SignalCrypto.cpp\<close>. \<open>SignalSession\<close>: \<open>SignalSessionManager.cpp\<close>, \<open>WhatsAppMessageHandler.cpp\<close>
    and the encryption of an outgoing text in \<open>WhatsAppGatewayLoop.cpp\<close>. \<open>SignalChat\<close>,
    \<open>SignalEdges\<close> and \<open>SignalText\<close> hold what these promise together.
  \<^item> \<^bold>\<open>Shared.\<close> \<open>Prelude\<close> (hints and generic lemmas), \<open>Text\<close> (the C++ text functions), \<open>Bytes\<close>
    (bytes, masks, big-endian words), \<open>Json\<close> (the value tree and accessors of jsoncpp).

  A class is a \<open>record\<close> of its members, or a tuple where the class has two; an enum or a tagged value is a
  \<open>datatype\<close> with the constructors of the source; a method is a function from the state to the state
  and its result, under the name it has in the source. \<open>PROJECT.json\<close> maps each definition to its
  lines. An object under a mutex is changed by whole methods; where a method waits or releases the
  lock, it is split there, and an inductive relation (\<open>throttle_step\<close>, \<open>cs_step\<close>) interleaves
  the pieces with the environment.

  \<^bold>\<open>Outcomes.\<close> \<open>outcome\<close> has a value (\<open>Ret\<close>), an exception (\<open>Throw\<close>) and a trap (\<open>Trap\<close>: a division by
  zero, a read past the end, undefined behaviour). A loop the input may keep from ending is a partial
  function into \<open>option\<close>, \<open>None\<close> being the call that never returns: \<open>read_fields\<close> in \<open>WAProto\<close> and
  \<open>advance_chain\<close> in \<open>SignalSession\<close>; no other recursion needs fuel, except the search for
  the next fire, which the code itself bounds (the minutes of five years, which end). Integers of the wire and of
  counters are words of 8, 32 and 64 bits, with the wrap-around the code has; identifiers and
  clocks that the code never brings near their bounds are \<open>int\<close> or \<open>nat\<close>, as each theory says.

  \<^bold>\<open>What is a parameter, and what is assumed of it.\<close> The clock, the random jitter, the answers of peers
  and of the network, whether a statement of the database succeeds (\<open>conn\<close>) and whether a file
  can be written are arguments, so the theorems hold for every behaviour of theirs unless they say
  otherwise. OpenSSL is the record \<open>crypto\<close> of the functions the code calls. \<open>crypto_ok\<close> states
  the documented part of their behaviour: the lengths of what they return, that decryption undoes
  encryption under the same key and nonce, that the two ends of a key agreement get the same secret;
  \<open>noise_ok\<close> states the same of the record \<open>noise_crypto\<close>, the functions
  \<open>WhatsAppNoise.cpp\<close> calls, and \<open>nonce_bound\<close> that no counter has wrapped; \<open>react\<close> is what the gateway does with
  a node it has read.
  \<open>fresh_keys\<close> says that keys drawn at different times differ, \<open>dh_sized\<close> that a shared secret has 32
  bytes. Nothing is assumed of secrecy, so no theorem claims any. Zlib's \<open>inflate\<close> is an
  argument of the decoder of nodes. Each hypothesis holds of a concrete instance in a witness.

  \<^bold>\<open>Interfaces.\<close> A locale states what one component relies on in another, and is interpreted on the
  definitions of the provider: \<open>claim_store\<close> on the claims of task runs and \<open>id_seeder\<close> on both SQL
  dialects, the replica laws of \<open>SyncStore\<close> on the rows of a table, \<open>record_store\<close> on the
  stores in memory and in files (sessions, sender keys and identities each), \<open>session_user\<close> on
  the conversations over either.

  \<^bold>\<open>What the lemmas show.\<close>

  \<^item> Kernel services: no interleaving passes the configured concurrency and a released slot goes to
    the longest waiting call; messages are neither lost, repeated nor reordered and never stay
    unattended; connection attempts keep the floor of the backoff, stop requests are final.
  \<^item> Scheduler: next fires are the first matching minute, printed times order as the times do, a window
    is dispatched at most once whatever crashes, a lease excludes other nodes until it has expired.
  \<^item> Replication: ids of two nodes never collide, two nodes that apply the same records in any order
    agree, an echo dies out, a pull applies each record behind the cursor exactly once.
  \<^item> Wire formats: every encoder has a reader that takes its bytes back from any longer input
    (\<open>reads_as\<close>, \<open>parses\<close>), up to the normal form a theorem names; what a decoder builds is
    bounded by the bytes of its frame. A stream of websocket frames is read as RFC 6455 cuts it,
    however the socket splits it.
  \<^item> The link: \<open>WhatsAppNoise.cpp\<close> computes what an initiator of Noise XX computes, its hello is
    accepted, and every node sent in order on either side is read on the other; one frame that does not
    authenticate leaves the reader behind for good.
  \<^item> Signal: serialized states are read back, messages of a chain are decrypted in any order and with
    any loss by \<open>DoubleRatchet.cpp\<close>; both sides of a conversation read each other in order; a text
    passes all the layers; the receiver's key agreement is the one of X3DH.
  \<^item> Faults: where the code does not do what it means to, the theorem says what it does. The list of
    findings in \<open>PROJECT.json\<close> names them; among them are a lease that fails open, a takeover that
    never succeeds, a local write that peers skip for good, decoders and a ratchet that a
    message can keep looping, and sessions any sender can replace.
  \<^bold>\<open>Not modelled.\<close>

  \<^item> Components around external services (the model providers, the chat services other than
    WhatsApp's codecs and sessions, e-mail, image generation, HTTP, the Lua interpreter): what they
    do is what the service answers.
  \<^item> The stores of sessions, memories, the ontology, attachments, agents and API packages: SQL
    statements and JSON over the two databases, without a protocol of their own.
  \<^item> The routes of the admin server except those of the sync protocol, the user interface in TypeScript,
    the tests and the vendored headers.
  \<^item> Logging, metrics and the parsing of JSON text, which jsoncpp does.
\<close>

end
